(* ===== verification/SR_Prelude.thy ===== *)
theory SR_Prelude
  imports Main "HOL-Library.Word"
begin

unbundle bit_operations_syntax

text \<open>
  Shared vocabulary of the development: the C integer types as words, byte buffers as lists of
  8-bit words, the faults a C operation can raise, checked reads and writes of a region of a
  buffer, the little-endian loads and stores of an x86 Linux host (the build of the Makefile
  defines \<^verbatim>\<open>_LINUX_\<close>, for which \<^verbatim>\<open>sr_protocol.h\<close> selects \<^verbatim>\<open>__LITTLE_ENDIAN\<close>), the byte-order
  functions \<^verbatim>\<open>htons\<close> and \<^verbatim>\<open>htonl\<close>, and the bounded string functions of the C library that the
  router uses.
\<close>

section \<open>Types\<close>

type_synonym u8 = "8 word"
type_synonym u16 = "16 word"
type_synonym u32 = "32 word"
type_synonym bytes = "u8 list"

text \<open>
  A fault is an execution the C program does not define or aborts: a read or write outside a
  buffer, an access through a freed or a null pointer, a failed \<^verbatim>\<open>assert\<close>.  \<open>OutOfFuel\<close> is the
  value of a computation whose recursion depth exceeds the given bound.
\<close>

datatype fault = OutOfBounds | UseAfterFree | NullDeref | AssertFailed | OutOfFuel

named_theorems layout \<open>sizes and field offsets of the C structs\<close>
named_theorems codec \<open>loads, stores and header codecs\<close>
named_theorems frame \<open>state components an operation leaves alone\<close>

section \<open>Words and bytes\<close>

lemma bit_u8_length [dest]: "bit (w :: u8) n \<Longrightarrow> n < 8"
  using bit_imp_le_length [of w n] by simp

lemma bit_u16_length [dest]: "bit (w :: u16) n \<Longrightarrow> n < 16"
  using bit_imp_le_length [of w n] by simp

lemma bit_u32_length [dest]: "bit (w :: u32) n \<Longrightarrow> n < 32"
  using bit_imp_le_length [of w n] by simp

lemma bit_4_length [dest]: "bit (w :: 4 word) n \<Longrightarrow> n < 4"
  using bit_imp_le_length [of w n] by simp

lemma unat_u8_less: "unat (w :: u8) < 256"
  using unsigned_less [of w] by simp

lemma unat_u16_less: "unat (w :: u16) < 65536"
  using unsigned_less [of w] by simp

lemma unat_u32_less: "unat (w :: u32) < 4294967296"
  using unsigned_less [of w] by simp

lemma unat_4_less: "unat (w :: 4 word) < 16"
  using unsigned_less [of w] by simp

lemmas unat_bounds = unat_u8_less unat_u16_less unat_u32_less unat_4_less

text \<open>Little-endian loads and stores.\<close>

definition of_le16 :: "u8 \<Rightarrow> u8 \<Rightarrow> u16" where
  "of_le16 a b = ucast a OR push_bit 8 (ucast b)"

definition le16 :: "u16 \<Rightarrow> bytes" where
  "le16 w = [ucast w, ucast (drop_bit 8 w)]"

definition of_le32 :: "u8 \<Rightarrow> u8 \<Rightarrow> u8 \<Rightarrow> u8 \<Rightarrow> u32" where
  "of_le32 a b c d = ucast a OR push_bit 8 (ucast b) OR push_bit 16 (ucast c) OR push_bit 24 (ucast d)"

definition le32 :: "u32 \<Rightarrow> bytes" where
  "le32 w = [ucast w, ucast (drop_bit 8 w), ucast (drop_bit 16 w), ucast (drop_bit 24 w)]"

lemma ucast_of_le16 [simp, codec]:
  "ucast (of_le16 a b) = a" "ucast (drop_bit 8 (of_le16 a b)) = b"
  unfolding of_le16_def by (rule bit_eqI, auto simp: bit_simps)+

lemma of_le16_ucast [simp, codec]: "of_le16 (ucast w) (ucast (drop_bit 8 w)) = w"
  unfolding of_le16_def by (rule bit_eqI) (auto simp: bit_simps)

lemma ucast_of_le32 [simp, codec]:
  "ucast (of_le32 a b c d) = a" "ucast (drop_bit 8 (of_le32 a b c d)) = b"
  "ucast (drop_bit 16 (of_le32 a b c d)) = c" "ucast (drop_bit 24 (of_le32 a b c d)) = d"
  unfolding of_le32_def by (rule bit_eqI, auto simp: bit_simps)+

lemma of_le32_ucast [simp, codec]:
  "of_le32 (ucast w) (ucast (drop_bit 8 w)) (ucast (drop_bit 16 w)) (ucast (drop_bit 24 w)) = w"
proof (rule bit_eqI)
  fix n
  assume "possible_bit TYPE(u32) n"
  then have "n < 32" by simp
  then consider "n < 8" | "8 \<le> n" "n < 16" | "16 \<le> n" "n < 24" | "24 \<le> n" "n < 32"
    by linarith
  then show "bit (of_le32 (ucast w) (ucast (drop_bit 8 w)) (ucast (drop_bit 16 w))
      (ucast (drop_bit 24 w))) n = bit w n"
    by cases (auto simp: of_le32_def bit_simps)
qed

lemma length_le [simp]: "length (le16 w) = 2" "length (le32 v) = 4"
  by (simp_all add: le16_def le32_def)

lemma unat_of_le16: "unat (of_le16 a b) = unat a + 256 * unat b"
proof -
  have "of_le16 a b = ucast a + push_bit 8 (ucast b)"
    unfolding of_le16_def by (rule disjunctive_add [symmetric]) (auto simp: bit_simps)
  then show ?thesis using unat_u8_less [of a] unat_u8_less [of b]
    by (simp add: unat_word_ariths push_bit_eq_mult unsigned_ucast_eq take_bit_eq_mod)
qed

text \<open>Byte order: on a little-endian host both directions swap the bytes.\<close>

definition htons :: "u16 \<Rightarrow> u16" where
  "htons w = of_le16 (ucast (drop_bit 8 w)) (ucast w)"

definition htonl :: "u32 \<Rightarrow> u32" where
  "htonl w = of_le32 (ucast (drop_bit 24 w)) (ucast (drop_bit 16 w)) (ucast (drop_bit 8 w)) (ucast w)"

abbreviation ntohs :: "u16 \<Rightarrow> u16" where "ntohs \<equiv> htons"
abbreviation ntohl :: "u32 \<Rightarrow> u32" where "ntohl \<equiv> htonl"

lemma htons_htons [simp]: "htons (htons w) = w"
  by (simp add: htons_def)

lemma htonl_htonl [simp]: "htonl (htonl w) = w"
  by (simp add: htonl_def)

lemma htonl_inject: "htonl a = htonl b \<longleftrightarrow> a = b"
  by (metis htonl_htonl)

lemma bind_Inr_iff:
  "Option.bind m (case_sum (\<lambda>f. Some (Inl f)) g) = Some (Inr y) \<longleftrightarrow> (\<exists>x. m = Some (Inr x) \<and> g x = Some (Inr y))"
  by (cases m) (auto split: sum.split)

lemma htons_eq_iff [simp]: "htons v = htons w \<longleftrightarrow> v = w"
  by (metis htons_htons)

lemma htons_of_le16: "htons (of_le16 a b) = of_le16 b a"
  by (simp add: htons_def)

lemma htons_0 [simp]: "htons 0 = 0"
  by (simp add: htons_def of_le16_def)

lemma htons_0_iff [simp]: "htons w = 0 \<longleftrightarrow> w = 0"
  by (metis htons_0 htons_htons)

section \<open>Regions of a buffer\<close>

definition rd_bytes :: "bytes \<Rightarrow> nat \<Rightarrow> nat \<Rightarrow> fault + bytes" where
  "rd_bytes buf off n =
     (if off + n \<le> length buf then Inr (take n (drop off buf)) else Inl OutOfBounds)"

text \<open>The overwriting of a region by bytes that fit.\<close>

definition patch :: "bytes \<Rightarrow> nat \<Rightarrow> bytes \<Rightarrow> bytes" where
  "patch buf off bs = take off buf @ bs @ drop (off + length bs) buf"

definition wr_bytes :: "bytes \<Rightarrow> nat \<Rightarrow> bytes \<Rightarrow> fault + bytes" where
  "wr_bytes buf off bs =
     (if off + length bs \<le> length buf then Inr (patch buf off bs) else Inl OutOfBounds)"

lemma rd_bytes_Inr [simp]: "off + n \<le> length buf \<Longrightarrow> rd_bytes buf off n = Inr (take n (drop off buf))"
  by (simp add: rd_bytes_def)

lemma wr_bytes_Inr [simp]: "off + length bs \<le> length buf \<Longrightarrow> wr_bytes buf off bs = Inr (patch buf off bs)"
  by (simp add: wr_bytes_def)

lemma length_patch [simp]: "off + length bs \<le> length buf \<Longrightarrow> length (patch buf off bs) = length buf"
  by (simp add: patch_def)

lemma nth_patch:
  "off + length bs \<le> length buf \<Longrightarrow> i < length buf \<Longrightarrow>
     patch buf off bs ! i = (if off \<le> i \<and> i < off + length bs then bs ! (i - off) else buf ! i)"
  by (auto simp: patch_def nth_append min_def)

lemma rd_patch_same:
  "off + length bs \<le> length buf \<Longrightarrow> take (length bs) (drop off (patch buf off bs)) = bs"
  by (simp add: patch_def)

lemma rd_patch_disjoint:
  assumes "off + length bs \<le> length buf" "o2 + n \<le> length buf"
    and "o2 + n \<le> off \<or> off + length bs \<le> o2"
  shows "take n (drop o2 (patch buf off bs)) = take n (drop o2 buf)"
  using assms by (intro nth_equalityI) (auto simp: nth_patch)

section \<open>C strings\<close>

text \<open>
  A \<^verbatim>\<open>char\<close> array is a byte list; \<open>cstr\<close> is the string it holds, the bytes before the first
  NUL.  \<open>strncpy\<close> copies at most \<open>n\<close> bytes and pads with NULs, leaving no terminator when the
  source has \<open>n\<close> bytes or more; \<open>strncmp\<close> compares at most \<open>n\<close> bytes and stops at a NUL.
\<close>

definition cstr :: "bytes \<Rightarrow> bytes" where
  "cstr s = takeWhile (\<lambda>c. c \<noteq> 0) s"

definition strncpy :: "bytes \<Rightarrow> nat \<Rightarrow> bytes" where
  "strncpy src n = take n (cstr src @ replicate n 0)"

definition strncmp_eq :: "bytes \<Rightarrow> bytes \<Rightarrow> nat \<Rightarrow> bool" where
  "strncmp_eq a b n \<longleftrightarrow> take n (cstr a) = take n (cstr b)"

definition str_bytes :: "string \<Rightarrow> bytes" where
  "str_bytes s = map (\<lambda>c. word_of_nat (of_char c)) s"

lemma length_strncpy [simp]: "length (strncpy s n) = n"
  by (simp add: strncpy_def)

lemma cstr_no_nul [simp]: "0 \<notin> set (cstr s)"
  unfolding cstr_def by (auto dest: set_takeWhileD)

lemma cstr_id: "0 \<notin> set s \<Longrightarrow> cstr s = s"
  unfolding cstr_def by (auto simp: takeWhile_eq_all_conv)

lemma cstr_append_nul: "0 \<notin> set s \<Longrightarrow> cstr (s @ 0 # t) = s"
  unfolding cstr_def by (induction s) auto

lemma cstr_strncpy: "cstr (strncpy s n) = take n (cstr s)"
proof (cases "length (cstr s) < n")
  case True
  then obtain k where k: "n - length (cstr s) = Suc k"
    by (metis Suc_diff_Suc)
  from True have "strncpy s n = cstr s @ replicate (n - length (cstr s)) 0"
    by (simp add: strncpy_def min_def)
  then have "strncpy s n = cstr s @ 0 # replicate k 0"
    by (simp add: k)
  with True show ?thesis by (simp add: cstr_append_nul)
next
  case False
  then have "strncpy s n = take n (cstr s)" by (simp add: strncpy_def)
  moreover have "0 \<notin> set (take n (cstr s))"
    using cstr_no_nul by (metis in_set_takeD)
  ultimately show ?thesis by (simp add: cstr_id)
qed

lemma strncmp_eq_refl [simp]: "strncmp_eq a a n"
  by (simp add: strncmp_eq_def)

lemma strncmp_eq_sym: "strncmp_eq a b n \<longleftrightarrow> strncmp_eq b a n"
  by (auto simp: strncmp_eq_def)

lemma strncmp_eq_trans: "strncmp_eq a b n \<Longrightarrow> strncmp_eq b c n \<Longrightarrow> strncmp_eq a c n"
  by (simp add: strncmp_eq_def)

lemma strncmp_eq_strncpy [simp]:
  "strncmp_eq (strncpy a n) b n \<longleftrightarrow> strncmp_eq a b n"
  "strncmp_eq b (strncpy a n) n \<longleftrightarrow> strncmp_eq b a n"
  by (simp_all add: strncmp_eq_def cstr_strncpy)

section \<open>Lists\<close>

lemma find_append: "find P (xs @ ys) = (case find P xs of None \<Rightarrow> find P ys | Some x \<Rightarrow> Some x)"
  by (induction xs) auto

lemma find_first_split:
  "find P xs = Some x \<Longrightarrow> \<exists>ys zs. xs = ys @ x # zs \<and> P x \<and> (\<forall>y\<in>set ys. \<not> P y)"
proof (induction xs)
  case (Cons a xs)
  show ?case
  proof (cases "P a")
    case True
    with Cons.prems show ?thesis by (intro exI [of _ "[]"] exI [of _ xs]) auto
  next
    case False
    with Cons obtain ys zs where "xs = ys @ x # zs" "P x" "\<forall>y\<in>set ys. \<not> P y"
      by auto
    with False show ?thesis by (intro exI [of _ "a # ys"] exI [of _ zs]) auto
  qed
qed simp

lemma find_first_eq:
  assumes "xs = ys @ x # zs" "P x" "\<forall>y\<in>set ys. \<not> P y"
  shows "find P xs = Some x"
proof -
  from assms(3) have "find P ys = None" by (simp add: find_None_iff)
  with assms show ?thesis by (simp add: find_append)
qed

lemma find_first_iff:
  "find P xs = Some x \<longleftrightarrow> (\<exists>ys zs. xs = ys @ x # zs \<and> P x \<and> (\<forall>y\<in>set ys. \<not> P y))"
  by (rule iffI, erule find_first_split) (elim exE conjE, rule find_first_eq)

lemma find_SomeD: "find P xs = Some x \<Longrightarrow> x \<in> set xs \<and> P x"
  by (auto simp: find_Some_iff)

lemma map_of_Some_in_set: "map_of xs k = Some v \<Longrightarrow> (k, v) \<in> set xs"
  by (rule map_of_SomeD)

end
