(* ===== verification/SR_Protocol.thy ===== *)
theory SR_Protocol
  imports SR_Prelude
begin

unbundle bit_operations_syntax

text \<open>
  The packed protocol headers of \<^verbatim>\<open>sr_protocol.h\<close> as records, their layout in a frame as
  codecs, and the overlay of a header on a buffer (the C code casts a pointer into the frame to a
  header pointer).  A field holds the value the little-endian host loads, so a field in network
  byte order is compared and converted exactly as the C code does it.  The locale
  \<open>struct_codec\<close> states what the handlers rely on about an overlay; every header is an instance.
\<close>

section \<open>Header records\<close>

record sr_ethernet_hdr =
  ether_dhost :: bytes
  ether_shost :: bytes
  ether_type :: u16

record sr_arp_hdr =
  ar_hrd :: u16
  ar_pro :: u16
  ar_hln :: u8
  ar_pln :: u8
  ar_op :: u16
  ar_sha :: bytes
  ar_sip :: u32
  ar_tha :: bytes
  ar_tip :: u32

record sr_ip_hdr =
  ip_hl :: "4 word"
  ip_v :: "4 word"
  ip_tos :: u8
  ip_len :: u16
  ip_id :: u16
  ip_off :: u16
  ip_ttl :: u8
  ip_p :: u8
  ip_sum :: u16
  ip_src :: u32
  ip_dst :: u32

record sr_icmp_t08_hdr =
  icmp_type :: u8
  icmp_code :: u8
  icmp_sum :: u16
  icmp_id :: u16
  icmp_seq :: u16

record sr_icmp_t11_hdr =
  icmp11_type :: u8
  icmp11_code :: u8
  icmp11_sum :: u16
  icmp11_unused :: u32
  icmp11_data :: bytes

section \<open>Constants\<close>

definition ETHER_ADDR_LEN :: nat where [layout]: "ETHER_ADDR_LEN = 6"
definition ICMP_DATA_SIZE :: nat where [layout]: "ICMP_DATA_SIZE = 28"
definition sr_IFACE_NAMELEN :: nat where [layout]: "sr_IFACE_NAMELEN = 32"
definition IP_DF :: u16 where "IP_DF = 0x4000"
definition ip_protocol_icmp :: u8 where "ip_protocol_icmp = 1"
definition ethertype_arp :: u16 where "ethertype_arp = 0x0806"
definition ethertype_ip :: u16 where "ethertype_ip = 0x0800"
definition arp_op_request :: u16 where "arp_op_request = 1"
definition arp_op_reply :: u16 where "arp_op_reply = 2"
definition arp_hrd_ethernet :: u16 where "arp_hrd_ethernet = 1"

lemmas protocol_consts = IP_DF_def ip_protocol_icmp_def ethertype_arp_def ethertype_ip_def
  arp_op_request_def arp_op_reply_def arp_hrd_ethernet_def

definition sizeof_eth :: nat where [layout]: "sizeof_eth = 14"
definition sizeof_arp :: nat where [layout]: "sizeof_arp = 28"
definition sizeof_ip :: nat where [layout]: "sizeof_ip = 20"
definition sizeof_t08 :: nat where [layout]: "sizeof_t08 = 8"
definition sizeof_t11 :: nat where [layout]: "sizeof_t11 = 36"

section \<open>Layout\<close>

definition ld16 :: "bytes \<Rightarrow> nat \<Rightarrow> u16" where
  "ld16 bs i = of_le16 (bs ! i) (bs ! (i + 1))"

definition ld32 :: "bytes \<Rightarrow> nat \<Rightarrow> u32" where
  "ld32 bs i = of_le32 (bs ! i) (bs ! (i + 1)) (bs ! (i + 2)) (bs ! (i + 3))"

definition eth_hdr_of :: "bytes \<Rightarrow> sr_ethernet_hdr" where
  "eth_hdr_of bs = \<lparr>ether_dhost = take 6 bs, ether_shost = take 6 (drop 6 bs), ether_type = ld16 bs 12\<rparr>"

definition eth_hdr_bytes :: "sr_ethernet_hdr \<Rightarrow> bytes" where
  "eth_hdr_bytes h = ether_dhost h @ ether_shost h @ le16 (ether_type h)"

definition eth_hdr_wf :: "sr_ethernet_hdr \<Rightarrow> bool" where
  "eth_hdr_wf h \<longleftrightarrow> length (ether_dhost h) = 6 \<and> length (ether_shost h) = 6"

definition arp_hdr_of :: "bytes \<Rightarrow> sr_arp_hdr" where
  "arp_hdr_of bs = \<lparr>ar_hrd = ld16 bs 0, ar_pro = ld16 bs 2, ar_hln = bs ! 4, ar_pln = bs ! 5,
     ar_op = ld16 bs 6, ar_sha = take 6 (drop 8 bs), ar_sip = ld32 bs 14,
     ar_tha = take 6 (drop 18 bs), ar_tip = ld32 bs 24\<rparr>"

definition arp_hdr_bytes :: "sr_arp_hdr \<Rightarrow> bytes" where
  "arp_hdr_bytes h = le16 (ar_hrd h) @ le16 (ar_pro h) @ [ar_hln h, ar_pln h] @ le16 (ar_op h) @
     ar_sha h @ le32 (ar_sip h) @ ar_tha h @ le32 (ar_tip h)"

definition arp_hdr_wf :: "sr_arp_hdr \<Rightarrow> bool" where
  "arp_hdr_wf h \<longleftrightarrow> length (ar_sha h) = 6 \<and> length (ar_tha h) = 6"

text \<open>On a little-endian host the first bit field, \<open>ip_hl\<close>, is the low nibble of the first byte.\<close>

definition ip_hdr_of :: "bytes \<Rightarrow> sr_ip_hdr" where
  "ip_hdr_of bs = \<lparr>ip_hl = ucast (bs ! 0), ip_v = ucast (drop_bit 4 (bs ! 0)), ip_tos = bs ! 1,
     ip_len = ld16 bs 2, ip_id = ld16 bs 4, ip_off = ld16 bs 6, ip_ttl = bs ! 8, ip_p = bs ! 9,
     ip_sum = ld16 bs 10, ip_src = ld32 bs 12, ip_dst = ld32 bs 16\<rparr>"

definition nibbles :: "4 word \<Rightarrow> 4 word \<Rightarrow> u8" where
  "nibbles lo hi = ucast lo OR push_bit 4 (ucast hi)"

definition ip_hdr_bytes :: "sr_ip_hdr \<Rightarrow> bytes" where
  "ip_hdr_bytes h = [nibbles (ip_hl h) (ip_v h), ip_tos h] @ le16 (ip_len h) @ le16 (ip_id h) @
     le16 (ip_off h) @ [ip_ttl h, ip_p h] @ le16 (ip_sum h) @ le32 (ip_src h) @ le32 (ip_dst h)"

definition t08_hdr_of :: "bytes \<Rightarrow> sr_icmp_t08_hdr" where
  "t08_hdr_of bs = \<lparr>icmp_type = bs ! 0, icmp_code = bs ! 1, icmp_sum = ld16 bs 2,
     icmp_id = ld16 bs 4, icmp_seq = ld16 bs 6\<rparr>"

definition t08_hdr_bytes :: "sr_icmp_t08_hdr \<Rightarrow> bytes" where
  "t08_hdr_bytes h = [icmp_type h, icmp_code h] @ le16 (icmp_sum h) @ le16 (icmp_id h) @ le16 (icmp_seq h)"

definition t11_hdr_of :: "bytes \<Rightarrow> sr_icmp_t11_hdr" where
  "t11_hdr_of bs = \<lparr>icmp11_type = bs ! 0, icmp11_code = bs ! 1, icmp11_sum = ld16 bs 2,
     icmp11_unused = ld32 bs 4, icmp11_data = take 28 (drop 8 bs)\<rparr>"

definition t11_hdr_bytes :: "sr_icmp_t11_hdr \<Rightarrow> bytes" where
  "t11_hdr_bytes h = [icmp11_type h, icmp11_code h] @ le16 (icmp11_sum h) @ le32 (icmp11_unused h) @
     icmp11_data h"

definition t11_hdr_wf :: "sr_icmp_t11_hdr \<Rightarrow> bool" where
  "t11_hdr_wf h \<longleftrightarrow> length (icmp11_data h) = 28"

section \<open>Overlays\<close>

definition get_struct :: "nat \<Rightarrow> (bytes \<Rightarrow> 'h) \<Rightarrow> bytes \<Rightarrow> nat \<Rightarrow> fault + 'h" where
  "get_struct sz of_bytes buf off =
     (case rd_bytes buf off sz of Inl f \<Rightarrow> Inl f | Inr bs \<Rightarrow> Inr (of_bytes bs))"

definition put_struct :: "('h \<Rightarrow> bytes) \<Rightarrow> bytes \<Rightarrow> nat \<Rightarrow> 'h \<Rightarrow> fault + bytes" where
  "put_struct to_bytes buf off h = wr_bytes buf off (to_bytes h)"

abbreviation get_eth :: "bytes \<Rightarrow> nat \<Rightarrow> fault + sr_ethernet_hdr" where
  "get_eth \<equiv> get_struct sizeof_eth eth_hdr_of"
abbreviation put_eth :: "bytes \<Rightarrow> nat \<Rightarrow> sr_ethernet_hdr \<Rightarrow> fault + bytes" where
  "put_eth \<equiv> put_struct eth_hdr_bytes"
abbreviation get_arp :: "bytes \<Rightarrow> nat \<Rightarrow> fault + sr_arp_hdr" where
  "get_arp \<equiv> get_struct sizeof_arp arp_hdr_of"
abbreviation put_arp :: "bytes \<Rightarrow> nat \<Rightarrow> sr_arp_hdr \<Rightarrow> fault + bytes" where
  "put_arp \<equiv> put_struct arp_hdr_bytes"
abbreviation get_ip :: "bytes \<Rightarrow> nat \<Rightarrow> fault + sr_ip_hdr" where
  "get_ip \<equiv> get_struct sizeof_ip ip_hdr_of"
abbreviation put_ip :: "bytes \<Rightarrow> nat \<Rightarrow> sr_ip_hdr \<Rightarrow> fault + bytes" where
  "put_ip \<equiv> put_struct ip_hdr_bytes"
abbreviation get_t08 :: "bytes \<Rightarrow> nat \<Rightarrow> fault + sr_icmp_t08_hdr" where
  "get_t08 \<equiv> get_struct sizeof_t08 t08_hdr_of"
abbreviation put_t08 :: "bytes \<Rightarrow> nat \<Rightarrow> sr_icmp_t08_hdr \<Rightarrow> fault + bytes" where
  "put_t08 \<equiv> put_struct t08_hdr_bytes"
abbreviation put_t11 :: "bytes \<Rightarrow> nat \<Rightarrow> sr_icmp_t11_hdr \<Rightarrow> fault + bytes" where
  "put_t11 \<equiv> put_struct t11_hdr_bytes"

text \<open>The contract of an overlay: both round trips and the size of the image.\<close>

locale struct_codec =
  fixes sz :: nat
    and of_bytes :: "bytes \<Rightarrow> 'h"
    and to_bytes :: "'h \<Rightarrow> bytes"
    and wf :: "'h \<Rightarrow> bool"
  assumes length_to_bytes: "wf h \<Longrightarrow> length (to_bytes h) = sz"
    and of_to: "wf h \<Longrightarrow> of_bytes (to_bytes h) = h"
    and to_of: "length bs = sz \<Longrightarrow> to_bytes (of_bytes bs) = bs"
    and wf_of: "length bs = sz \<Longrightarrow> wf (of_bytes bs)"
begin

lemma get_in: "off + sz \<le> length buf \<Longrightarrow>
    get_struct sz of_bytes buf off = Inr (of_bytes (take sz (drop off buf)))"
  by (simp add: get_struct_def)

lemma get_out: "length buf < off + sz \<Longrightarrow> get_struct sz of_bytes buf off = Inl OutOfBounds"
  by (simp add: get_struct_def rd_bytes_def)

lemma get_wf: "get_struct sz of_bytes buf off = Inr h \<Longrightarrow> off + sz \<le> length buf \<and> wf h"
  by (auto simp: get_struct_def rd_bytes_def wf_of split: if_splits)

lemma put_in: "wf h \<Longrightarrow> off + sz \<le> length buf \<Longrightarrow>
    put_struct to_bytes buf off h = Inr (patch buf off (to_bytes h))"
  by (simp add: put_struct_def length_to_bytes)

lemma length_put: "wf h \<Longrightarrow> off + sz \<le> length buf \<Longrightarrow> length (patch buf off (to_bytes h)) = length buf"
  by (simp add: length_to_bytes)

lemma get_put: "wf h \<Longrightarrow> off + sz \<le> length buf \<Longrightarrow>
    get_struct sz of_bytes (patch buf off (to_bytes h)) off = Inr h"
  using rd_patch_same [of off "to_bytes h" buf] by (simp add: get_in length_to_bytes of_to)

lemma put_get: "get_struct sz of_bytes buf off = Inr h \<Longrightarrow> patch buf off (to_bytes h) = buf"
proof -
  assume get: "get_struct sz of_bytes buf off = Inr h"
  then have "to_bytes h = take sz (drop off buf)" "off + sz \<le> length buf"
    by (auto simp: get_struct_def rd_bytes_def to_of split: if_splits)
  moreover have "take off buf @ take sz (drop off buf) @ drop (off + sz) buf = buf"
    by (metis append_take_drop_id drop_drop add.commute)
  ultimately show ?thesis by (simp add: patch_def)
qed

lemma put_put: "wf h \<Longrightarrow> wf h' \<Longrightarrow> off + sz \<le> length buf \<Longrightarrow>
    patch (patch buf off (to_bytes h)) off (to_bytes h') = patch buf off (to_bytes h')"
  by (simp add: patch_def length_to_bytes)

lemma get_disjoint:
  "off + length bs \<le> length buf \<Longrightarrow> o2 + sz \<le> off \<or> off + length bs \<le> o2 \<Longrightarrow>
     get_struct sz of_bytes (patch buf off bs) o2 = get_struct sz of_bytes buf o2"
  by (cases "o2 + sz \<le> length buf") (simp_all add: get_in rd_patch_disjoint get_out)

end

lemma nibbles_hl [simp, codec]: "ucast (nibbles a b) = a" "ucast (drop_bit 4 (nibbles a b)) = b"
  unfolding nibbles_def by (rule bit_eqI, auto simp: bit_simps)+

lemma nibbles_of [simp, codec]: "nibbles (ucast w) (ucast (drop_bit 4 w)) = w"
  unfolding nibbles_def by (rule bit_eqI) (auto simp: bit_simps)

lemma list_eq_nth: "length bs = n \<Longrightarrow> bs = map ((!) bs) [0..<n]"
  by (auto intro: nth_equalityI)

lemma take_drop_nth: "i + n \<le> length bs \<Longrightarrow> take n (drop i bs) = map ((!) bs) [i..<i + n]"
  by (auto intro!: nth_equalityI)

lemma le_ld [codec]:
  "le16 (ld16 bs i) = [bs ! i, bs ! (i + 1)]"
  "le32 (ld32 bs i) = [bs ! i, bs ! (i + 1), bs ! (i + 2), bs ! (i + 3)]"
  by (simp_all add: le16_def ld16_def le32_def ld32_def)

lemmas hdr_of_defs = eth_hdr_of_def arp_hdr_of_def ip_hdr_of_def t08_hdr_of_def t11_hdr_of_def
lemmas hdr_bytes_defs = eth_hdr_bytes_def arp_hdr_bytes_def ip_hdr_bytes_def t08_hdr_bytes_def
  t11_hdr_bytes_def
lemmas hdr_wf_defs = eth_hdr_wf_def arp_hdr_wf_def t11_hdr_wf_def

interpretation eth: struct_codec sizeof_eth eth_hdr_of eth_hdr_bytes eth_hdr_wf
proof
  fix bs :: bytes
  assume "length bs = sizeof_eth"
  then show "eth_hdr_bytes (eth_hdr_of bs) = bs" "eth_hdr_wf (eth_hdr_of bs)"
    by (simp_all add: hdr_of_defs hdr_bytes_defs hdr_wf_defs layout le_ld list_eq_iff_nth_eq
        nth_append less_Suc_eq numeral_eq_Suc)
qed (auto simp: hdr_of_defs hdr_bytes_defs hdr_wf_defs layout ld16_def le16_def nth_append)

interpretation arp: struct_codec sizeof_arp arp_hdr_of arp_hdr_bytes arp_hdr_wf
proof
  fix bs :: bytes
  assume "length bs = sizeof_arp"
  then show "arp_hdr_bytes (arp_hdr_of bs) = bs" "arp_hdr_wf (arp_hdr_of bs)"
    by (simp_all add: hdr_of_defs hdr_bytes_defs hdr_wf_defs layout le_ld list_eq_iff_nth_eq
        nth_append less_Suc_eq numeral_eq_Suc)
qed (auto simp: hdr_of_defs hdr_bytes_defs hdr_wf_defs layout ld16_def le16_def ld32_def le32_def nth_append)

interpretation iph: struct_codec sizeof_ip ip_hdr_of ip_hdr_bytes "\<lambda>_. True"
proof
  fix bs :: bytes
  assume "length bs = sizeof_ip"
  then show "ip_hdr_bytes (ip_hdr_of bs) = bs"
    by (simp add: hdr_of_defs hdr_bytes_defs layout le_ld)
      (simp add: list_eq_iff_nth_eq nth_append less_Suc_eq numeral_eq_Suc)
qed (auto simp: hdr_of_defs hdr_bytes_defs layout ld16_def le16_def ld32_def le32_def nth_append)

interpretation t08: struct_codec sizeof_t08 t08_hdr_of t08_hdr_bytes "\<lambda>_. True"
proof
  fix bs :: bytes
  assume "length bs = sizeof_t08"
  then show "t08_hdr_bytes (t08_hdr_of bs) = bs"
    by (simp add: hdr_of_defs hdr_bytes_defs layout le_ld list_eq_iff_nth_eq
        nth_append less_Suc_eq numeral_eq_Suc)
qed (auto simp: hdr_of_defs hdr_bytes_defs layout ld16_def le16_def ld32_def le32_def nth_append)

interpretation t11: struct_codec sizeof_t11 t11_hdr_of t11_hdr_bytes t11_hdr_wf
proof
  fix bs :: bytes
  assume "length bs = sizeof_t11"
  then show "t11_hdr_bytes (t11_hdr_of bs) = bs" "t11_hdr_wf (t11_hdr_of bs)"
    by (simp_all add: hdr_of_defs hdr_bytes_defs hdr_wf_defs layout le_ld list_eq_iff_nth_eq
        nth_append less_Suc_eq numeral_eq_Suc)
qed (auto simp: hdr_of_defs hdr_bytes_defs hdr_wf_defs layout ld16_def le16_def ld32_def le32_def nth_append)

end
