(* ===== verification/SR_Utils.thy ===== *)
theory SR_Utils
  imports SR_Protocol
begin

unbundle bit_operations_syntax

text \<open>
  \<^verbatim>\<open>sr_utils.c\<close>: the Internet checksum and the accessors of the Ethernet type and of the IP
  protocol.  The checksum is compared with its reference, the sum of the big-endian 16-bit words
  of the region modulo \<open>65535\<close>; from it follow the receiver's acceptance of what the router
  emits and the insensitivity to zero padding.
\<close>

section \<open>The checksum loop\<close>

text \<open>
  The word sum of \<^verbatim>\<open>cksum\<close>, a 32-bit accumulator over pairs of bytes; a trailing odd byte is
  the high half of a last word.
\<close>

fun cksum_loop :: "u32 \<Rightarrow> bytes \<Rightarrow> u32" where
  "cksum_loop acc (a # b # data) = cksum_loop (acc + (push_bit 8 (ucast a) OR ucast b)) data"
| "cksum_loop acc [a] = acc + push_bit 8 (ucast a)"
| "cksum_loop acc [] = acc"

lemma fold_step_decreases:
  fixes s :: u32
  assumes "s > 0xffff"
  shows "unat (drop_bit 16 s + (s AND 0xffff)) = unat s div 65536 + unat s mod 65536"
    and "unat s div 65536 + unat s mod 65536 < unat s"
proof -
  have hi: "unat (drop_bit 16 s) = unat s div 65536"
    by (simp add: drop_bit_eq_div unat_div)
  have "s AND 0xffff = take_bit 16 s"
    by (simp add: take_bit_eq_mask mask_eq_decr_exp)
  then have lo: "unat (s AND 0xffff) = unat s mod 65536"
    by (simp add: unat_mod take_bit_eq_mod)
  have "unat s div 65536 + unat s mod 65536 < 4294967296"
    using unat_u32_less [of s] by arith
  then show "unat (drop_bit 16 s + (s AND 0xffff)) = unat s div 65536 + unat s mod 65536"
    using hi lo by (simp add: unat_word_ariths)
  have "65535 < unat s"
    using assms by (simp add: word_less_nat_alt)
  moreover define d m where "d = unat s div 65536" and "m = unat s mod 65536"
  moreover have "unat s = 65536 * d + m" by (simp add: d_def m_def)
  moreover have "m < 65536" by (simp add: m_def)
  ultimately show "unat s div 65536 + unat s mod 65536 < unat s" by linarith
qed

text \<open>The folding loop \<^verbatim>\<open>while (sum > 0xffff)\<close> terminates: each round makes the sum smaller.\<close>

function cksum_fold :: "u32 \<Rightarrow> u32" where
  "cksum_fold acc =
     (if acc > 0xffff then cksum_fold (drop_bit 16 acc + (acc AND 0xffff)) else acc)"
  by pat_completeness auto
termination
  by (relation "measure unat") (simp_all add: fold_step_decreases)

declare cksum_fold.simps [simp del]

definition cksum :: "bytes \<Rightarrow> u16" where
  "cksum data =
     (let acc = cksum_fold (cksum_loop 0 data);
          acc = htons (ucast (NOT acc))
      in if acc \<noteq> 0 then acc else 0xffff)"

definition ethertype :: "bytes \<Rightarrow> fault + u16" where
  "ethertype buf = (case get_eth buf 0 of Inl f \<Rightarrow> Inl f | Inr ehdr \<Rightarrow> Inr (ntohs (ether_type ehdr)))"

definition ip_protocol :: "bytes \<Rightarrow> fault + u8" where
  "ip_protocol buf = (case get_ip buf 0 of Inl f \<Rightarrow> Inl f | Inr iphdr \<Rightarrow> Inr (ip_p iphdr))"

section \<open>Reference: the sum of the 16-bit words\<close>

fun be16_sum :: "bytes \<Rightarrow> nat" where
  "be16_sum (a # b # data) = 256 * unat a + unat b + be16_sum data"
| "be16_sum [a] = 256 * unat a"
| "be16_sum [] = 0"

lemma be16_sum_bound: "be16_sum data \<le> 65535 * ((length data + 1) div 2)"
proof (induction data rule: be16_sum.induct)
  case (1 a b data)
  then show ?case using unat_u8_less [of a] unat_u8_less [of b] by simp
next
  case (2 a)
  then show ?case using unat_u8_less [of a] by simp
qed simp

lemma unat_be16_pair:
  "unat (push_bit 8 (ucast a) OR ucast b :: u32) = 256 * unat a + unat (b :: u8)" for a :: u8
proof -
  have "push_bit 8 (ucast a) OR ucast b = push_bit 8 (ucast a) + (ucast b :: u32)"
    by (rule disjunctive_add [symmetric]) (auto simp: bit_simps)
  then show ?thesis using unat_u8_less [of a] unat_u8_less [of b]
    by (simp add: unat_word_ariths push_bit_eq_mult unsigned_ucast_eq take_bit_eq_mod)
qed

lemma unat_be16_last: "unat (push_bit 8 (ucast a) :: u32) = 256 * unat (a :: u8)"
  using unat_u8_less [of a]
  by (simp add: unat_word_ariths push_bit_eq_mult unsigned_ucast_eq take_bit_eq_mod)

lemma cksum_loop_sum:
  "unat acc + be16_sum data < 4294967296 \<Longrightarrow> unat (cksum_loop acc data) = unat acc + be16_sum data"
proof (induction acc data rule: cksum_loop.induct)
  case (1 acc a b data)
  have "unat (acc + (push_bit 8 (ucast a) OR ucast b)) = unat acc + (256 * unat a + unat b)"
    using "1.prems" by (simp add: unat_word_ariths unat_be16_pair)
  with 1 show ?case by simp
next
  case (2 acc a)
  then show ?case by (simp add: unat_word_ariths unat_be16_last)
qed simp

lemma mod_65535_fold:
  fixes s :: nat
  assumes "0 < s"
  shows "(s div 65536 + s mod 65536 - 1) mod 65535 = (s - 1) mod 65535" "0 < s div 65536 + s mod 65536"
proof -
  define d m where "d = s div 65536" and "m = s mod 65536"
  have s: "s = 65536 * d + m" by (simp add: d_def m_def)
  with assms have pos: "0 < d + m" by linarith
  then show "0 < s div 65536 + s mod 65536" by (simp add: d_def m_def)
  have "s - 1 = (d + m - 1) + 65535 * d" using s pos by linarith
  then have "(s - 1) mod 65535 = (d + m - 1) mod 65535" by (metis mod_mult_self2)
  then show "(s div 65536 + s mod 65536 - 1) mod 65535 = (s - 1) mod 65535"
    by (simp add: d_def m_def)
qed

lemma unat_cksum_fold:
  "unat (cksum_fold s) = (if unat s = 0 then 0 else (unat s - 1) mod 65535 + 1)"
proof (induction s rule: cksum_fold.induct)
  case (1 s)
  show ?case
  proof (cases "s > 0xffff")
    case True
    then have "0 < unat s" by (simp add: word_less_nat_alt)
    then show ?thesis
      using True "1.IH" fold_step_decreases [of s] mod_65535_fold [of "unat s"]
      by (simp add: cksum_fold.simps [of s])
  next
    case False
    then have "unat s \<le> 65535" by (simp add: word_less_nat_alt not_less)
    moreover have "cksum_fold s = s" using False by (simp add: cksum_fold.simps [of s])
    ultimately show ?thesis by (cases "unat s = 0") auto
  qed
qed

lemma unat_not_u16: "unat (NOT x) = 65535 - unat (x :: u16)"
proof -
  have "NOT x = - 1 - x" by (simp add: not_eq_complement)
  moreover have "unat (- 1 - x) = unat (- 1 :: u16) - unat x"
    by (rule unat_sub) simp
  ultimately show ?thesis by (simp add: unsigned_minus_1_eq_mask mask_eq_exp_minus_1)
qed

lemma ucast_not_u16: "ucast (NOT s) = NOT (ucast (s :: u32) :: u16)"
  by (rule bit_eqI) (auto simp: bit_simps)

lemma htons_ffff: "htons 0xffff = 0xffff"
  by (simp add: htons_def of_le16_def)

lemma cksum_value:
  assumes "length data \<le> 131072"
  shows "unat (ntohs (cksum data)) = 65535 - be16_sum data mod 65535"
proof -
  let ?S = "be16_sum data"
  have "?S < 4294967296" using be16_sum_bound [of data] assms by linarith
  then have loop: "unat (cksum_loop 0 data) = ?S" using cksum_loop_sum [of 0 data] by simp
  define m where "m = cksum_fold (cksum_loop 0 data)"
  have m: "unat m = (if ?S = 0 then 0 else (?S - 1) mod 65535 + 1)"
    using loop by (simp add: m_def unat_cksum_fold)
  then have "unat m < 65536" by (simp split: if_splits) 
  then have "unat (ucast m :: u16) = unat m"
    by (simp add: unsigned_ucast_eq take_bit_eq_mod)
  then have "unat (ucast (NOT m) :: u16) = 65535 - unat m"
    by (simp add: ucast_not_u16 unat_not_u16)
  moreover have "unat (ntohs (cksum data)) =
      (if ucast (NOT m) = (0 :: u16) then 65535 else unat (ucast (NOT m) :: u16))"
    by (simp add: cksum_def m_def Let_def htons_ffff)
  ultimately have "unat (ntohs (cksum data)) = (if unat m = 65535 then 65535 else 65535 - unat m)"
    using m by (auto simp: unat_eq_0 split: if_splits)
  moreover have "?S mod 65535 = (if unat m = 65535 then 0 else unat m)"
    using m by (cases "be16_sum data") (auto simp: mod_Suc split: if_splits)
  ultimately show ?thesis by simp
qed

section \<open>Consequences for senders and receivers\<close>

lemma be16_sum_append: "even (length xs) \<Longrightarrow> be16_sum (xs @ ys) = be16_sum xs + be16_sum ys"
  by (induction xs rule: be16_sum.induct) auto

lemma be16_sum_zeros [simp]: "be16_sum (replicate n 0) = 0"
  by (induction n rule: induct_nat_012) auto

lemma be16_sum_pad: "be16_sum (data @ replicate n 0) = be16_sum data"
proof (induction data rule: be16_sum.induct)
  case (2 a)
  then show ?case by (cases n) auto
qed auto

lemma be16_sum_le16: "be16_sum (le16 w) = unat (ntohs w)"
  by (simp add: le16_def htons_def unat_of_le16)

lemma be16_sum_patch:
  assumes "even off" "even (length bs)" "off + length bs \<le> length data"
  shows "be16_sum (patch data off bs) + be16_sum (take (length bs) (drop off data)) =
    be16_sum data + be16_sum bs"
proof -
  have len: "length (take off data) = off" "length (take (length bs) (drop off data)) = length bs"
    using assms by simp_all
  have "data = take off data @ take (length bs) (drop off data) @ drop (off + length bs) data"
    by (metis append_take_drop_id drop_drop add.commute)
  then have "be16_sum data = be16_sum (take off data) + (be16_sum (take (length bs) (drop off data)) +
      be16_sum (drop (off + length bs) data))"
    using assms(1,2) len by (metis be16_sum_append)
  moreover have "be16_sum (patch data off bs) = be16_sum (take off data) + (be16_sum bs +
      be16_sum (drop (off + length bs) data))"
    using assms(1,2) len by (simp add: patch_def be16_sum_append)
  ultimately show ?thesis by simp
qed

text \<open>
  C30.  The checksum routine, with its 32-bit accumulator, folding loop and final byte swap,
  computes the Internet checksum of the region: read in network order it is \<open>65535\<close> minus the sum
  of the big-endian 16-bit words modulo \<open>65535\<close>, for every region of at most 128 KiB (the longest
  for which the accumulator cannot overflow).
\<close>

theorem cksum_is_internet_checksum:
  assumes "length data \<le> 131072"
  shows "unat (ntohs (cksum data)) = 65535 - be16_sum data mod 65535"
  using assms by (rule cksum_value)

theorem cksum_is_internet_checksum_witness:
  "unat (ntohs (cksum [0x45, 0x00, 0x00])) = 65535 - be16_sum [0x45, 0x00, 0x00] mod 65535 \<and>
   cksum [0x45, 0x00, 0x00] = 0xffba"
proof
  show "unat (ntohs (cksum [0x45, 0x00, 0x00])) = 65535 - be16_sum [0x45, 0x00, 0x00] mod 65535"
    by (rule cksum_is_internet_checksum) simp
  show "cksum [0x45, 0x00, 0x00] = 0xffba"
    by code_simp
qed

lemma cksum_not_zero: "cksum data \<noteq> 0"
  by (simp add: cksum_def Let_def)

lemma add_complement_mod: "0 < n \<Longrightarrow> (s + (n - s mod n)) mod n = 0" for s n :: nat
proof -
  assume "0 < n"
  then have "s mod n < n" by simp
  moreover have "s = s div n * n + s mod n" by simp
  ultimately have "s + (n - s mod n) = s div n * n + n" by linarith
  then show ?thesis by simp
qed

lemma cksum_insert_valid:
  assumes "length data \<le> 131072" "even off" "off + 2 \<le> length data" "take 2 (drop off data) = [0, 0]"
  shows "be16_sum (patch data off (le16 (cksum data))) mod 65535 = 0"
proof -
  have "be16_sum (patch data off (le16 (cksum data))) = be16_sum data + unat (ntohs (cksum data))"
    using be16_sum_patch [of off "le16 (cksum data)" data] assms(2-4) by (simp add: be16_sum_le16)
  also have "\<dots> = be16_sum data + (65535 - be16_sum data mod 65535)"
    using assms(1) by (simp add: cksum_value)
  also have "\<dots> mod 65535 = 0"
    by (rule add_complement_mod) simp
  finally show ?thesis .
qed

text \<open>
  Storing the computed checksum into a zeroed checksum field at an even offset makes the sum
  of all 16-bit words of the region a multiple of \<open>65535\<close>, which is the validity test of a
  standard receiver.
\<close>

lemma cksum_makes_region_valid:
  assumes "length data \<le> 131072" "even off" "off + 2 \<le> length data" "take 2 (drop off data) = [0, 0]"
  shows "be16_sum (patch data off (le16 (cksum data))) mod 65535 = 0"
  using assms by (rule cksum_insert_valid)

lemma cksum_makes_region_valid_witness:
  "be16_sum (patch [0x08, 0x00, 0x00, 0x00, 0x12] 2 (le16 (cksum [0x08, 0x00, 0x00, 0x00, 0x12])))
     mod 65535 = 0"
  using cksum_makes_region_valid [of "[0x08, 0x00, 0x00, 0x00, 0x12]" 2] by simp

text \<open>
  Trailing zero bytes do not change the checksum of a region, of even or odd length.  The
  ICMP handler checksums everything up to the end of the frame; Ethernet padding by zeros is
  therefore harmless.
\<close>

lemma cksum_zero_padding:
  assumes "length data + n \<le> 131072"
  shows "cksum (data @ replicate n 0) = cksum data"
proof -
  have "unat (ntohs (cksum (data @ replicate n 0))) = unat (ntohs (cksum data))"
    using assms by (simp add: cksum_value be16_sum_pad)
  then show ?thesis by (metis htons_eq_iff word_unat_eq_iff)
qed

end
