(* ===== verification/SR_State.thy ===== *)
theory SR_State
  imports SR_Utils
begin

text \<open>
  The structures of the router (\<^verbatim>\<open>sr_if.h\<close>, \<^verbatim>\<open>sr_rt.h\<close>, \<^verbatim>\<open>sr_arpcache.h\<close>, \<^verbatim>\<open>sr_router.h\<close>) and
  the operating-system services it calls.  A linked list is a HOL list in link order.  A pending
  ARP request has an identity that outlives its removal from the queue, because the code keeps
  pointers to it across calls that may free it: the queue maps addresses to requests, \<open>calloc\<close>
  takes a fresh address, and an address that is no longer in the queue is a dangling pointer.
  A queued packet keeps its length in its buffer.
\<close>

section \<open>Structures\<close>

record sr_if =
  if_name :: bytes
  if_addr :: bytes
  if_ip :: u32
  if_speed :: u32

record sr_rt =
  rt_dest :: u32
  rt_gw :: u32
  rt_mask :: u32
  rt_interface :: bytes

record sr_packet =
  pkt_buf :: bytes
  pkt_iface :: bytes

record sr_arpentry =
  entry_mac :: bytes
  entry_ip :: u32
  entry_added :: int
  entry_valid :: bool

record sr_arpreq =
  req_ip :: u32
  req_sent :: int
  req_times_sent :: u32
  req_packets :: "sr_packet list"

type_synonym addr = nat

record sr_arpcache =
  entries :: "sr_arpentry list"
  requests :: "(addr \<times> sr_arpreq) list"
  next_addr :: addr

text \<open>
  The router instance.  \<open>logfile\<close> is the content written to the packet log, if one is open;
  \<open>sock_out\<close> is the sequence of buffers the process has passed to \<^verbatim>\<open>write\<close> and \<^verbatim>\<open>send\<close> on the
  server socket.
\<close>

record sr_instance =
  user :: bytes
  host :: bytes
  template :: bytes
  topo_id :: u16
  if_list :: "sr_if list"
  routing_table :: "sr_rt list"
  cache :: sr_arpcache
  logfile :: "bytes option"
  sock_out :: "bytes list"

section \<open>The environment of one event\<close>

text \<open>
  What the operating system answers while one event (a received message, one tick of the sweeper)
  is handled: the clock reading of \<^verbatim>\<open>time(NULL)\<close> (an event is handled within one second of the
  clock), whether an allocation of a given size succeeds, the number of bytes \<^verbatim>\<open>write\<close> accepts, and
  the result of \<^verbatim>\<open>gettimeofday\<close> as seconds and microseconds.
\<close>

record sr_env =
  env_time :: int
  env_malloc :: "nat \<Rightarrow> bool"
  env_write :: "bytes \<Rightarrow> int"
  env_tod :: "u32 \<times> u32"

text \<open>Sizes of the allocated structures on an LP64 Linux host.\<close>

definition sizeof_arpreq :: nat where [layout]: "sizeof_arpreq = 40"
definition sizeof_packet :: nat where [layout]: "sizeof_packet = 32"
definition sizeof_c_base :: nat where [layout]: "sizeof_c_base = 8"
definition sizeof_c_packet_header :: nat where [layout]: "sizeof_c_packet_header = 24"

definition SR_ARPCACHE_SZ :: nat where "SR_ARPCACHE_SZ = 100"
definition SR_ARPCACHE_TO :: int where "SR_ARPCACHE_TO = 15"
definition INIT_TTL :: u8 where "INIT_TTL = 255"
definition PACKET_DUMP_SIZE :: int where "PACKET_DUMP_SIZE = 1024"
definition VNSPACKET :: u32 where "VNSPACKET = 4"

text \<open>The configuration part of the state, which no packet handler changes.\<close>

definition same_config :: "sr_instance \<Rightarrow> sr_instance \<Rightarrow> bool" where
  "same_config s t \<longleftrightarrow> if_list t = if_list s \<and> routing_table t = routing_table s \<and>
     user t = user s \<and> host t = host s \<and> template t = template s \<and> topo_id t = topo_id s"

lemma same_config_refl [simp]: "same_config s s"
  by (simp add: same_config_def)

lemma same_config_trans [trans]: "same_config s t \<Longrightarrow> same_config t u \<Longrightarrow> same_config s u"
  by (simp add: same_config_def)

lemma same_configD:
  "same_config s t \<Longrightarrow> if_list t = if_list s" "same_config s t \<Longrightarrow> routing_table t = routing_table s"
  by (simp_all add: same_config_def)

end
