(* ===== verification/SR_If.thy ===== *)
theory SR_If
  imports SR_State
begin

text \<open>
  \<^verbatim>\<open>sr_if.c\<close>: the interface list, and the two walks over it by name and by address that the
  router uses.  Fields that \<^verbatim>\<open>malloc\<close> leaves uninitialised (address, IP, speed) are the argument
  \<open>raw\<close> of \<open>sr_add_interface\<close>.
\<close>

section \<open>Operations\<close>

text \<open>\<^verbatim>\<open>sr_get_interface\<close>: the first interface whose name agrees in at most 32 bytes.\<close>

fun get_interface_walk :: "sr_if list \<Rightarrow> bytes \<Rightarrow> sr_if option" where
  "get_interface_walk [] name = None"
| "get_interface_walk (i # rest) name =
     (if strncmp_eq (if_name i) name sr_IFACE_NAMELEN then Some i else get_interface_walk rest name)"

definition sr_get_interface :: "sr_instance \<Rightarrow> bytes \<Rightarrow> sr_if option" where
  "sr_get_interface sr name = get_interface_walk (if_list sr) name"

text \<open>\<^verbatim>\<open>find_iface_for_ip\<close> of \<^verbatim>\<open>sr_router.c\<close>: the first interface with the address.\<close>

fun iface_for_ip_walk :: "sr_if list \<Rightarrow> u32 \<Rightarrow> sr_if option" where
  "iface_for_ip_walk [] ip_nbo = None"
| "iface_for_ip_walk (i # rest) ip_nbo =
     (if if_ip i = ip_nbo then Some i else iface_for_ip_walk rest ip_nbo)"

definition find_iface_for_ip :: "sr_instance \<Rightarrow> u32 \<Rightarrow> sr_if option" where
  "find_iface_for_ip sr ip_nbo = iface_for_ip_walk (if_list sr) ip_nbo"

fun append_interface :: "sr_if list \<Rightarrow> sr_if \<Rightarrow> sr_if list" where
  "append_interface [] new = [new]"
| "append_interface (i # rest) new = i # append_interface rest new"

definition sizeof_sr_if :: nat where [layout]: "sizeof_sr_if = 56"

definition sr_add_interface :: "sr_env \<Rightarrow> sr_if \<Rightarrow> sr_instance \<Rightarrow> bytes \<Rightarrow> fault + sr_instance" where
  "sr_add_interface env raw sr name =
     (if \<not> env_malloc env sizeof_sr_if then Inl AssertFailed
      else Inr (sr\<lparr>if_list := append_interface (if_list sr)
             (raw\<lparr>if_name := strncpy name sr_IFACE_NAMELEN\<rparr>)\<rparr>))"

text \<open>The setters walk to the last interface; an empty list fails the assertion.\<close>

fun update_last :: "('a \<Rightarrow> 'a) \<Rightarrow> 'a list \<Rightarrow> 'a list" where
  "update_last f [] = []"
| "update_last f [x] = [f x]"
| "update_last f (x # y # xs) = x # update_last f (y # xs)"

definition sr_set_ether_addr :: "sr_instance \<Rightarrow> bytes \<Rightarrow> fault + sr_instance" where
  "sr_set_ether_addr sr addr =
     (if if_list sr = [] then Inl AssertFailed
      else case rd_bytes addr 0 6 of Inl f \<Rightarrow> Inl f | Inr mac \<Rightarrow>
        Inr (sr\<lparr>if_list := update_last (\<lambda>i. i\<lparr>if_addr := mac\<rparr>) (if_list sr)\<rparr>))"

definition sr_set_ether_ip :: "sr_instance \<Rightarrow> u32 \<Rightarrow> fault + sr_instance" where
  "sr_set_ether_ip sr ip_nbo =
     (if if_list sr = [] then Inl AssertFailed
      else Inr (sr\<lparr>if_list := update_last (\<lambda>i. i\<lparr>if_ip := ip_nbo\<rparr>) (if_list sr)\<rparr>))"

section \<open>Lemmas\<close>

lemma get_interface_walk_find:
  "get_interface_walk is name = find (\<lambda>i. strncmp_eq (if_name i) name sr_IFACE_NAMELEN) is"
  by (induction "is") auto

lemma iface_for_ip_walk_find: "iface_for_ip_walk is ip = find (\<lambda>i. if_ip i = ip) is"
  by (induction "is") auto

lemma append_interface_eq: "append_interface is new = is @ [new]"
  by (induction "is") auto

lemma update_last_snoc [simp]: "update_last f (xs @ [x]) = xs @ [f x]"
proof (induction xs)
  case (Cons a xs)
  then show ?case by (cases xs) auto
qed simp

lemma update_last_eq: "xs \<noteq> [] \<Longrightarrow> update_last f xs = butlast xs @ [f (last xs)]"
  by (metis append_butlast_last_id update_last_snoc)

lemma sr_get_interface_Some:
  "sr_get_interface sr name = Some i \<Longrightarrow>
     i \<in> set (if_list sr) \<and> strncmp_eq (if_name i) name sr_IFACE_NAMELEN"
  unfolding sr_get_interface_def get_interface_walk_find
  by (auto dest: find_first_split)

lemma sr_get_interface_cong: "if_list t = if_list s \<Longrightarrow> sr_get_interface t = sr_get_interface s"
  by (simp add: sr_get_interface_def fun_eq_iff)

lemma sr_get_interface_name_cong:
  "strncmp_eq a b sr_IFACE_NAMELEN \<Longrightarrow> sr_get_interface sr a = sr_get_interface sr b"
  unfolding sr_get_interface_def get_interface_walk_find
  by (rule arg_cong [where f = "\<lambda>P. find P _"]) (auto simp: fun_eq_iff strncmp_eq_def)

lemma sr_get_interface_own_name:
  "sr_get_interface sr name = Some i \<Longrightarrow> sr_get_interface sr (if_name i) = Some i"
  using sr_get_interface_name_cong [of "if_name i" name sr] sr_get_interface_Some [of sr name i] by simp

text \<open>
  \<^verbatim>\<open>sr_get_interface\<close> returns an interface exactly when one of the list has the name (as
  \<^verbatim>\<open>strncmp\<close> over 32 bytes sees it), and then the first such one.
\<close>

lemma sr_get_interface_first:
  "sr_get_interface sr name = Some i \<longleftrightarrow>
     (\<exists>before after. if_list sr = before @ i # after \<and> strncmp_eq (if_name i) name 32 \<and>
        list_all (\<lambda>j. \<not> strncmp_eq (if_name j) name 32) before)"
  by (simp add: sr_get_interface_def get_interface_walk_find find_first_iff layout list_all_iff)

text \<open>
  The hardware message adds an interface and then sets its address and IP: an interface
  added to a list with no interface of that name is found under its name (up to the 32 bytes
  kept of it) with the address and IP set last, and every other name is looked up as before.
\<close>

lemma add_interface_then_set:
  assumes "sr_add_interface env raw sr name = Inr sr1"
    and "sr_set_ether_addr sr1 mac = Inr sr2" and "sr_set_ether_ip sr2 ip = Inr sr3"
    and "sr_get_interface sr name = None"
  shows "sr_get_interface sr3 name =
      Some (raw\<lparr>if_name := strncpy name 32, if_addr := take 6 mac, if_ip := ip\<rparr>) \<and>
    (\<forall>other. \<not> strncmp_eq name other 32 \<longrightarrow> sr_get_interface sr3 other = sr_get_interface sr other)"
proof -
  have "if_list sr3 = if_list sr @ [raw\<lparr>if_name := strncpy name 32, if_addr := take 6 mac, if_ip := ip\<rparr>]"
    using assms(1-3)
    by (auto simp: sr_add_interface_def sr_set_ether_addr_def sr_set_ether_ip_def append_interface_eq
        rd_bytes_def layout split: if_splits)
  then show ?thesis
    using assms(4)
    by (auto simp: sr_get_interface_def get_interface_walk_find find_append layout split: option.splits)
qed

text \<open>A small instance used by the examples: an environment where every service succeeds.\<close>

definition good_env :: "int \<Rightarrow> sr_env" where
  "good_env now = \<lparr>env_time = now, env_malloc = (\<lambda>_. True), env_write = (\<lambda>m. int (length m)), env_tod = (0, 0)\<rparr>"

definition empty_instance :: sr_instance where
  "empty_instance = \<lparr>user = [], host = [], template = [], topo_id = 0, if_list = [], routing_table = [],
     cache = \<lparr>entries = [], requests = [], next_addr = 0\<rparr>, logfile = None, sock_out = []\<rparr>"

definition raw_if :: sr_if where
  "raw_if = \<lparr>if_name = [], if_addr = [], if_ip = 0, if_speed = 0\<rparr>"

lemma add_interface_example:
  "\<exists>sr1 sr2 sr3.
     sr_add_interface (good_env 0) raw_if empty_instance (str_bytes ''eth1'') = Inr sr1 \<and>
     sr_set_ether_addr sr1 [1, 2, 3, 4, 5, 6] = Inr sr2 \<and> sr_set_ether_ip sr2 0x0102a8c0 = Inr sr3 \<and>
     sr_get_interface sr3 (str_bytes ''eth1'') =
       Some (raw_if\<lparr>if_name := strncpy (str_bytes ''eth1'') 32, if_addr := [1, 2, 3, 4, 5, 6],
              if_ip := 0x0102a8c0\<rparr>)"
proof -
  let ?i = "raw_if\<lparr>if_name := strncpy (str_bytes ''eth1'') 32\<rparr>"
  let ?s1 = "empty_instance\<lparr>if_list := [?i]\<rparr>"
  let ?s2 = "empty_instance\<lparr>if_list := [?i\<lparr>if_addr := [1, 2, 3, 4, 5, 6]\<rparr>]\<rparr>"
  let ?s3 = "empty_instance\<lparr>if_list := [?i\<lparr>if_addr := [1, 2, 3, 4, 5, 6], if_ip := 0x0102a8c0\<rparr>]\<rparr>"
  have 1: "sr_add_interface (good_env 0) raw_if empty_instance (str_bytes ''eth1'') = Inr ?s1"
    by (simp add: sr_add_interface_def good_env_def empty_instance_def layout)
  have 2: "sr_set_ether_addr ?s1 [1, 2, 3, 4, 5, 6] = Inr ?s2"
    by (simp add: sr_set_ether_addr_def)
  have 3: "sr_set_ether_ip ?s2 0x0102a8c0 = Inr ?s3"
    by (simp add: sr_set_ether_ip_def)
  have 4: "sr_get_interface empty_instance (str_bytes ''eth1'') = None"
    by (simp add: sr_get_interface_def empty_instance_def)
  from 1 2 3 add_interface_then_set [OF 1 2 3 4] show ?thesis by auto
qed

end
