(* ===== verification/SR_Rt.thy ===== *)
theory SR_Rt
  imports SR_If
begin

text \<open>
  The routing table: \<^verbatim>\<open>sr_add_rt_entry\<close> of \<^verbatim>\<open>sr_rt.c\<close>, the exact-match lookup
  \<^verbatim>\<open>rt_exact_match\<close> of \<^verbatim>\<open>sr_router.c\<close>, and the consistency check
  \<^verbatim>\<open>sr_verify_routing_table\<close> of \<^verbatim>\<open>sr_main.c\<close>.
\<close>

section \<open>Operations\<close>

definition sizeof_sr_rt :: nat where [layout]: "sizeof_sr_rt = 56"

fun append_rt :: "sr_rt list \<Rightarrow> sr_rt \<Rightarrow> sr_rt list" where
  "append_rt [] new = [new]"
| "append_rt (r # rest) new = r # append_rt rest new"

definition sr_add_rt_entry ::
    "sr_env \<Rightarrow> sr_instance \<Rightarrow> u32 \<Rightarrow> u32 \<Rightarrow> u32 \<Rightarrow> bytes \<Rightarrow> fault + sr_instance" where
  "sr_add_rt_entry env sr dest gw msk ifn =
     (if \<not> env_malloc env sizeof_sr_rt then Inl AssertFailed
      else Inr (sr\<lparr>routing_table := append_rt (routing_table sr)
             \<lparr>rt_dest = dest, rt_gw = gw, rt_mask = msk, rt_interface = strncpy ifn sr_IFACE_NAMELEN\<rparr>\<rparr>))"

fun exact_match_walk :: "sr_rt list \<Rightarrow> u32 \<Rightarrow> sr_rt option" where
  "exact_match_walk [] ip_nbo = None"
| "exact_match_walk (rt # rest) ip_nbo =
     (if rt_dest rt = ip_nbo then Some rt else exact_match_walk rest ip_nbo)"

definition rt_exact_match :: "sr_instance \<Rightarrow> u32 \<Rightarrow> sr_rt option" where
  "rt_exact_match sr ip_nbo = exact_match_walk (routing_table sr) ip_nbo"

text \<open>
  The check walks the table and, for each route, the interface list; it counts the routes whose
  interface does not exist.
\<close>

fun verify_walk :: "sr_if list \<Rightarrow> sr_rt list \<Rightarrow> int \<Rightarrow> int" where
  "verify_walk ifs [] ret = ret"
| "verify_walk ifs (rt # rest) ret =
     verify_walk ifs rest
       (case get_interface_walk ifs (rt_interface rt) of None \<Rightarrow> ret + 1 | Some _ \<Rightarrow> ret)"

definition sr_verify_routing_table :: "sr_instance \<Rightarrow> int" where
  "sr_verify_routing_table sr =
     (if if_list sr = [] \<or> routing_table sr = [] then 999
      else verify_walk (if_list sr) (routing_table sr) 0)"

section \<open>Lemmas\<close>

lemma append_rt_eq: "append_rt rs new = rs @ [new]"
  by (induction rs) auto

lemma exact_match_walk_find: "exact_match_walk rs ip = find (\<lambda>r. rt_dest r = ip) rs"
  by (induction rs) auto

lemma rt_exact_match_cong: "routing_table t = routing_table s \<Longrightarrow> rt_exact_match t = rt_exact_match s"
  by (simp add: rt_exact_match_def fun_eq_iff)

lemma rt_exact_match_Some:
  "rt_exact_match sr ip = Some r \<Longrightarrow> r \<in> set (routing_table sr) \<and> rt_dest r = ip"
  unfolding rt_exact_match_def exact_match_walk_find by (auto dest: find_first_split)

lemma verify_walk_count:
  "verify_walk ifs rts ret = ret + int (length (filter (\<lambda>r. get_interface_walk ifs (rt_interface r) = None) rts))"
  by (induction rts arbitrary: ret) (auto split: option.splits)

lemma verify_zero_iff:
  "sr_verify_routing_table sr = 0 \<longleftrightarrow> if_list sr \<noteq> [] \<and> routing_table sr \<noteq> [] \<and>
     (\<forall>r\<in>set (routing_table sr). sr_get_interface sr (rt_interface r) \<noteq> None)"
  by (auto simp: sr_verify_routing_table_def verify_walk_count sr_get_interface_def filter_empty_conv)

text \<open>
  The route lookup is by exact destination address: it returns the first route of the table
  whose destination equals the address, and no other; a route's mask plays no part, so a subnet
  route never matches a host of the subnet.
\<close>

lemma rt_exact_match_first:
  "(rt_exact_match sr ip = Some r \<longleftrightarrow>
     (\<exists>before after. routing_table sr = before @ r # after \<and> rt_dest r = ip \<and>
        ip \<notin> rt_dest ` set before)) \<and>
   map_option (rt_mask_update (\<lambda>_. 0)) (rt_exact_match sr ip) =
     rt_exact_match (sr\<lparr>routing_table := map (rt_mask_update (\<lambda>_. 0)) (routing_table sr)\<rparr>) ip"
proof
  have notin: "ip \<notin> rt_dest ` set rs \<longleftrightarrow> (\<forall>y\<in>set rs. rt_dest y \<noteq> ip)" for rs
    by auto
  show "rt_exact_match sr ip = Some r \<longleftrightarrow>
     (\<exists>before after. routing_table sr = before @ r # after \<and> rt_dest r = ip \<and>
        ip \<notin> rt_dest ` set before)"
    by (simp only: rt_exact_match_def exact_match_walk_find find_first_iff notin)
  have "map_option (rt_mask_update (\<lambda>_. 0)) (exact_match_walk rs ip) =
      exact_match_walk (map (rt_mask_update (\<lambda>_. 0)) rs) ip" for rs
    by (induction rs) auto
  then show "map_option (rt_mask_update (\<lambda>_. 0)) (rt_exact_match sr ip) =
     rt_exact_match (sr\<lparr>routing_table := map (rt_mask_update (\<lambda>_. 0)) (routing_table sr)\<rparr>) ip"
    by (simp add: rt_exact_match_def)
qed

text \<open>
  \<^verbatim>\<open>sr_verify_routing_table\<close> answers \<open>0\<close> exactly when there are interfaces and routes and
  every route leaves through an interface that exists.
\<close>

lemma verify_routing_table_sound_complete:
  "sr_verify_routing_table sr = 0 \<longleftrightarrow> if_list sr \<noteq> [] \<and> routing_table sr \<noteq> [] \<and>
     list_all (\<lambda>r. sr_get_interface sr (rt_interface r) \<noteq> None) (routing_table sr)"
  by (simp add: verify_zero_iff list_all_iff)

text \<open>
  Adding a route keeps the answer for every destination that already had one, and otherwise
  makes the new route the answer for its own destination only.
\<close>

lemma add_rt_entry_lookup:
  assumes "sr_add_rt_entry env sr dest gw msk name = Inr sr'"
  shows "rt_exact_match sr' ip =
    (case rt_exact_match sr ip of Some r \<Rightarrow> Some r
     | None \<Rightarrow> if ip = dest
         then Some \<lparr>rt_dest = dest, rt_gw = gw, rt_mask = msk, rt_interface = strncpy name 32\<rparr>
         else None)"
  using assms
  by (auto simp: sr_add_rt_entry_def rt_exact_match_def exact_match_walk_find append_rt_eq find_append
      layout split: if_splits option.splits)

lemma add_rt_entry_lookup_witness:
  "\<exists>sr'. sr_add_rt_entry (good_env 0) empty_instance 0x0202a8c0 0x0202a8c0 0xffffffff (str_bytes ''eth1'') = Inr sr' \<and>
     rt_exact_match sr' 0x0202a8c0 = Some \<lparr>rt_dest = 0x0202a8c0, rt_gw = 0x0202a8c0, rt_mask = 0xffffffff,
       rt_interface = strncpy (str_bytes ''eth1'') 32\<rparr>"
proof -
  let ?r = "\<lparr>rt_dest = 0x0202a8c0, rt_gw = 0x0202a8c0, rt_mask = 0xffffffff,
       rt_interface = strncpy (str_bytes ''eth1'') 32\<rparr>"
  have 1: "sr_add_rt_entry (good_env 0) empty_instance 0x0202a8c0 0x0202a8c0 0xffffffff (str_bytes ''eth1'') =
      Inr (empty_instance\<lparr>routing_table := [?r]\<rparr>)"
    by (simp add: sr_add_rt_entry_def good_env_def empty_instance_def layout)
  show ?thesis
    using 1 add_rt_entry_lookup [OF 1, of "0x0202a8c0"]
    by (simp add: rt_exact_match_def empty_instance_def)
qed

end
