(* ===== verification/SR_Vns_Send.thy ===== *)
theory SR_Vns_Send
  imports SR_Rt
begin

text \<open>
  The sending half of \<^verbatim>\<open>sr_vns_comm.c\<close> and the packet log of \<^verbatim>\<open>sr_dumper.c\<close>: a frame is
  wrapped into a \<^verbatim>\<open>VNSPACKET\<close> message, logged, checked against the address of the interface it
  leaves by, and written to the server socket.
\<close>

section \<open>The pcap log\<close>

definition TCPDUMP_MAGIC :: u32 where "TCPDUMP_MAGIC = 0xa1b2c3d4"
definition PCAP_VERSION_MAJOR :: u16 where "PCAP_VERSION_MAJOR = 2"
definition PCAP_VERSION_MINOR :: u16 where "PCAP_VERSION_MINOR = 4"
definition LINKTYPE_ETHERNET :: u32 where "LINKTYPE_ETHERNET = 1"

record pcap_sf_pkthdr =
  ts_sec :: u32
  ts_usec :: u32
  sf_caplen :: u32
  sf_len :: u32

definition sf_pkthdr_bytes :: "pcap_sf_pkthdr \<Rightarrow> bytes" where
  "sf_pkthdr_bytes h = le32 (ts_sec h) @ le32 (ts_usec h) @ le32 (sf_caplen h) @ le32 (sf_len h)"

definition sf_write_header :: "u32 \<Rightarrow> u32 \<Rightarrow> u32 \<Rightarrow> bytes" where
  "sf_write_header linktype thiszone snaplen =
     le32 TCPDUMP_MAGIC @ le16 PCAP_VERSION_MAJOR @ le16 PCAP_VERSION_MINOR @
     le32 thiszone @ le32 0 @ le32 snaplen @ le32 linktype"

text \<open>
  \<^verbatim>\<open>sr_dump_open\<close>: \<open>fopen_ok\<close> tells whether the file could be opened; the name \<^verbatim>\<open>-\<close> selects
  standard output, which is always open.
\<close>

definition sr_dump_open :: "bool \<Rightarrow> bytes \<Rightarrow> u32 \<Rightarrow> u32 \<Rightarrow> bytes option" where
  "sr_dump_open fopen_ok fname thiszone snaplen =
     (if cstr fname = str_bytes ''-'' \<or> fopen_ok
      then Some (sf_write_header LINKTYPE_ETHERNET thiszone snaplen) else None)"

text \<open>
  \<^verbatim>\<open>sr_dump\<close> writes a record by two calls of \<^verbatim>\<open>fwrite\<close>, its header and its data, without a lock around them.
  \<open>sr_dump\<close> is both of them with nothing written in between.
\<close>

definition dump_writes :: "pcap_sf_pkthdr \<Rightarrow> bytes \<Rightarrow> fault + bytes list" where
  "dump_writes h sp =
     (case rd_bytes sp 0 (unat (sf_caplen h)) of Inl f \<Rightarrow> Inl f
      | Inr bs \<Rightarrow> Inr [sf_pkthdr_bytes h, bs])"

definition sr_dump :: "bytes \<Rightarrow> pcap_sf_pkthdr \<Rightarrow> bytes \<Rightarrow> fault + bytes" where
  "sr_dump fp h sp = (case dump_writes h sp of Inl f \<Rightarrow> Inl f | Inr ws \<Rightarrow> Inr (fp @ concat ws))"

definition log_header :: "sr_env \<Rightarrow> int \<Rightarrow> pcap_sf_pkthdr" where
  "log_header env len =
     (let size = min PACKET_DUMP_SIZE len in
      \<lparr>ts_sec = fst (env_tod env), ts_usec = snd (env_tod env),
       sf_caplen = word_of_int size,
       sf_len = word_of_int (if size < PACKET_DUMP_SIZE then size else PACKET_DUMP_SIZE)\<rparr>)"

definition sr_log_packet :: "sr_env \<Rightarrow> sr_instance \<Rightarrow> bytes \<Rightarrow> int \<Rightarrow> fault + sr_instance" where
  "sr_log_packet env sr buf len =
     (case logfile sr of None \<Rightarrow> Inr sr | Some fp \<Rightarrow>
        (case sr_dump fp (log_header env len) buf of Inl f \<Rightarrow> Inl f | Inr fp' \<Rightarrow> Inr (sr\<lparr>logfile := Some fp'\<rparr>)))"

section \<open>Sending\<close>

definition sr_ether_addrs_match_interface :: "sr_instance \<Rightarrow> bytes \<Rightarrow> bytes \<Rightarrow> fault + bool" where
  "sr_ether_addrs_match_interface sr buf name =
     (case get_eth buf 0 of Inl f \<Rightarrow> Inl f | Inr ether_hdr \<Rightarrow>
        (case sr_get_interface sr name of None \<Rightarrow> Inr False
         | Some iface \<Rightarrow> Inr (ether_shost ether_hdr = if_addr iface)))"

definition packet_message :: "bytes \<Rightarrow> bytes \<Rightarrow> bytes" where
  "packet_message buf iface =
     le32 (htonl (word_of_nat (length buf + sizeof_c_packet_header))) @ le32 (htonl VNSPACKET) @
     strncpy iface 16 @ buf"

definition sr_send_packet :: "sr_env \<Rightarrow> sr_instance \<Rightarrow> bytes \<Rightarrow> bytes \<Rightarrow> fault + (int \<times> sr_instance)" where
  "sr_send_packet env sr buf iface =
     (let total_len = length buf + sizeof_c_packet_header in
      if length buf < sizeof_eth then Inr (- 1, sr)
      else if \<not> env_malloc env total_len then Inl AssertFailed
      else let sr_pkt = packet_message buf iface in
        case sr_log_packet env sr buf (int (length buf)) of Inl f \<Rightarrow> Inl f | Inr sr1 \<Rightarrow>
          (case sr_ether_addrs_match_interface sr1 buf iface of Inl f \<Rightarrow> Inl f
           | Inr ok \<Rightarrow>
               if \<not> ok then Inr (- 1, sr1)
               else let sr2 = sr1\<lparr>sock_out := sock_out sr1 @ [sr_pkt]\<rparr> in
                 if env_write env sr_pkt < int total_len then Inr (- 1, sr2) else Inr (0, sr2)))"

section \<open>Lemmas\<close>

text \<open>What is logged of a frame: at most the first 1024 bytes, under a record header.\<close>

definition log_record :: "sr_env \<Rightarrow> bytes \<Rightarrow> bytes" where
  "log_record env buf =
     (let n = min 1024 (length buf) in
      le32 (fst (env_tod env)) @ le32 (snd (env_tod env)) @ le32 (word_of_nat n) @ le32 (word_of_nat n) @
      take n buf)"

lemma sr_log_packet_frame:
  "sr_log_packet env sr buf (int (length buf)) =
     Inr (sr\<lparr>logfile := map_option (\<lambda>fp. fp @ log_record env buf) (logfile sr)\<rparr>)"
proof (cases "logfile sr")
  case None
  then show ?thesis by (simp add: sr_log_packet_def)
next
  case (Some fp)
  define n where "n = min 1024 (length buf)"
  have n: "min PACKET_DUMP_SIZE (int (length buf)) = int n"
    by (simp add: n_def PACKET_DUMP_SIZE_def)
  have "unat (word_of_int (int n) :: u32) = n"
    by (simp add: n_def unsigned_of_nat take_bit_eq_mod)
  moreover have "n \<le> length buf" "(if int n < PACKET_DUMP_SIZE then int n else PACKET_DUMP_SIZE) = int n"
    by (auto simp: n_def PACKET_DUMP_SIZE_def)
  ultimately show ?thesis
    using Some by (simp add: sr_log_packet_def log_header_def n Let_def sr_dump_def dump_writes_def sf_pkthdr_bytes_def log_record_def
        flip: n_def)
qed

lemma length_packet_message: "length (packet_message buf iface) = length buf + 24"
  by (simp add: packet_message_def)

lemma match_interface_eq:
  assumes "sizeof_eth \<le> length buf"
  shows "sr_ether_addrs_match_interface sr buf name =
    Inr (case sr_get_interface sr name of None \<Rightarrow> False | Some i \<Rightarrow> take 6 (drop 6 buf) = if_addr i)"
proof -
  have "get_eth buf 0 = Inr (eth_hdr_of (take 14 buf))"
    using assms eth.get_in [of 0 buf] by (simp add: layout)
  moreover have "ether_shost (eth_hdr_of (take 14 buf)) = take 6 (drop 6 buf)"
    using assms by (simp add: eth_hdr_of_def layout drop_take)
  ultimately show ?thesis
    by (simp add: sr_ether_addrs_match_interface_def split: option.splits)
qed

text \<open>The behaviour of a send that can be attempted: a frame with an Ethernet header, memory available.\<close>

definition log_frame :: "sr_env \<Rightarrow> bytes \<Rightarrow> sr_instance \<Rightarrow> sr_instance" where
  "log_frame env buf sr = sr\<lparr>logfile := map_option (\<lambda>fp. fp @ log_record env buf) (logfile sr)\<rparr>"

lemma log_frame_simps [simp]:
  "if_list (log_frame env buf sr) = if_list sr" "routing_table (log_frame env buf sr) = routing_table sr"
  "cache (log_frame env buf sr) = cache sr" "sock_out (log_frame env buf sr) = sock_out sr"
  "user (log_frame env buf sr) = user sr" "host (log_frame env buf sr) = host sr"
  "template (log_frame env buf sr) = template sr" "topo_id (log_frame env buf sr) = topo_id sr"
  by (simp_all add: log_frame_def)

lemma sr_send_packet_eq:
  assumes "sizeof_eth \<le> length buf" "env_malloc env (length buf + 24)"
  shows "sr_send_packet env sr buf iface =
    (case sr_get_interface sr iface of
       None \<Rightarrow> Inr (- 1, log_frame env buf sr)
     | Some i \<Rightarrow>
         if take 6 (drop 6 buf) = if_addr i
         then Inr (if env_write env (packet_message buf iface) < int (length buf + 24) then - 1 else 0,
                   log_frame env buf sr\<lparr>sock_out := sock_out sr @ [packet_message buf iface]\<rparr>)
         else Inr (- 1, log_frame env buf sr))"
proof -
  have ifs: "sr_get_interface (log_frame env buf sr) = sr_get_interface sr"
    by (rule sr_get_interface_cong) simp
  have len: "\<not> length buf < sizeof_eth" using assms(1) by simp
  show ?thesis
    using len assms(2)
    by (simp add: sr_send_packet_def Let_def sr_log_packet_frame match_interface_eq
        ifs sizeof_c_packet_header_def flip: log_frame_def split: option.splits)
qed

lemma sr_send_packet_frame:
  assumes "sr_send_packet env sr buf iface = Inr (rc, sr')"
  shows "same_config sr sr'" "cache sr' = cache sr"
  using assms
  by (auto simp: sr_send_packet_def Let_def sr_log_packet_frame same_config_def split: if_splits sum.splits)

lemma sr_send_packet_fault:
  "sr_send_packet env sr buf iface = Inl f \<Longrightarrow> f = AssertFailed"
proof (cases "sizeof_eth \<le> length buf \<and> env_malloc env (length buf + 24)")
  case True
  moreover assume "sr_send_packet env sr buf iface = Inl f"
  ultimately show ?thesis by (auto simp: sr_send_packet_eq split: option.splits if_splits)
next
  case False
  moreover assume "sr_send_packet env sr buf iface = Inl f"
  ultimately show ?thesis
    by (auto simp: sr_send_packet_def Let_def layout split: if_splits)
qed

text \<open>
  C39.  Whatever the router hands to the socket carries the hardware address of the interface it
  leaves by: a send either leaves the output as it was, or appends exactly one message, the
  24-byte \<^verbatim>\<open>VNSPACKET\<close> header followed by the frame, whose source address is that of the named
  interface.
\<close>

theorem send_packet_source_checked:
  assumes "sr_send_packet env sr buf iface = Inr (rc, sr')"
  shows "sock_out sr' = sock_out sr \<and> rc = - 1 \<or>
    (\<exists>i. sr_get_interface sr iface = Some i \<and> take 6 (drop 6 buf) = if_addr i \<and>
       sock_out sr' = sock_out sr @ [packet_message buf iface] \<and>
       (rc = 0 \<longleftrightarrow> int (length buf + 24) \<le> env_write env (packet_message buf iface)))"
proof (cases "sizeof_eth \<le> length buf \<and> env_malloc env (length buf + 24)")
  case True
  with assms show ?thesis
    by (auto simp: sr_send_packet_eq split: option.splits if_splits)
next
  case False
  with assms show ?thesis by (auto simp: sr_send_packet_def Let_def layout split: if_splits)
qed

theorem send_packet_source_checked_witness:
  "\<exists>sr'. sr_send_packet (good_env 0)
       (empty_instance\<lparr>if_list := [raw_if\<lparr>if_name := strncpy (str_bytes ''eth1'') 32, if_addr := [1, 2, 3, 4, 5, 6]\<rparr>]\<rparr>)
       (replicate 6 0xff @ [1, 2, 3, 4, 5, 6, 8, 0]) (str_bytes ''eth1'') = Inr (0, sr') \<and>
     sock_out sr' = [packet_message (replicate 6 0xff @ [1, 2, 3, 4, 5, 6, 8, 0]) (str_bytes ''eth1'')]"
proof -
  let ?i = "raw_if\<lparr>if_name := strncpy (str_bytes ''eth1'') 32, if_addr := [1, 2, 3, 4, 5, 6]\<rparr>"
  let ?sr = "empty_instance\<lparr>if_list := [?i]\<rparr>" and ?b = "replicate 6 0xff @ [1, 2, 3, 4, 5, 6, 8, 0] :: bytes"
  have i: "sr_get_interface ?sr (str_bytes ''eth1'') = Some ?i" by (simp add: sr_get_interface_def layout)
  have "\<exists>sr'. sr_send_packet (good_env 0) ?sr ?b (str_bytes ''eth1'') = Inr (0, sr')"
    using i by (simp add: sr_send_packet_eq good_env_def layout length_packet_message)
  then obtain sr' where s: "sr_send_packet (good_env 0) ?sr ?b (str_bytes ''eth1'') = Inr (0, sr')" ..
  show ?thesis
    using send_packet_source_checked [OF s] s by (auto simp: empty_instance_def)
qed

end
