(* ===== verification/SR_Arpcache.thy ===== *)
theory SR_Arpcache
  imports SR_Vns_Send
begin

text \<open>
  \<^verbatim>\<open>sr_arpcache.c\<close> (but for the sweeper, which calls back into the router): the table of resolved
  addresses and the queue of pending requests with the frames that wait for them.  The locale
  \<open>arp_queue\<close> is the contract the router relies on, stated over the map from a next hop to the
  frames waiting for it; the queue operations of the code are its instance.
\<close>

section \<open>Operations\<close>

definition empty_entry :: sr_arpentry where
  "empty_entry = \<lparr>entry_mac = replicate 6 0, entry_ip = 0, entry_added = 0, entry_valid = False\<rparr>"

definition sr_arpcache_init :: "sr_arpcache \<Rightarrow> sr_arpcache" where
  "sr_arpcache_init c = c\<lparr>entries := replicate SR_ARPCACHE_SZ empty_entry, requests := []\<rparr>"

text \<open>\<^verbatim>\<open>sr_arpcache_lookup\<close>: the loop does not stop at a match, so the last match is copied.\<close>

definition sizeof_arpentry :: nat where [layout]: "sizeof_arpentry = 32"

fun lookup_walk :: "sr_arpentry list \<Rightarrow> u32 \<Rightarrow> sr_arpentry option \<Rightarrow> sr_arpentry option" where
  "lookup_walk [] ip entry = entry"
| "lookup_walk (e # es) ip entry =
     lookup_walk es ip (if entry_valid e \<and> entry_ip e = ip then Some e else entry)"

definition lookup_entry :: "sr_arpcache \<Rightarrow> u32 \<Rightarrow> sr_arpentry option" where
  "lookup_entry c ip = lookup_walk (entries c) ip None"

definition sr_arpcache_lookup :: "sr_env \<Rightarrow> sr_arpcache \<Rightarrow> u32 \<Rightarrow> fault + sr_arpentry option" where
  "sr_arpcache_lookup env c ip =
     (case lookup_entry c ip of None \<Rightarrow> Inr None
      | Some e \<Rightarrow> if env_malloc env sizeof_arpentry then Inr (Some e) else Inl NullDeref)"

text \<open>The walk of the queue for an address, and the update of a request through a pointer to it.\<close>

fun find_req :: "(addr \<times> sr_arpreq) list \<Rightarrow> u32 \<Rightarrow> (addr \<times> sr_arpreq) option" where
  "find_req [] ip = None"
| "find_req ((a, r) # rest) ip = (if req_ip r = ip then Some (a, r) else find_req rest ip)"

fun update_req :: "(addr \<times> sr_arpreq) list \<Rightarrow> addr \<Rightarrow> (sr_arpreq \<Rightarrow> sr_arpreq) \<Rightarrow> (addr \<times> sr_arpreq) list" where
  "update_req [] a f = []"
| "update_req ((b, r) # rest) a f = (if b = a then (b, f r) # rest else (b, r) # update_req rest a f)"

definition deref_req :: "sr_arpcache \<Rightarrow> addr \<Rightarrow> fault + sr_arpreq" where
  "deref_req c a = (case map_of (requests c) a of None \<Rightarrow> Inl UseAfterFree | Some r \<Rightarrow> Inr r)"

text \<open>
  \<^verbatim>\<open>sr_arpcache_queuereq\<close>: find the request or allocate one at the head of the queue, then put a
  copy of the packet at the head of its list.  None of the allocations is checked.
\<close>

definition add_req :: "sr_env \<Rightarrow> sr_arpcache \<Rightarrow> u32 \<Rightarrow> fault + (addr \<times> sr_arpcache)" where
  "add_req env c ip =
     (case find_req (requests c) ip of Some (a, r) \<Rightarrow> Inr (a, c)
      | None \<Rightarrow>
          if \<not> env_malloc env sizeof_arpreq then Inl NullDeref
          else Inr (next_addr c,
                 c\<lparr>requests := (next_addr c, \<lparr>req_ip = ip, req_sent = 0, req_times_sent = 0, req_packets = []\<rparr>)
                                 # requests c,
                   next_addr := Suc (next_addr c)\<rparr>))"

definition sr_arpcache_queuereq ::
    "sr_env \<Rightarrow> sr_arpcache \<Rightarrow> u32 \<Rightarrow> bytes \<Rightarrow> bytes \<Rightarrow> fault + (addr \<times> sr_arpcache)" where
  "sr_arpcache_queuereq env c ip packet iface =
     (case add_req env c ip of Inl f \<Rightarrow> Inl f | Inr (a, c1) \<Rightarrow>
        if packet = [] then Inr (a, c1)
        else if \<not> (env_malloc env sizeof_packet \<and> env_malloc env (length packet) \<and>
                   env_malloc env sr_IFACE_NAMELEN) then Inl NullDeref
        else let new_pkt = \<lparr>pkt_buf = packet, pkt_iface = strncpy iface sr_IFACE_NAMELEN\<rparr> in
          Inr (a, c1\<lparr>requests := update_req (requests c1) a
                      (\<lambda>r. r\<lparr>req_packets := new_pkt # req_packets r\<rparr>)\<rparr>))"

text \<open>
  \<^verbatim>\<open>sr_arpcache_insert\<close>: unlink the pending request for the address, if any, and store the mapping
  in the first free slot, if any.
\<close>

fun detach_req :: "(addr \<times> sr_arpreq) list \<Rightarrow> u32 \<Rightarrow> (addr \<times> sr_arpreq) option \<times> (addr \<times> sr_arpreq) list" where
  "detach_req [] ip = (None, [])"
| "detach_req ((a, r) # rest) ip =
     (if req_ip r = ip then (Some (a, r), rest)
      else let (d, rest') = detach_req rest ip in (d, (a, r) # rest'))"

fun insert_entry :: "sr_arpentry list \<Rightarrow> bytes \<Rightarrow> u32 \<Rightarrow> int \<Rightarrow> sr_arpentry list" where
  "insert_entry [] mac ip now = []"
| "insert_entry (e # es) mac ip now =
     (if \<not> entry_valid e
      then \<lparr>entry_mac = mac, entry_ip = ip, entry_added = now, entry_valid = True\<rparr> # es
      else e # insert_entry es mac ip now)"

definition sr_arpcache_insert ::
    "sr_env \<Rightarrow> sr_arpcache \<Rightarrow> bytes \<Rightarrow> u32 \<Rightarrow> (addr \<times> sr_arpreq) option \<times> sr_arpcache" where
  "sr_arpcache_insert env c mac ip =
     (let (req, rest) = detach_req (requests c) ip in
      (req, c\<lparr>requests := rest, entries := insert_entry (entries c) mac ip (env_time env)\<rparr>))"

text \<open>
  \<^verbatim>\<open>sr_arpreq_destroy\<close> unlinks the request if the pointer is on the queue and frees it.
\<close>

fun unlink_req :: "(addr \<times> sr_arpreq) list \<Rightarrow> addr \<Rightarrow> (addr \<times> sr_arpreq) list" where
  "unlink_req [] a = []"
| "unlink_req ((b, r) # rest) a = (if b = a then rest else (b, r) # unlink_req rest a)"

definition sr_arpreq_destroy :: "sr_arpcache \<Rightarrow> addr \<Rightarrow> sr_arpcache" where
  "sr_arpreq_destroy c a = c\<lparr>requests := unlink_req (requests c) a\<rparr>"

text \<open>The expiry loop of \<^verbatim>\<open>sr_arpcache_timeout\<close>.\<close>

definition expire_entry :: "int \<Rightarrow> sr_arpentry \<Rightarrow> sr_arpentry" where
  "expire_entry curtime e =
     (if entry_valid e \<and> curtime - entry_added e > SR_ARPCACHE_TO then e\<lparr>entry_valid := False\<rparr> else e)"

definition expire_entries :: "int \<Rightarrow> sr_arpcache \<Rightarrow> sr_arpcache" where
  "expire_entries curtime c = c\<lparr>entries := map (expire_entry curtime) (entries c)\<rparr>"

section \<open>Well-formed caches\<close>

text \<open>
  The table has its 100 slots; requests have distinct addresses, all allocated before, and there is
  at most one request per next hop; every request waits with at least one frame, and every frame
  that waits is an IP frame (route lookup only queues those).
\<close>

definition req_wf :: "sr_arpreq \<Rightarrow> bool" where
  "req_wf r \<longleftrightarrow> req_packets r \<noteq> [] \<and>
     (\<forall>p\<in>set (req_packets r). sizeof_eth + sizeof_ip \<le> length (pkt_buf p) \<and> length (pkt_iface p) = 32)"

definition arpcache_wf :: "sr_arpcache \<Rightarrow> bool" where
  "arpcache_wf c \<longleftrightarrow> length (entries c) = SR_ARPCACHE_SZ \<and>
     distinct (map fst (requests c)) \<and> distinct (map (req_ip \<circ> snd) (requests c)) \<and>
     (\<forall>(a, r)\<in>set (requests c). a < next_addr c \<and> req_wf r)"

definition pending :: "sr_arpcache \<Rightarrow> u32 \<Rightarrow> sr_packet list option" where
  "pending c ip = map_option (req_packets \<circ> snd) (find_req (requests c) ip)"

section \<open>Lemmas: the queue\<close>

lemma find_req_find: "find_req rs ip = find (\<lambda>(a, r). req_ip r = ip) rs"
  by (induction rs ip rule: find_req.induct) auto

lemma find_req_Some: "find_req rs ip = Some (a, r) \<Longrightarrow> (a, r) \<in> set rs \<and> req_ip r = ip"
  by (induction rs ip rule: find_req.induct) (auto split: if_splits)

lemma find_req_None: "find_req rs ip = None \<longleftrightarrow> (\<forall>(a, r)\<in>set rs. req_ip r \<noteq> ip)"
  by (induction rs ip rule: find_req.induct) auto

lemma update_req_map:
  "distinct (map fst rs) \<Longrightarrow> update_req rs a f = map (\<lambda>(b, r). if b = a then (b, f r) else (b, r)) rs"
proof (induction rs a f rule: update_req.induct)
  case (2 b r rest a f)
  show ?case
  proof (cases "b = a")
    case True
    with 2 have "map (\<lambda>(b, r). if b = a then (b, f r) else (b, r)) rest = rest"
      by (intro map_idI) (auto simp: rev_image_eqI)
    with True show ?thesis by simp
  next
    case False
    with 2 show ?thesis by simp
  qed
qed simp

lemma map_fst_update_req [simp]: "map fst (update_req rs a f) = map fst rs"
  by (induction rs a f rule: update_req.induct) auto

lemma map_ip_update_req:
  "(\<And>r. req_ip (f r) = req_ip r) \<Longrightarrow> map (req_ip \<circ> snd) (update_req rs a f) = map (req_ip \<circ> snd) rs"
  by (induction rs a f rule: update_req.induct) auto

lemma find_req_update:
  assumes "\<And>r. req_ip (f r) = req_ip r" "distinct (map fst rs)"
  shows "find_req (update_req rs a f) ip =
    map_option (\<lambda>(b, r). (b, if b = a then f r else r)) (find_req rs ip)"
  unfolding update_req_map [OF assms(2)] using assms(1)
  by (induction rs ip rule: find_req.induct) auto

lemma map_of_update_req:
  "distinct (map fst rs) \<Longrightarrow>
     map_of (update_req rs a f) b = (if b = a then map_option f (map_of rs a) else map_of rs b)"
  by (induction rs a f rule: update_req.induct) (auto simp: map_of_eq_None_iff)

lemma set_update_req:
  "(b, r) \<in> set (update_req rs a f) \<Longrightarrow> (b, r) \<in> set rs \<or> (b = a \<and> (\<exists>r0. (a, r0) \<in> set rs \<and> r = f r0))"
  by (induction rs a f rule: update_req.induct) (auto split: if_splits)

lemma detach_req_spec:
  "detach_req rs ip = (find_req rs ip,
     case find_req rs ip of None \<Rightarrow> rs | Some (a, r) \<Rightarrow> remove1 (a, r) rs)"
proof (induction rs ip rule: detach_req.induct)
  case (2 a r rest ip)
  then show ?case by (auto split: option.splits dest: find_req_Some)
qed simp

lemma unlink_req_filter:
  "distinct (map fst rs) \<Longrightarrow> unlink_req rs a = filter (\<lambda>(b, r). b \<noteq> a) rs"
proof (induction rs a rule: unlink_req.induct)
  case (2 b r rest a)
  then show ?case by (auto simp: image_iff intro!: filter_True [symmetric])
qed simp

lemma map_of_unlink:
  "distinct (map fst rs) \<Longrightarrow> map_of (unlink_req rs a) b = (if b = a then None else map_of rs b)"
  by (induction rs a rule: unlink_req.induct) (force simp: map_of_eq_None_iff)+

lemma set_unlink_subset: "set (unlink_req rs a) \<subseteq> set rs"
  by (induction rs a rule: unlink_req.induct) auto

lemma distinct_unlink:
  "distinct (map g rs) \<Longrightarrow> distinct (map g (unlink_req rs a))"
proof (induction rs a rule: unlink_req.induct)
  case (2 b r rest a)
  then show ?case using set_unlink_subset [of rest a] by auto
qed simp

abbreviation queued_packet :: "bytes \<Rightarrow> bytes \<Rightarrow> sr_packet" where
  "queued_packet packet iface \<equiv> \<lparr>pkt_buf = packet, pkt_iface = strncpy iface 32\<rparr>"

abbreviation push_packet :: "sr_packet \<Rightarrow> sr_arpreq \<Rightarrow> sr_arpreq" where
  "push_packet p r \<equiv> r\<lparr>req_packets := p # req_packets r\<rparr>"

lemma queuereq_cases:
  assumes "sr_arpcache_queuereq env c ip packet iface = Inr (a, c')" "packet \<noteq> []"
  obtains (old) r where "find_req (requests c) ip = Some (a, r)"
      "c' = c\<lparr>requests := update_req (requests c) a (push_packet (queued_packet packet iface))\<rparr>"
  | (new) "find_req (requests c) ip = None" "a = next_addr c"
      "c' = c\<lparr>requests := (a, \<lparr>req_ip = ip, req_sent = 0, req_times_sent = 0,
                req_packets = [queued_packet packet iface]\<rparr>) # requests c, next_addr := Suc a\<rparr>"
  using assms
  by (auto simp: sr_arpcache_queuereq_def add_req_def Let_def layout
      split: if_splits option.splits sum.splits prod.splits)

lemma arpcache_wf_update:
  assumes "arpcache_wf c" "\<And>r. req_ip (f r) = req_ip r" "\<And>r. req_wf r \<Longrightarrow> req_wf (f r)"
  shows "arpcache_wf (c\<lparr>requests := update_req (requests c) a f\<rparr>)"
  using assms by (fastforce simp: arpcache_wf_def map_ip_update_req dest: set_update_req)

lemma req_wf_push: "req_wf r \<Longrightarrow> 34 \<le> length packet \<Longrightarrow> req_wf (push_packet (queued_packet packet iface) r)"
  by (auto simp: req_wf_def layout)

lemma queuereq_wf:
  assumes "sr_arpcache_queuereq env c ip packet iface = Inr (a, c')" "arpcache_wf c" "34 \<le> length packet"
  shows "arpcache_wf c'"
  using assms(1)
proof (rule queuereq_cases)
  show "packet \<noteq> []" using assms(3) by auto
next
  fix r
  assume "c' = c\<lparr>requests := update_req (requests c) a (push_packet (queued_packet packet iface))\<rparr>"
  with assms(2,3) show ?thesis by (simp add: arpcache_wf_update req_wf_push)
next
  assume "find_req (requests c) ip = None" "a = next_addr c" and
    c': "c' = c\<lparr>requests := (a, \<lparr>req_ip = ip, req_sent = 0, req_times_sent = 0,
                req_packets = [queued_packet packet iface]\<rparr>) # requests c, next_addr := Suc a\<rparr>"
  with assms(2,3) show ?thesis
    by (fastforce simp: arpcache_wf_def req_wf_def find_req_None layout)
qed

lemma pending_queuereq:
  assumes "sr_arpcache_queuereq env c ip packet iface = Inr (a, c')" "arpcache_wf c" "packet \<noteq> []"
  shows "pending c' = (pending c)(ip \<mapsto> queued_packet packet iface # (case pending c ip of None \<Rightarrow> [] | Some ps \<Rightarrow> ps))"
  using assms(1,3)
proof (rule queuereq_cases)
  fix r
  assume r: "find_req (requests c) ip = Some (a, r)" and
    c': "c' = c\<lparr>requests := update_req (requests c) a (push_packet (queued_packet packet iface))\<rparr>"
  have dist: "distinct (map fst (requests c))" using assms(2) by (simp add: arpcache_wf_def)
  have other: "b \<noteq> a" if "find_req (requests c) ip' = Some (b, r')" "ip' \<noteq> ip" for b r' ip'
    using find_req_Some [OF that(1)] find_req_Some [OF r] dist that(2)
    by (metis eq_key_imp_eq_value)
  show ?thesis
  proof
    fix ip'
    show "pending c' ip' = ((pending c)(ip \<mapsto> queued_packet packet iface #
        (case pending c ip of None \<Rightarrow> [] | Some ps \<Rightarrow> ps))) ip'"
      using r c' other [of ip']
      by (cases "find_req (requests c) ip'") (auto simp: pending_def find_req_update dist)
  qed
next
  assume "find_req (requests c) ip = None"
    "c' = c\<lparr>requests := (a, \<lparr>req_ip = ip, req_sent = 0, req_times_sent = 0,
                req_packets = [queued_packet packet iface]\<rparr>) # requests c, next_addr := Suc a\<rparr>"
  then show ?thesis by (auto simp: pending_def fun_eq_iff)
qed

lemma find_req_remove:
  assumes "distinct (map (req_ip \<circ> snd) rs)" "find_req rs ip = Some (a, r)"
  shows "find_req (remove1 (a, r) rs) ip' = (if ip' = ip then None else find_req rs ip')"
  using assms
proof (induction rs ip rule: find_req.induct)
  case (2 b q rest ip)
  show ?case
  proof (cases "req_ip q = ip")
    case True
    with "2.prems" show ?thesis by (auto simp: find_req_None image_iff)
  next
    case False
    with 2 find_req_Some [of rest ip a r] show ?thesis by auto
  qed
qed simp

lemma pending_insert:
  assumes "sr_arpcache_insert env c mac ip = (req, c')" "arpcache_wf c"
  shows "map_option (req_packets \<circ> snd) req = pending c ip" "pending c' = (pending c)(ip := None)"
proof -
  have req: "req = find_req (requests c) ip"
    and rs: "requests c' = (case req of None \<Rightarrow> requests c | Some (a, r) \<Rightarrow> remove1 (a, r) (requests c))"
    using assms(1) by (auto simp: sr_arpcache_insert_def detach_req_spec)
  then show "map_option (req_packets \<circ> snd) req = pending c ip" by (simp add: pending_def)
  have "find_req (requests c') ip' = (if ip' = ip then None else find_req (requests c) ip')" for ip'
    using req rs assms(2) find_req_remove [of "requests c" ip]
    by (auto simp: arpcache_wf_def split: option.splits)
  then show "pending c' = (pending c)(ip := None)" by (simp add: pending_def fun_eq_iff)
qed

lemma length_insert_entry [simp]: "length (insert_entry es mac ip now) = length es"
  by (induction es mac ip now rule: insert_entry.induct) auto

lemma distinct_map_remove1: "distinct (map g xs) \<Longrightarrow> distinct (map g (remove1 x xs))"
proof (induction xs)
  case (Cons y xs)
  then show ?case using set_remove1_subset [of x xs] by auto
qed simp

lemma insert_wf:
  assumes "sr_arpcache_insert env c mac ip = (req, c')" "arpcache_wf c"
  shows "arpcache_wf c'"
proof -
  have "requests c' = requests c \<or> (\<exists>x. requests c' = remove1 x (requests c))"
    and "length (entries c') = length (entries c)" "next_addr c' = next_addr c"
    using assms(1) by (auto simp: sr_arpcache_insert_def detach_req_spec split: option.splits simp del: split_paired_Ex)
  with assms(2) show ?thesis
    using set_remove1_subset by (fastforce simp: arpcache_wf_def distinct_map_remove1)
qed

lemma destroy_wf: "arpcache_wf c \<Longrightarrow> arpcache_wf (sr_arpreq_destroy c a)"
  using set_unlink_subset [of "requests c" a]
  by (auto simp: arpcache_wf_def sr_arpreq_destroy_def distinct_unlink)

lemma expire_wf: "arpcache_wf c \<Longrightarrow> arpcache_wf (expire_entries now c)"
  by (simp add: arpcache_wf_def expire_entries_def)

lemma init_wf: "arpcache_wf (sr_arpcache_init c)"
  by (simp add: arpcache_wf_def sr_arpcache_init_def)

lemmas arpcache_wf_ops = queuereq_wf insert_wf destroy_wf expire_wf init_wf

section \<open>The queue as the router sees it\<close>

fun queue_all :: "('c \<Rightarrow> u32 \<Rightarrow> 'p \<Rightarrow> fault + (addr \<times> 'c)) \<Rightarrow> 'c \<Rightarrow> (u32 \<times> 'p) list \<Rightarrow> fault + 'c" where
  "queue_all enq c [] = Inr c"
| "queue_all enq c ((ip, p) # rest) =
     (case enq c ip p of Inl f \<Rightarrow> Inl f | Inr (a, c') \<Rightarrow> queue_all enq c' rest)"

locale arp_queue =
  fixes inv :: "'c \<Rightarrow> bool"
    and good :: "'p \<Rightarrow> bool"
    and img :: "'p \<Rightarrow> 'q"
    and waiting :: "'c \<Rightarrow> u32 \<Rightarrow> 'q list option"
    and enq :: "'c \<Rightarrow> u32 \<Rightarrow> 'p \<Rightarrow> fault + (addr \<times> 'c)"
    and deq :: "'c \<Rightarrow> u32 \<Rightarrow> 'q list option \<times> 'c"
  assumes enq_inv: "inv c \<Longrightarrow> good p \<Longrightarrow> enq c ip p = Inr (a, c') \<Longrightarrow> inv c'"
    and enq_waiting: "inv c \<Longrightarrow> good p \<Longrightarrow> enq c ip p = Inr (a, c') \<Longrightarrow>
      waiting c' = (waiting c)(ip \<mapsto> img p # (case waiting c ip of None \<Rightarrow> [] | Some ps \<Rightarrow> ps))"
    and deq_inv: "inv c \<Longrightarrow> deq c ip = (r, c') \<Longrightarrow> inv c'"
    and deq_result: "inv c \<Longrightarrow> deq c ip = (r, c') \<Longrightarrow> r = waiting c ip"
    and deq_waiting: "inv c \<Longrightarrow> deq c ip = (r, c') \<Longrightarrow> waiting c' = (waiting c)(ip := None)"
begin

lemma queue_all_inv:
  "inv c \<Longrightarrow> \<forall>(ip, p)\<in>set xs. good p \<Longrightarrow> queue_all enq c xs = Inr c' \<Longrightarrow> inv c'"
proof (induction xs arbitrary: c)
  case (Cons x xs)
  obtain ip p where x: "x = (ip, p)" by fastforce
  from Cons.prems x obtain a c1 where 1: "enq c ip p = Inr (a, c1)" "queue_all enq c1 xs = Inr c'"
    by (auto split: sum.splits)
  moreover have "inv c1" using enq_inv Cons.prems(1,2) x 1 by auto
  ultimately show ?case using Cons.IH Cons.prems(2) by simp
qed simp

lemma queue_all_waiting:
  assumes "inv c" "\<forall>(ip, p)\<in>set xs. good p" "queue_all enq c xs = Inr c'"
  shows "waiting c' ip = (let mine = rev (map (img \<circ> snd) (filter (\<lambda>x. fst x = ip) xs)) in
    if mine = [] then waiting c ip else Some (mine @ (case waiting c ip of None \<Rightarrow> [] | Some ps \<Rightarrow> ps)))"
  using assms
proof (induction xs arbitrary: c)
  case (Cons x xs)
  obtain ip1 p where x: "x = (ip1, p)" by fastforce
  from Cons.prems x obtain a c1 where 1: "enq c ip1 p = Inr (a, c1)" and rest: "queue_all enq c1 xs = Inr c'"
    by (auto split: sum.splits)
  have good: "good p" "\<forall>(ip, p)\<in>set xs. good p" using Cons.prems(2) x by auto
  have inv1: "inv c1" using enq_inv Cons.prems(1) good(1) 1 by blast
  have "waiting c1 = (waiting c)(ip1 \<mapsto> img p # (case waiting c ip1 of None \<Rightarrow> [] | Some ps \<Rightarrow> ps))"
    using enq_waiting Cons.prems(1) good(1) 1 by blast
  then show ?case
    using Cons.IH [OF inv1 good(2) rest] x by (auto simp: Let_def split: option.splits)
qed simp

lemma drain_reversed:
  assumes "inv c" "waiting c ip = None" "\<forall>(ip, p)\<in>set xs. good p" "queue_all enq c xs = Inr c'"
    and "ip \<in> fst ` set xs"
  shows "fst (deq c' ip) = Some (rev (map (img \<circ> snd) (filter (\<lambda>x. fst x = ip) xs)))"
    and "waiting (snd (deq c' ip)) ip = None"
    and "ip' \<noteq> ip \<Longrightarrow> waiting (snd (deq c' ip)) ip' = waiting c' ip'"
proof -
  obtain r c2 where d: "deq c' ip = (r, c2)" by fastforce
  have inv': "inv c'" using queue_all_inv assms(1,3,4) by blast
  have "filter (\<lambda>x. fst x = ip) xs \<noteq> []" using assms(5) by (auto simp: filter_empty_conv)
  then have "waiting c' ip = Some (rev (map (img \<circ> snd) (filter (\<lambda>x. fst x = ip) xs)))"
    using queue_all_waiting [OF assms(1,3,4), of ip] assms(2) by (simp add: Let_def)
  then show "fst (deq c' ip) = Some (rev (map (img \<circ> snd) (filter (\<lambda>x. fst x = ip) xs)))"
    using deq_result [OF inv' d] d by simp
  show "waiting (snd (deq c' ip)) ip = None" and
    "ip' \<noteq> ip \<Longrightarrow> waiting (snd (deq c' ip)) ip' = waiting c' ip'"
    using deq_waiting [OF inv' d] d by simp_all
qed

end

definition enqueue_frame :: "sr_env \<Rightarrow> sr_arpcache \<Rightarrow> u32 \<Rightarrow> bytes \<times> bytes \<Rightarrow> fault + (addr \<times> sr_arpcache)" where
  "enqueue_frame env c ip p = sr_arpcache_queuereq env c ip (fst p) (snd p)"

definition dequeue_frames :: "sr_env \<Rightarrow> bytes \<Rightarrow> sr_arpcache \<Rightarrow> u32 \<Rightarrow> sr_packet list option \<times> sr_arpcache" where
  "dequeue_frames env mac c ip =
     (let (req, c') = sr_arpcache_insert env c mac ip in (map_option (req_packets \<circ> snd) req, c'))"

definition ip_frame :: "bytes \<times> bytes \<Rightarrow> bool" where
  "ip_frame p \<longleftrightarrow> 34 \<le> length (fst p)"

interpretation aq: arp_queue arpcache_wf ip_frame "\<lambda>p. queued_packet (fst p) (snd p)" pending
  "enqueue_frame env" "dequeue_frames env' mac" for env env' mac
proof
  fix c p ip a c'
  assume wf: "arpcache_wf c" and p: "ip_frame p" and q: "enqueue_frame env c ip p = Inr (a, c')"
  then show "arpcache_wf c'" by (auto simp: enqueue_frame_def ip_frame_def intro: queuereq_wf)
  show "pending c' = (pending c)(ip \<mapsto> queued_packet (fst p) (snd p) #
      (case pending c ip of None \<Rightarrow> [] | Some ps \<Rightarrow> ps))"
    using wf p q by (intro pending_queuereq) (auto simp: enqueue_frame_def ip_frame_def)
next
  fix c ip r c'
  assume wf: "arpcache_wf c" and "dequeue_frames env' mac c ip = (r, c')"
  then obtain req where req: "sr_arpcache_insert env' c mac ip = (req, c')" and r: "r = map_option (req_packets \<circ> snd) req"
    by (auto simp: dequeue_frames_def split: prod.splits)
  show "arpcache_wf c'" "r = pending c ip" "pending c' = (pending c)(ip := None)"
    using insert_wf [OF req wf] pending_insert [OF req wf] r by simp_all
qed

text \<open>
  Frames queued for a next hop are released by the reply for that next hop, all of them, each
  once, and in the reverse of the order in which they were queued; frames that wait for another
  next hop keep waiting.
\<close>

lemma reply_releases_waiting_frames:
  assumes "arpcache_wf c" "pending c ip = None" "list_all (\<lambda>x. ip_frame (snd x)) xs"
    and "queue_all (enqueue_frame env) c xs = Inr c'" and "ip \<in> fst ` set xs"
    and "sr_arpcache_insert env' c' mac ip = (req, c'')"
  shows "map_option (req_packets \<circ> snd) req =
      Some (rev (map (\<lambda>x. queued_packet (fst (snd x)) (snd (snd x))) (filter (\<lambda>x. fst x = ip) xs))) \<and>
    pending c'' ip = None \<and> (\<forall>ip'. ip' \<noteq> ip \<longrightarrow> pending c'' ip' = pending c' ip')"
proof -
  have good: "\<forall>(ip, p)\<in>set xs. ip_frame p" using assms(3) by (auto simp: list_all_iff)
  have d: "dequeue_frames env' mac c' ip = (map_option (req_packets \<circ> snd) req, c'')"
    using assms(6) by (simp add: dequeue_frames_def)
  show ?thesis
    using aq.drain_reversed [OF assms(1,2) good assms(4,5), where env' = env' and mac = mac] d by (simp add: comp_def)
qed

lemma reply_releases_waiting_frames_witness:
  "\<exists>c' req c''.
     queue_all (enqueue_frame (good_env 7)) (sr_arpcache_init (cache empty_instance))
       [(5, replicate 34 0, [0]), (9, replicate 35 0, [0]), (5, replicate 36 0, [0])] = Inr c' \<and>
     sr_arpcache_insert (good_env 8) c' [1, 2, 3, 4, 5, 6] 5 = (req, c'') \<and>
     map_option (map (length \<circ> pkt_buf) \<circ> (req_packets \<circ> snd)) req = Some [36, 34]"
proof -
  let ?c = "sr_arpcache_init (cache empty_instance)"
  let ?xs = "[(5, replicate 34 0, [0]), (9, replicate 35 0, [0]), (5, replicate 36 0, [0])] :: (u32 \<times> bytes \<times> bytes) list"
  have 0: "arpcache_wf ?c" "pending ?c 5 = None" "list_all (\<lambda>x. ip_frame (snd x)) ?xs" "5 \<in> fst ` set ?xs"
    by (rule init_wf) (simp_all add: pending_def sr_arpcache_init_def ip_frame_def)
  obtain c' where 1: "queue_all (enqueue_frame (good_env 7)) ?c ?xs = Inr c'"
    by (simp add: enqueue_frame_def sr_arpcache_queuereq_def add_req_def Let_def sr_arpcache_init_def
        good_env_def)
  obtain req c'' where 2: "sr_arpcache_insert (good_env 8) c' [1, 2, 3, 4, 5, 6] 5 = (req, c'')"
    by fastforce
  have "map_option (req_packets \<circ> snd) req =
      Some [queued_packet (replicate 36 0) [0], queued_packet (replicate 34 0) [0]]"
    using reply_releases_waiting_frames [OF 0(1,2,3) 1 0(4) 2] by simp
  then have "map_option (map (length \<circ> pkt_buf)) (map_option (req_packets \<circ> snd) req) = Some [36, 34]"
    by (cases req) auto
  then show ?thesis
    using 1 2 by (auto simp: option.map_comp comp_def)
qed

section \<open>The table of resolved addresses\<close>

lemma lookup_walk_find:
  "lookup_walk es ip entry =
     (case find (\<lambda>e. entry_valid e \<and> entry_ip e = ip) (rev es) of None \<Rightarrow> entry | Some e \<Rightarrow> Some e)"
  by (induction es ip entry rule: lookup_walk.induct) (auto simp: find_append split: option.splits)

lemma insert_entry_split:
  assumes "find (\<lambda>e. \<not> entry_valid e) es = Some e0"
  obtains pre post where "es = pre @ e0 # post" "\<not> entry_valid e0"
    "insert_entry es mac ip now =
       pre @ \<lparr>entry_mac = mac, entry_ip = ip, entry_added = now, entry_valid = True\<rparr> # post"
proof -
  obtain pre post where split: "es = pre @ e0 # post" "\<not> entry_valid e0" "\<forall>e\<in>set pre. entry_valid e"
    using find_first_split [OF assms] by auto
  have "insert_entry (pre @ e0 # post) mac ip now =
      pre @ \<lparr>entry_mac = mac, entry_ip = ip, entry_added = now, entry_valid = True\<rparr> # post"
    using split(2,3) by (induction pre) auto
  with split that show thesis by blast
qed

lemma insert_entry_full: "\<forall>e\<in>set es. entry_valid e \<Longrightarrow> insert_entry es mac ip now = es"
  by (induction es mac ip now rule: insert_entry.induct) auto

lemma entries_insert: "entries (snd (sr_arpcache_insert env c mac ip)) = insert_entry (entries c) mac ip (env_time env)"
  by (simp add: sr_arpcache_insert_def detach_req_spec)

text \<open>
  A resolution learnt for an address that has no valid entry is found by the next lookup,
  with the time it was learnt, as long as the table has a free slot; lookups of all other
  addresses are unaffected.
\<close>

lemma insert_then_lookup:
  assumes "sr_arpcache_insert env c mac ip = (req, c')"
    and "lookup_entry c ip = None" and "\<not> list_all entry_valid (entries c)"
  shows "lookup_entry c' ip =
      Some \<lparr>entry_mac = mac, entry_ip = ip, entry_added = env_time env, entry_valid = True\<rparr> \<and>
    (\<forall>other. other \<noteq> ip \<longrightarrow> lookup_entry c' other = lookup_entry c other)"
proof -
  from assms(3) obtain e0 where e0: "find (\<lambda>e. \<not> entry_valid e) (entries c) = Some e0"
    by (cases "find (\<lambda>e. \<not> entry_valid e) (entries c)") (auto simp: list_all_iff find_None_iff)
  obtain pre post where split: "entries c = pre @ e0 # post" "\<not> entry_valid e0"
    and ins: "entries c' = pre @ \<lparr>entry_mac = mac, entry_ip = ip, entry_added = env_time env, entry_valid = True\<rparr> # post"
    using insert_entry_split [OF e0, of mac ip "env_time env"] entries_insert [of env c mac ip] assms(1) by auto
  show ?thesis
    using assms(2) split ins
    by (auto simp: lookup_entry_def lookup_walk_find find_append split: option.splits)
qed

lemma insert_then_lookup_witness:
  "map_option entry_mac (lookup_entry (snd (sr_arpcache_insert (good_env 100) (sr_arpcache_init (cache empty_instance))
     [1, 1, 1, 1, 1, 1] 5)) 5) = Some [1, 1, 1, 1, 1, 1]"
proof -
  let ?c = "sr_arpcache_init (cache empty_instance)"
  obtain req c' where ins: "sr_arpcache_insert (good_env 100) ?c [1, 1, 1, 1, 1, 1] 5 = (req, c')" by fastforce
  have e: "entries ?c = replicate 100 empty_entry" by (simp add: sr_arpcache_init_def SR_ARPCACHE_SZ_def)
  have "lookup_walk (replicate n empty_entry) 5 None = None" for n
    by (induction n) (auto simp: empty_entry_def)
  then have "lookup_entry ?c 5 = None" by (simp add: lookup_entry_def e)
  moreover have "\<not> list_all entry_valid (entries ?c)" by (simp add: e list_all_iff empty_entry_def)
  ultimately show ?thesis using insert_then_lookup [OF ins] ins by simp
qed

text \<open>
  The table neither refreshes nor replaces an entry: after learning two addresses, expiring the
  first and learning a new hardware address for the second, a lookup of the second still returns
  its old hardware address, because the new one was stored in an earlier slot and the lookup takes
  the last match.
\<close>

lemma relearnt_address_is_shadowed:
  "let c1 = snd (sr_arpcache_insert (good_env 100) (sr_arpcache_init (cache empty_instance)) [1, 1, 1, 1, 1, 1] 5);
       c2 = snd (sr_arpcache_insert (good_env 110) c1 [2, 2, 2, 2, 2, 2] 9);
       c3 = expire_entries 116 c2;
       c4 = snd (sr_arpcache_insert (good_env 116) c3 [3, 3, 3, 3, 3, 3] 9)
   in map_option entry_mac (lookup_entry c4 9) = Some [2, 2, 2, 2, 2, 2]"
proof -
  have sz: "replicate SR_ARPCACHE_SZ empty_entry = empty_entry # empty_entry # replicate 98 empty_entry"
    by (simp add: SR_ARPCACHE_SZ_def numeral_eq_Suc)
  have tail: "lookup_walk (replicate n empty_entry) ip e = e" for n ip e
    by (induction n) (auto simp: empty_entry_def)
  have exp: "map (expire_entry t) (replicate n empty_entry) = replicate n empty_entry" for t n
    by (simp add: expire_entry_def empty_entry_def)
  have inv: "\<not> entry_valid empty_entry" "expire_entry t empty_entry = empty_entry" for t
    by (simp_all add: expire_entry_def empty_entry_def)
  show ?thesis
    unfolding Let_def lookup_entry_def entries_insert expire_entries_def sr_arpcache_init_def
    by (simp add: sz tail exp inv expire_entry_def good_env_def SR_ARPCACHE_TO_def)
qed

text \<open>
  After the expiry loop of the timeout thread, an entry is valid exactly when it was valid and
  at most 15 seconds old, and a lookup never returns an older one.
\<close>

lemma expiry_bounds_age:
  "map entry_valid (entries (expire_entries now c)) =
     map (\<lambda>e. entry_valid e \<and> now - entry_added e \<le> 15) (entries c) \<and>
   (case lookup_entry (expire_entries now c) ip of None \<Rightarrow> True | Some e \<Rightarrow> now - entry_added e \<le> 15)"
proof
  show "map entry_valid (entries (expire_entries now c)) =
     map (\<lambda>e. entry_valid e \<and> now - entry_added e \<le> 15) (entries c)"
    by (auto simp: expire_entries_def expire_entry_def SR_ARPCACHE_TO_def)
  show "case lookup_entry (expire_entries now c) ip of None \<Rightarrow> True | Some e \<Rightarrow> now - entry_added e \<le> 15"
  proof (cases "lookup_entry (expire_entries now c) ip")
    case (Some e)
    then have "find (\<lambda>e. entry_valid e \<and> entry_ip e = ip) (rev (map (expire_entry now) (entries c))) = Some e"
      by (auto simp: lookup_entry_def lookup_walk_find expire_entries_def split: option.splits)
    then have "entry_valid e" "e \<in> set (rev (map (expire_entry now) (entries c)))"
      using find_SomeD by fast+
    with Some show ?thesis by (auto simp: expire_entry_def SR_ARPCACHE_TO_def split: if_splits)
  qed simp
qed

end
