(* ===== verification/SR_Router.thy ===== *)
theory SR_Router
  imports SR_Arpcache
begin

text \<open>
  \<^verbatim>\<open>sr_router.c\<close> and the sweeper of \<^verbatim>\<open>sr_arpcache.c\<close>: every handler of the data path.  The three
  functions \<^verbatim>\<open>handle_arpreq\<close>, \<^verbatim>\<open>send_icmp_error\<close> and \<^verbatim>\<open>route_and_send\<close> call each other: giving up
  on a next hop sends ICMP errors, which are routed, queued and trigger \<^verbatim>\<open>handle_arpreq\<close> again.
  Their bodies take the inner \<^verbatim>\<open>handle_arpreq\<close> as an argument, and \<open>handle_arpreq\<close> ties the knot
  with a bound on the nesting depth of its calls.
\<close>

section \<open>ARP frames\<close>

definition arp_frame :: "bytes \<Rightarrow> sr_arp_hdr \<Rightarrow> fault + bytes" where
  "arp_frame dhost arp =
     (let buf = replicate (sizeof_eth + sizeof_arp) 0 in
      case put_eth buf 0 \<lparr>ether_dhost = dhost, ether_shost = ar_sha arp, ether_type = htons ethertype_arp\<rparr> of
        Inl f \<Rightarrow> Inl f | Inr buf1 \<Rightarrow> put_arp buf1 sizeof_eth arp)"

definition send_arp_reply :: "sr_env \<Rightarrow> sr_instance \<Rightarrow> sr_arp_hdr \<Rightarrow> sr_if \<Rightarrow> fault + sr_instance" where
  "send_arp_reply env sr req_arp iface =
     (if \<not> env_malloc env (sizeof_eth + sizeof_arp) then Inr sr
      else case arp_frame (ar_sha req_arp)
          \<lparr>ar_hrd = htons arp_hrd_ethernet, ar_pro = htons ethertype_ip, ar_hln = 6, ar_pln = 4,
           ar_op = htons arp_op_reply, ar_sha = if_addr iface, ar_sip = if_ip iface,
           ar_tha = ar_sha req_arp, ar_tip = ar_sip req_arp\<rparr> of
        Inl f \<Rightarrow> Inl f
      | Inr buf \<Rightarrow> (case sr_send_packet env sr buf (if_name iface) of Inl f \<Rightarrow> Inl f | Inr (rc, sr') \<Rightarrow> Inr sr'))"

definition send_arp_request :: "sr_env \<Rightarrow> sr_instance \<Rightarrow> u32 \<Rightarrow> bytes \<Rightarrow> fault + sr_instance" where
  "send_arp_request env sr target_ip_nbo iface_name =
     (case sr_get_interface sr iface_name of None \<Rightarrow> Inr sr | Some iface \<Rightarrow>
        if \<not> env_malloc env (sizeof_eth + sizeof_arp) then Inr sr
        else case arp_frame (replicate 6 0xff)
            \<lparr>ar_hrd = htons arp_hrd_ethernet, ar_pro = htons ethertype_ip, ar_hln = 6, ar_pln = 4,
             ar_op = htons arp_op_request, ar_sha = if_addr iface, ar_sip = if_ip iface,
             ar_tha = replicate 6 0, ar_tip = target_ip_nbo\<rparr> of
          Inl f \<Rightarrow> Inl f
        | Inr buf \<Rightarrow> (case sr_send_packet env sr buf (if_name iface) of Inl f \<Rightarrow> Inl f | Inr (rc, sr') \<Rightarrow> Inr sr'))"

section \<open>Routing, ICMP errors and the retry handler\<close>

type_synonym arpreq_handler = "sr_instance \<Rightarrow> addr \<Rightarrow> fault + sr_instance"

definition route_and_send_with ::
    "arpreq_handler \<Rightarrow> sr_env \<Rightarrow> sr_instance \<Rightarrow> bytes \<Rightarrow> fault + (int \<times> sr_instance)" where
  "route_and_send_with handle env sr frame =
     (if length frame < sizeof_eth + sizeof_ip then Inr (- 1, sr)
      else case get_ip frame sizeof_eth of Inl f \<Rightarrow> Inl f | Inr ip \<Rightarrow>
        (case rt_exact_match sr (ip_dst ip) of None \<Rightarrow> Inr (- 1, sr) | Some rt \<Rightarrow>
          (case sr_get_interface sr (rt_interface rt) of None \<Rightarrow> Inr (- 1, sr) | Some out_iface \<Rightarrow>
            let next_hop = (if rt_gw rt = 0 then ip_dst ip else rt_gw rt) in
            case get_eth frame 0 of Inl f \<Rightarrow> Inl f | Inr eth \<Rightarrow>
              (case put_eth frame 0 (eth\<lparr>ether_shost := if_addr out_iface, ether_type := htons ethertype_ip\<rparr>) of
                 Inl f \<Rightarrow> Inl f
               | Inr frame1 \<Rightarrow>
                   (case sr_arpcache_queuereq env (cache sr) next_hop frame1 (if_name out_iface) of
                      Inl f \<Rightarrow> Inl f
                    | Inr (req, c) \<Rightarrow>
                        (case handle (sr\<lparr>cache := c\<rparr>) req of Inl f \<Rightarrow> Inl f | Inr sr' \<Rightarrow> Inr (0, sr')))))))"

text \<open>The source address of an ICMP error: the given one, or that of the interface of the route back.\<close>

definition icmp_error_source :: "sr_instance \<Rightarrow> sr_ip_hdr \<Rightarrow> u32 \<Rightarrow> u32" where
  "icmp_error_source sr orig_ip src_ip_nbo =
     (if src_ip_nbo = 0
      then (case rt_exact_match sr (ip_src orig_ip) of None \<Rightarrow> 0 | Some back \<Rightarrow>
             (case sr_get_interface sr (rt_interface back) of None \<Rightarrow> 0 | Some out_iface \<Rightarrow> if_ip out_iface))
      else src_ip_nbo)"

definition put_ip_with_sum :: "bytes \<Rightarrow> nat \<Rightarrow> nat \<Rightarrow> sr_ip_hdr \<Rightarrow> fault + bytes" where
  "put_ip_with_sum buf off hdr_len ip =
     (case put_ip buf off (ip\<lparr>ip_sum := 0\<rparr>) of Inl f \<Rightarrow> Inl f | Inr buf1 \<Rightarrow>
        (case rd_bytes buf1 off hdr_len of Inl f \<Rightarrow> Inl f | Inr hdr \<Rightarrow>
           put_ip buf1 off (ip\<lparr>ip_sum := cksum hdr\<rparr>)))"

definition icmp_error_frame :: "sr_ip_hdr \<Rightarrow> bytes \<Rightarrow> u8 \<Rightarrow> u8 \<Rightarrow> u32 \<Rightarrow> fault + bytes" where
  "icmp_error_frame orig_ip orig type code src_ip_nbo =
     (let buf = replicate (sizeof_eth + sizeof_ip + sizeof_t11) 0;
          ip = \<lparr>ip_hl = 5, ip_v = 4, ip_tos = 0, ip_len = htons (word_of_nat (sizeof_ip + sizeof_t11)),
                ip_id = 0, ip_off = htons IP_DF, ip_ttl = INIT_TTL, ip_p = ip_protocol_icmp,
                ip_sum = 0, ip_src = src_ip_nbo, ip_dst = ip_src orig_ip\<rparr>
      in case put_ip_with_sum buf sizeof_eth sizeof_ip ip of Inl f \<Rightarrow> Inl f | Inr buf1 \<Rightarrow>
        (case rd_bytes orig sizeof_eth ICMP_DATA_SIZE of Inl f \<Rightarrow> Inl f | Inr data \<Rightarrow>
           let icmp = \<lparr>icmp11_type = type, icmp11_code = code, icmp11_sum = 0, icmp11_unused = 0, icmp11_data = data\<rparr> in
           case put_t11 buf1 (sizeof_eth + sizeof_ip) icmp of Inl f \<Rightarrow> Inl f | Inr buf2 \<Rightarrow>
             (case rd_bytes buf2 (sizeof_eth + sizeof_ip) sizeof_t11 of Inl f \<Rightarrow> Inl f | Inr icmp_bytes \<Rightarrow>
                put_t11 buf2 (sizeof_eth + sizeof_ip) (icmp\<lparr>icmp11_sum := cksum icmp_bytes\<rparr>))))"

definition send_icmp_error_with ::
    "arpreq_handler \<Rightarrow> sr_env \<Rightarrow> sr_instance \<Rightarrow> u8 \<Rightarrow> u8 \<Rightarrow> bytes \<Rightarrow> u32 \<Rightarrow> fault + sr_instance" where
  "send_icmp_error_with handle env sr type code orig src_ip_nbo =
     (if length orig < sizeof_eth + sizeof_ip then Inr sr
      else case get_ip orig sizeof_eth of Inl f \<Rightarrow> Inl f | Inr orig_ip \<Rightarrow>
        let src = icmp_error_source sr orig_ip src_ip_nbo in
        if src = 0 then Inr sr
        else if \<not> env_malloc env (sizeof_eth + sizeof_ip + sizeof_t11) then Inr sr
        else (case icmp_error_frame orig_ip orig type code src of Inl f \<Rightarrow> Inl f | Inr buf \<Rightarrow>
          (case route_and_send_with handle env sr buf of Inl f \<Rightarrow> Inl f | Inr (rc, sr') \<Rightarrow> Inr sr')))"

text \<open>
  The give-up loop of \<^verbatim>\<open>handle_arpreq\<close> walks the packet list of a request through a pointer into
  it: if a nested call has freed the request, the next step of the walk reads freed memory.
\<close>

fun unreachable_loop ::
    "arpreq_handler \<Rightarrow> sr_env \<Rightarrow> sr_instance \<Rightarrow> addr \<Rightarrow> sr_packet list \<Rightarrow> fault + sr_instance" where
  "unreachable_loop handle env sr req [] = Inr sr"
| "unreachable_loop handle env sr req (pkt # pkts) =
     (case deref_req (cache sr) req of Inl f \<Rightarrow> Inl f | Inr _ \<Rightarrow>
        if length (pkt_buf pkt) < sizeof_eth + sizeof_ip then unreachable_loop handle env sr req pkts
        else case send_icmp_error_with handle env sr 3 1 (pkt_buf pkt) 0 of Inl f \<Rightarrow> Inl f
          | Inr sr' \<Rightarrow> unreachable_loop handle env sr' req pkts)"

definition handle_arpreq_body :: "arpreq_handler \<Rightarrow> sr_env \<Rightarrow> arpreq_handler" where
  "handle_arpreq_body handle env sr a =
     (case deref_req (cache sr) a of Inl f \<Rightarrow> Inl f | Inr req \<Rightarrow>
        if env_time env - req_sent req < 1 then Inr sr
        else if 5 \<le> req_times_sent req then
          (case unreachable_loop handle env sr a (req_packets req) of Inl f \<Rightarrow> Inl f | Inr sr1 \<Rightarrow>
             (case deref_req (cache sr1) a of Inl f \<Rightarrow> Inl f
              | Inr _ \<Rightarrow> Inr (sr1\<lparr>cache := sr_arpreq_destroy (cache sr1) a\<rparr>)))
        else
          (case (case req_packets req of [] \<Rightarrow> Inr sr
                 | pkt # _ \<Rightarrow> send_arp_request env sr (req_ip req) (pkt_iface pkt)) of Inl f \<Rightarrow> Inl f
           | Inr sr1 \<Rightarrow>
               Inr (sr1\<lparr>cache := (cache sr1)\<lparr>requests := update_req (requests (cache sr1)) a
                 (\<lambda>r. r\<lparr>req_sent := env_time env, req_times_sent := req_times_sent r + 1\<rparr>)\<rparr>\<rparr>)))"

fun handle_arpreq :: "sr_env \<Rightarrow> nat \<Rightarrow> arpreq_handler" where
  "handle_arpreq env 0 = (\<lambda>sr a. Inl OutOfFuel)"
| "handle_arpreq env (Suc depth) = handle_arpreq_body (handle_arpreq env depth) env"

definition route_and_send :: "sr_env \<Rightarrow> nat \<Rightarrow> sr_instance \<Rightarrow> bytes \<Rightarrow> fault + (int \<times> sr_instance)" where
  "route_and_send env depth = route_and_send_with (handle_arpreq env depth) env"

definition send_icmp_error ::
    "sr_env \<Rightarrow> nat \<Rightarrow> sr_instance \<Rightarrow> u8 \<Rightarrow> u8 \<Rightarrow> bytes \<Rightarrow> u32 \<Rightarrow> fault + sr_instance" where
  "send_icmp_error env depth = send_icmp_error_with (handle_arpreq env depth) env"

section \<open>The sweeper\<close>

text \<open>
  \<^verbatim>\<open>sr_arpcache_sweepreqs\<close> follows the links of the queue, reading the next pointer before it
  handles a request.  The second bound counts the visited requests.
\<close>

fun next_req :: "(addr \<times> sr_arpreq) list \<Rightarrow> addr \<Rightarrow> addr option" where
  "next_req [] a = None"
| "next_req ((b, r) # rest) a =
     (if b = a then (case rest of [] \<Rightarrow> None | (c, q) # _ \<Rightarrow> Some c) else next_req rest a)"

definition first_req :: "sr_arpcache \<Rightarrow> addr option" where
  "first_req c = (case requests c of [] \<Rightarrow> None | (a, r) # _ \<Rightarrow> Some a)"

fun sweep_walk :: "sr_env \<Rightarrow> nat \<Rightarrow> nat \<Rightarrow> sr_instance \<Rightarrow> addr option \<Rightarrow> fault + sr_instance" where
  "sweep_walk env depth visits sr None = Inr sr"
| "sweep_walk env depth 0 sr (Some req) = Inl OutOfFuel"
| "sweep_walk env depth (Suc visits) sr (Some req) =
     (case deref_req (cache sr) req of Inl f \<Rightarrow> Inl f | Inr _ \<Rightarrow>
        let nxt = next_req (requests (cache sr)) req in
        case handle_arpreq env depth sr req of Inl f \<Rightarrow> Inl f
        | Inr sr' \<Rightarrow> sweep_walk env depth visits sr' nxt)"

definition sr_arpcache_sweepreqs :: "sr_env \<Rightarrow> nat \<Rightarrow> sr_instance \<Rightarrow> fault + sr_instance" where
  "sr_arpcache_sweepreqs env depth sr =
     sweep_walk env depth (length (requests (cache sr))) sr (first_req (cache sr))"

text \<open>One round of the loop of \<^verbatim>\<open>sr_arpcache_timeout\<close>, after its sleep of one second.\<close>

definition sr_arpcache_timeout_round :: "sr_env \<Rightarrow> nat \<Rightarrow> sr_instance \<Rightarrow> fault + sr_instance" where
  "sr_arpcache_timeout_round env depth sr =
     sr_arpcache_sweepreqs env depth (sr\<lparr>cache := expire_entries (env_time env) (cache sr)\<rparr>)"

definition sr_init :: "sr_instance \<Rightarrow> sr_instance" where
  "sr_init sr = sr\<lparr>cache := sr_arpcache_init (cache sr)\<rparr>"

section \<open>Received ARP frames\<close>

fun drain_packets :: "sr_env \<Rightarrow> sr_instance \<Rightarrow> bytes \<Rightarrow> sr_packet list \<Rightarrow> fault + sr_instance" where
  "drain_packets env sr sha [] = Inr sr"
| "drain_packets env sr sha (pkt # pkts) =
     (if length (pkt_buf pkt) < sizeof_eth then drain_packets env sr sha pkts
      else case get_eth (pkt_buf pkt) 0 of Inl f \<Rightarrow> Inl f | Inr eth \<Rightarrow>
        let eth1 = (case sr_get_interface sr (pkt_iface pkt) of None \<Rightarrow> eth
                    | Some out_iface \<Rightarrow> eth\<lparr>ether_shost := if_addr out_iface\<rparr>) in
        case put_eth (pkt_buf pkt) 0 (eth1\<lparr>ether_dhost := sha\<rparr>) of Inl f \<Rightarrow> Inl f | Inr buf \<Rightarrow>
          (case sr_send_packet env sr buf (pkt_iface pkt) of Inl f \<Rightarrow> Inl f
           | Inr (rc, sr') \<Rightarrow> drain_packets env sr' sha pkts))"

definition handle_arp_packet :: "sr_env \<Rightarrow> sr_instance \<Rightarrow> bytes \<Rightarrow> bytes \<Rightarrow> fault + sr_instance" where
  "handle_arp_packet env sr packet interface =
     (if length packet < sizeof_eth + sizeof_arp then Inr sr
      else case get_arp packet sizeof_eth of Inl f \<Rightarrow> Inl f | Inr arp \<Rightarrow>
        if ntohs (ar_hrd arp) \<noteq> arp_hrd_ethernet \<or> ntohs (ar_pro arp) \<noteq> ethertype_ip then Inr sr
        else case sr_get_interface sr interface of None \<Rightarrow> Inr sr | Some recv_iface \<Rightarrow>
          let op = ntohs (ar_op arp) in
          if op = arp_op_request then
            (if ar_tip arp = if_ip recv_iface then send_arp_reply env sr arp recv_iface else Inr sr)
          else if op = arp_op_reply then
            (let (req, c) = sr_arpcache_insert env (cache sr) (ar_sha arp) (ar_sip arp);
                 sr1 = sr\<lparr>cache := c\<rparr>
             in case req of None \<Rightarrow> Inr sr1 | Some (a, r) \<Rightarrow>
               (case drain_packets env sr1 (ar_sha arp) (req_packets r) of Inl f \<Rightarrow> Inl f
                | Inr sr2 \<Rightarrow> Inr (sr2\<lparr>cache := sr_arpreq_destroy (cache sr2) a\<rparr>)))
          else Inr sr)"

section \<open>Received IP frames\<close>

definition put_t08_with_sum :: "bytes \<Rightarrow> nat \<Rightarrow> sr_icmp_t08_hdr \<Rightarrow> fault + bytes" where
  "put_t08_with_sum buf off icmp =
     (case put_t08 buf off (icmp\<lparr>icmp_sum := 0\<rparr>) of Inl f \<Rightarrow> Inl f | Inr buf1 \<Rightarrow>
        (case rd_bytes buf1 off (length buf1 - off) of Inl f \<Rightarrow> Inl f | Inr region \<Rightarrow>
           put_t08 buf1 off (icmp\<lparr>icmp_sum := cksum region\<rparr>)))"

definition echo_reply_frame :: "bytes \<Rightarrow> fault + bytes" where
  "echo_reply_frame orig =
     (case get_ip orig sizeof_eth of Inl f \<Rightarrow> Inl f | Inr ip \<Rightarrow>
        let ip_hdr_len = unat (ip_hl ip) * 4 in
        case put_ip_with_sum orig sizeof_eth ip_hdr_len
            (ip\<lparr>ip_src := ip_dst ip, ip_dst := ip_src ip, ip_ttl := INIT_TTL\<rparr>) of Inl f \<Rightarrow> Inl f | Inr buf1 \<Rightarrow>
          (case get_t08 buf1 (sizeof_eth + ip_hdr_len) of Inl f \<Rightarrow> Inl f | Inr icmp \<Rightarrow>
             put_t08_with_sum buf1 (sizeof_eth + ip_hdr_len) (icmp\<lparr>icmp_type := 0, icmp_code := 0\<rparr>)))"

definition send_icmp_echo_reply :: "sr_env \<Rightarrow> nat \<Rightarrow> sr_instance \<Rightarrow> bytes \<Rightarrow> fault + sr_instance" where
  "send_icmp_echo_reply env depth sr orig =
     (if \<not> env_malloc env (length orig) then Inr sr
      else case echo_reply_frame orig of Inl f \<Rightarrow> Inl f | Inr buf \<Rightarrow>
        (case route_and_send env depth sr buf of Inl f \<Rightarrow> Inl f | Inr (rc, sr') \<Rightarrow> Inr sr'))"

text \<open>A frame for one of the router's own addresses: answer a valid echo request, drop the rest.\<close>

definition handle_local_ip :: "sr_env \<Rightarrow> nat \<Rightarrow> sr_instance \<Rightarrow> bytes \<Rightarrow> sr_ip_hdr \<Rightarrow> nat \<Rightarrow> fault + sr_instance" where
  "handle_local_ip env depth sr packet ip ip_hdr_len =
     (if ip_p ip = ip_protocol_icmp then
        let icmp_off = sizeof_eth + ip_hdr_len in
        if length packet < icmp_off + sizeof_t08 then Inr sr
        else case get_t08 packet icmp_off of Inl f \<Rightarrow> Inl f | Inr icmp \<Rightarrow>
          if icmp_type icmp = 8 then
            (let icmp_len = length packet - icmp_off; orig = icmp_sum icmp in
             case put_t08 packet icmp_off (icmp\<lparr>icmp_sum := 0\<rparr>) of Inl f \<Rightarrow> Inl f | Inr zeroed \<Rightarrow>
               (case rd_bytes zeroed icmp_off icmp_len of Inl f \<Rightarrow> Inl f | Inr region \<Rightarrow>
                  if orig \<noteq> cksum region then Inr sr
                  else send_icmp_echo_reply env depth sr packet))
          else Inr sr
      else Inr sr)"

text \<open>A frame for somebody else: time exceeded, or forward with decremented TTL, or net unreachable.\<close>

definition in_iface_ip :: "sr_instance \<Rightarrow> bytes \<Rightarrow> u32" where
  "in_iface_ip sr interface = (case sr_get_interface sr interface of None \<Rightarrow> 0 | Some in_iface \<Rightarrow> if_ip in_iface)"

definition forward_ip ::
    "sr_env \<Rightarrow> nat \<Rightarrow> sr_instance \<Rightarrow> bytes \<Rightarrow> bytes \<Rightarrow> sr_ip_hdr \<Rightarrow> nat \<Rightarrow> fault + sr_instance" where
  "forward_ip env depth sr packet interface ip ip_hdr_len =
     (if ip_ttl ip \<le> 1 then send_icmp_error env depth sr 11 0 packet (in_iface_ip sr interface)
      else if \<not> env_malloc env (length packet) then Inr sr
      else case put_ip_with_sum packet sizeof_eth ip_hdr_len (ip\<lparr>ip_ttl := ip_ttl ip - 1\<rparr>) of Inl f \<Rightarrow> Inl f
        | Inr frame \<Rightarrow>
            (case route_and_send env depth sr frame of Inl f \<Rightarrow> Inl f | Inr (rc, sr') \<Rightarrow>
               if rc < 0 then send_icmp_error env depth sr' 3 0 packet (in_iface_ip sr' interface)
               else Inr sr'))"

definition handle_ip_packet :: "sr_env \<Rightarrow> nat \<Rightarrow> sr_instance \<Rightarrow> bytes \<Rightarrow> bytes \<Rightarrow> fault + sr_instance" where
  "handle_ip_packet env depth sr packet interface =
     (if length packet < sizeof_eth + sizeof_ip then Inr sr
      else case get_ip packet sizeof_eth of Inl f \<Rightarrow> Inl f | Inr ip \<Rightarrow>
        let ip_hdr_len = unat (ip_hl ip) * 4 in
        if ip_hdr_len < sizeof_ip then Inr sr
        else if length packet < sizeof_eth + ip_hdr_len then Inr sr
        else if unat (ntohs (ip_len ip)) < ip_hdr_len then Inr sr
        else case put_ip packet sizeof_eth (ip\<lparr>ip_sum := 0\<rparr>) of Inl f \<Rightarrow> Inl f | Inr zeroed \<Rightarrow>
          (case rd_bytes zeroed sizeof_eth ip_hdr_len of Inl f \<Rightarrow> Inl f | Inr hdr \<Rightarrow>
             if ip_sum ip \<noteq> cksum hdr then Inr sr
             else case find_iface_for_ip sr (ip_dst ip) of
                 Some for_iface \<Rightarrow> handle_local_ip env depth sr packet ip ip_hdr_len
               | None \<Rightarrow> forward_ip env depth sr packet interface ip ip_hdr_len))"

definition sr_handlepacket :: "sr_env \<Rightarrow> nat \<Rightarrow> sr_instance \<Rightarrow> bytes \<Rightarrow> bytes \<Rightarrow> fault + sr_instance" where
  "sr_handlepacket env depth sr packet interface =
     (if length packet < sizeof_eth then Inr sr
      else case ethertype packet of Inl f \<Rightarrow> Inl f | Inr etype \<Rightarrow>
        if etype = ethertype_arp then handle_arp_packet env sr packet interface
        else if etype = ethertype_ip then handle_ip_packet env depth sr packet interface
        else Inr sr)"

end
