(* ===== verification/SR_Print.thy ===== *)
theory SR_Print
  imports SR_Rt
begin

unbundle bit_operations_syntax

text \<open>
  The text the program prints: the header printers of \<^verbatim>\<open>sr_utils.c\<close>, the interface list of
  \<^verbatim>\<open>sr_if.c\<close>, the routing table of \<^verbatim>\<open>sr_rt.c\<close>, and the conversions of the C library they use
  (\<^verbatim>\<open>%d\<close>, \<^verbatim>\<open>%02X\<close>, \<^verbatim>\<open>%s\<close>, \<^verbatim>\<open>inet_ntoa\<close>).  A printer is a function to the bytes it writes, or
  to the fault of a read outside the buffer it is given; \<^verbatim>\<open>%s\<close> on an array without a NUL is such
  a read.
\<close>

section \<open>Conversions\<close>

abbreviation nl :: bytes where "nl \<equiv> [10]"
abbreviation tab :: bytes where "tab \<equiv> [9]"

definition digit_char :: "nat \<Rightarrow> u8" where
  "digit_char n = word_of_nat (48 + n)"

fun dec :: "nat \<Rightarrow> bytes" where
  "dec n = (if n < 10 then [digit_char n] else dec (n div 10) @ [digit_char (n mod 10)])"

declare dec.simps [simp del]

definition hex_digit :: "nat \<Rightarrow> nat \<Rightarrow> u8" where
  "hex_digit ten n = word_of_nat (if n < 10 then 48 + n else ten + (n - 10))"

definition hex02 :: "nat \<Rightarrow> u8 \<Rightarrow> bytes" where
  "hex02 ten b = [hex_digit ten (unat b div 16), hex_digit ten (unat b mod 16)]"

text \<open>\<^verbatim>\<open>%s\<close> and \<^verbatim>\<open>strlen\<close> on an array: the string up to its NUL, which must be there.\<close>

definition c_string :: "bytes \<Rightarrow> fault + bytes" where
  "c_string s = (if 0 \<in> set s then Inr (cstr s) else Inl OutOfBounds)"

text \<open>\<^verbatim>\<open>inet_ntoa\<close>: the four bytes of the address in memory order, in decimal.\<close>

definition inet_ntoa :: "u32 \<Rightarrow> bytes" where
  "inet_ntoa a = (case le32 a of [b0, b1, b2, b3] \<Rightarrow>
     dec (unat b0) @ [46] @ dec (unat b1) @ [46] @ dec (unat b2) @ [46] @ dec (unat b3))"

section \<open>Header printers\<close>

text \<open>\<^verbatim>\<open>print_addr_eth\<close>: the loop over the address bytes with its position.\<close>

fun print_addr_eth_from :: "nat \<Rightarrow> bytes \<Rightarrow> bytes" where
  "print_addr_eth_from pos [] = nl"
| "print_addr_eth_from pos (cur # rest) =
     (if pos > 0 then str_bytes '':'' else []) @ hex02 65 cur @ print_addr_eth_from (Suc pos) rest"

definition print_addr_eth :: "bytes \<Rightarrow> bytes" where
  "print_addr_eth addr = print_addr_eth_from 0 (take ETHER_ADDR_LEN addr)"

definition print_addr_ip :: "u32 \<Rightarrow> bytes" where
  "print_addr_ip address = inet_ntoa address @ nl"

definition print_addr_ip_int :: "u32 \<Rightarrow> bytes" where
  "print_addr_ip_int ip =
     dec (unat (drop_bit 24 ip)) @ str_bytes ''.'' @
     dec (unat (drop_bit 24 (push_bit 8 ip))) @ str_bytes ''.'' @
     dec (unat (drop_bit 24 (push_bit 16 ip))) @ str_bytes ''.'' @
     dec (unat (drop_bit 24 (push_bit 24 ip))) @ nl"

definition field :: "string \<Rightarrow> nat \<Rightarrow> bytes" where
  "field label n = tab @ str_bytes label @ str_bytes '': '' @ dec n @ nl"

definition print_hdr_eth :: "bytes \<Rightarrow> fault + bytes" where
  "print_hdr_eth buf =
     (case get_eth buf 0 of Inl f \<Rightarrow> Inl f | Inr ehdr \<Rightarrow>
        Inr (str_bytes ''ETHERNET header:'' @ nl @
             tab @ str_bytes ''destination: '' @ print_addr_eth (ether_dhost ehdr) @
             tab @ str_bytes ''source: '' @ print_addr_eth (ether_shost ehdr) @
             field ''type'' (unat (ntohs (ether_type ehdr)))))"

definition IP_RF :: u16 where "IP_RF = 0x8000"
definition IP_MF :: u16 where "IP_MF = 0x2000"
definition IP_OFFMASK :: u16 where "IP_OFFMASK = 0x1fff"

definition print_hdr_ip :: "bytes \<Rightarrow> fault + bytes" where
  "print_hdr_ip buf =
     (case get_ip buf 0 of Inl f \<Rightarrow> Inl f | Inr iphdr \<Rightarrow>
        let off = ntohs (ip_off iphdr) in
        Inr (str_bytes ''IP header:'' @ nl @
             field ''version'' (unat (ip_v iphdr)) @
             field ''header length'' (unat (ip_hl iphdr)) @
             field ''type of service'' (unat (ip_tos iphdr)) @
             field ''length'' (unat (ntohs (ip_len iphdr))) @
             field ''id'' (unat (ntohs (ip_id iphdr))) @
             (if off AND IP_DF \<noteq> 0 then tab @ str_bytes ''fragment flag: DF'' @ nl
              else if off AND IP_MF \<noteq> 0 then tab @ str_bytes ''fragment flag: MF'' @ nl
              else if off AND IP_RF \<noteq> 0 then tab @ str_bytes ''fragment flag: R'' @ nl else []) @
             field ''fragment offset'' (unat (off AND IP_OFFMASK)) @
             field ''TTL'' (unat (ip_ttl iphdr)) @
             field ''protocol'' (unat (ip_p iphdr)) @
             field ''checksum'' (unat (ip_sum iphdr)) @
             tab @ str_bytes ''source: '' @ print_addr_ip_int (ntohl (ip_src iphdr)) @
             tab @ str_bytes ''destination: '' @ print_addr_ip_int (ntohl (ip_dst iphdr))))"

text \<open>
  \<^verbatim>\<open>print_hdr_icmp\<close>: the type decides which structure is read; the checksum, identifier and
  sequence number are printed as the host loads them.
\<close>

definition print_hdr_icmp :: "bytes \<Rightarrow> fault + bytes" where
  "print_hdr_icmp buf =
     (case rd_bytes buf 0 1 of Inl f \<Rightarrow> Inl f | Inr t \<Rightarrow>
        if t ! 0 = 0 \<or> t ! 0 = 8 then
          (case get_t08 buf 0 of Inl f \<Rightarrow> Inl f | Inr icmp_t08_hdr \<Rightarrow>
             Inr (str_bytes ''ICMP Echo header:'' @ nl @
                  field ''type'' (unat (icmp_type icmp_t08_hdr)) @
                  field ''code'' (unat (icmp_code icmp_t08_hdr)) @
                  field ''checksum'' (unat (icmp_sum icmp_t08_hdr)) @
                  field ''identifier'' (unat (icmp_id icmp_t08_hdr)) @
                  field ''sequence number'' (unat (icmp_seq icmp_t08_hdr))))
        else
          (case rd_bytes buf 0 4 of Inl f \<Rightarrow> Inl f | Inr h \<Rightarrow>
             Inr (str_bytes ''ICMP header:'' @ nl @
                  field ''type'' (unat (h ! 0)) @
                  field ''code'' (unat (h ! 1)) @
                  field ''checksum'' (unat (ld16 h 2)))))"

definition print_hdr_arp :: "bytes \<Rightarrow> fault + bytes" where
  "print_hdr_arp buf =
     (case get_arp buf 0 of Inl f \<Rightarrow> Inl f | Inr arp_hdr \<Rightarrow>
        Inr (str_bytes ''ARP header'' @ nl @
             field ''hardware type'' (unat (ntohs (ar_hrd arp_hdr))) @
             field ''protocol type'' (unat (ntohs (ar_pro arp_hdr))) @
             field ''hardware address length'' (unat (ar_hln arp_hdr)) @
             field ''protocol address length'' (unat (ar_pln arp_hdr)) @
             field ''opcode'' (unat (ntohs (ar_op arp_hdr))) @
             tab @ str_bytes ''sender hardware address: '' @ print_addr_eth (ar_sha arp_hdr) @
             tab @ str_bytes ''sender ip address: '' @ print_addr_ip_int (ntohl (ar_sip arp_hdr)) @
             tab @ str_bytes ''target hardware address: '' @ print_addr_eth (ar_tha arp_hdr) @
             tab @ str_bytes ''target ip address: '' @ print_addr_ip_int (ntohl (ar_tip arp_hdr))))"

text \<open>
  \<^verbatim>\<open>print_hdrs\<close>: the buffer and the length it is said to have; every header is printed after a
  check of the length.  \<open>append_text\<close> prints one text after another.
\<close>

definition append_text :: "fault + bytes \<Rightarrow> fault + bytes \<Rightarrow> fault + bytes" where
  "append_text r s = (case r of Inl f \<Rightarrow> Inl f | Inr a \<Rightarrow> (case s of Inl f \<Rightarrow> Inl f | Inr b \<Rightarrow> Inr (a @ b)))"

definition message :: "string \<Rightarrow> bytes" where
  "message s = str_bytes s @ nl"

definition print_hdrs :: "bytes \<Rightarrow> nat \<Rightarrow> fault + bytes" where
  "print_hdrs buf len =
     (if len < sizeof_eth then Inr (message ''Failed to print ETHERNET header, insufficient length'')
      else case ethertype buf of Inl f \<Rightarrow> Inl f | Inr ethtype \<Rightarrow>
        append_text (print_hdr_eth buf)
          (if ethtype = ethertype_ip then
             if len < sizeof_eth + sizeof_ip then Inr (message ''Failed to print IP header, insufficient length'')
             else append_text (print_hdr_ip (drop sizeof_eth buf))
               (case ip_protocol (drop sizeof_eth buf) of Inl f \<Rightarrow> Inl f | Inr ip_proto \<Rightarrow>
                  if ip_proto = ip_protocol_icmp then
                    if len < sizeof_eth + sizeof_ip + 4
                    then Inr (message ''Failed to print ICMP header, insufficient length'')
                    else print_hdr_icmp (drop (sizeof_eth + sizeof_ip) buf)
                  else Inr [])
           else if ethtype = ethertype_arp then
             if len < sizeof_eth + sizeof_arp then Inr (message ''Failed to print ARP header, insufficient length'')
             else print_hdr_arp (drop sizeof_eth buf)
           else Inr (str_bytes ''Unrecognized Ethernet Type: '' @ dec (unat ethtype) @ nl)))"

section \<open>Interfaces and routes\<close>

text \<open>\<^verbatim>\<open>DebugMAC\<close> and \<^verbatim>\<open>sr_print_if\<close>; the build defines \<^verbatim>\<open>_DEBUG_\<close>.\<close>

definition DebugMAC :: "bytes \<Rightarrow> bytes" where
  "DebugMAC x = concat (map (\<lambda>b. hex02 97 b @ str_bytes '':'') (take 5 x)) @ hex02 97 (x ! 5)"

definition sr_print_if :: "sr_if \<Rightarrow> fault + bytes" where
  "sr_print_if iface =
     (case c_string (if_name iface) of Inl f \<Rightarrow> Inl f | Inr name \<Rightarrow>
        Inr (name @ tab @ str_bytes ''HWaddr'' @ DebugMAC (if_addr iface) @ nl @
             tab @ str_bytes ''inet addr '' @ inet_ntoa (if_ip iface) @ nl))"

fun print_if_walk :: "sr_if list \<Rightarrow> fault + bytes" where
  "print_if_walk [] = Inr []"
| "print_if_walk (i # rest) = append_text (sr_print_if i) (print_if_walk rest)"

definition sr_print_if_list :: "sr_instance \<Rightarrow> fault + bytes" where
  "sr_print_if_list sr =
     (if if_list sr = [] then Inr (message '' Interface list empty '') else print_if_walk (if_list sr))"

definition sr_print_routing_entry :: "sr_rt \<Rightarrow> fault + bytes" where
  "sr_print_routing_entry entry =
     (case c_string (rt_interface entry) of Inl f \<Rightarrow> Inl f | Inr name \<Rightarrow>
        Inr (inet_ntoa (rt_dest entry) @ tab @ tab @ inet_ntoa (rt_gw entry) @ tab @
             inet_ntoa (rt_mask entry) @ tab @ name @ nl))"

fun print_rt_walk :: "sr_rt list \<Rightarrow> fault + bytes" where
  "print_rt_walk [] = Inr []"
| "print_rt_walk (r # rest) = append_text (sr_print_routing_entry r) (print_rt_walk rest)"

definition sr_print_routing_table :: "sr_instance \<Rightarrow> fault + bytes" where
  "sr_print_routing_table sr =
     (if routing_table sr = [] then Inr (message '' *warning* Routing table empty '')
      else append_text
        (Inr (str_bytes ''Destination'' @ tab @ str_bytes ''Gateway'' @ tab @ tab @ str_bytes ''Mask'' @ tab @
              str_bytes ''Iface'' @ nl))
        (print_rt_walk (routing_table sr)))"

section \<open>Lemmas\<close>

lemma append_text_simps [simp]:
  "append_text (Inr a) (Inr b) = Inr (a @ b)" "append_text (Inl f) s = Inl f" "append_text r (Inl f) = Inl (case r of Inl g \<Rightarrow> g | Inr a \<Rightarrow> f)"
  by (simp_all add: append_text_def split: sum.splits)

lemma append_text_Inl: "append_text (Inr a) s = Inl f \<longleftrightarrow> s = Inl f"
  by (cases s) simp_all

lemma append_text_Inr: "append_text r s = Inr t \<longleftrightarrow> (\<exists>a b. r = Inr a \<and> s = Inr b \<and> t = a @ b)"
  by (auto simp: append_text_def split: sum.splits)

text \<open>The octets that \<^verbatim>\<open>print_addr_ip_int\<close> takes out by shifting are the bytes of the address in memory.\<close>

lemma shifted_octets:
  fixes a b c d :: u8
  shows "drop_bit 24 (htonl (of_le32 a b c d)) = ucast a"
    "drop_bit 24 (push_bit 8 (htonl (of_le32 a b c d))) = ucast b"
    "drop_bit 24 (push_bit 16 (htonl (of_le32 a b c d))) = ucast c"
    "drop_bit 24 (push_bit 24 (htonl (of_le32 a b c d))) = ucast d"
  unfolding htonl_def ucast_of_le32 by (rule bit_eqI, auto simp: of_le32_def bit_simps)+

text \<open>
  \<^verbatim>\<open>print_addr_ip_int\<close> on an address in host byte order prints what \<^verbatim>\<open>print_addr_ip\<close> prints on
  the address as it is stored in a header: the shifts and \<^verbatim>\<open>inet_ntop\<close> give the same dotted form.
\<close>

lemma print_addr_ip_int_dotted: "print_addr_ip_int (ntohl a) = print_addr_ip a"
proof -
  obtain b0 b1 b2 b3 where "a = of_le32 b0 b1 b2 b3"
    using of_le32_ucast [of a] by metis
  moreover have "unat (ucast b :: u32) = unat b" for b :: u8
    using unat_u8_less [of b] by (simp add: unsigned_ucast_eq take_bit_eq_mod)
  ultimately show ?thesis
    by (simp add: print_addr_ip_int_def print_addr_ip_def inet_ntoa_def le32_def shifted_octets
        str_bytes_def del: unsigned_ucast_eq)
qed

lemma print_hdr_icmp_Inl:
  "4 \<le> length buf \<Longrightarrow> print_hdr_icmp buf = Inl f \<longleftrightarrow> f = OutOfBounds \<and> length buf < 8 \<and> (buf ! 0 = 0 \<or> buf ! 0 = 8)"
  by (auto simp: print_hdr_icmp_def get_struct_def rd_bytes_def layout)

text \<open>
  C38.  \<^verbatim>\<open>print_hdrs\<close> stays inside a frame of the given length with one exception: an ICMP echo
  message is printed with its identifier and sequence number after a check for the first four bytes
  of the ICMP header only, so an IP frame of 38 to 41 bytes that carries one is read past its end.
\<close>

theorem print_hdrs_in_bounds:
  "print_hdrs buf (length buf) = Inl f \<longleftrightarrow>
     f = OutOfBounds \<and> 38 \<le> length buf \<and> length buf < 42 \<and>
     ethertype buf = Inr ethertype_ip \<and> ip_protocol (drop 14 buf) = Inr ip_protocol_icmp \<and>
     (buf ! 34 = 0 \<or> buf ! 34 = 8)"
proof (cases "length buf < 14")
  case True
  then show ?thesis by (simp add: print_hdrs_def layout)
next
  case False
  then have eth: "get_eth buf 0 = Inr (eth_hdr_of (take 14 buf))"
    using eth.get_in [of 0 buf] by (simp add: layout)
  have ip: "get_ip (drop 14 buf) 0 = Inr (ip_hdr_of (take 20 (drop 14 buf)))" if "34 \<le> length buf"
    using that iph.get_in [of 0 "drop 14 buf"] by (simp add: layout)
  have arp: "get_arp (drop 14 buf) 0 = Inr (arp_hdr_of (take 28 (drop 14 buf)))" if "42 \<le> length buf"
    using that arp.get_in [of 0 "drop 14 buf"] by (simp add: layout)
  have icmp: "print_hdr_icmp (drop 34 buf) = Inl f \<longleftrightarrow> f = OutOfBounds \<and> length buf < 42 \<and> (buf ! 34 = 0 \<or> buf ! 34 = 8)"
    if "38 \<le> length buf" using that print_hdr_icmp_Inl [of "drop 34 buf" f] by auto
  have ne: "ethertype_arp \<noteq> ethertype_ip" by (simp add: protocol_consts)
  show ?thesis
    using False eth ip arp icmp ne
    by (auto simp: print_hdrs_def ethertype_def ip_protocol_def print_hdr_eth_def print_hdr_ip_def print_hdr_arp_def
        append_text_Inl Let_def sizeof_eth_def sizeof_ip_def sizeof_arp_def not_less split: if_splits)
qed

end
