(* ===== verification/SR_Load_Rt.thy ===== *)
theory SR_Load_Rt
  imports SR_Print
begin

unbundle bit_operations_syntax

text \<open>
  \<^verbatim>\<open>sr_load_rt\<close> of \<^verbatim>\<open>sr_rt.c\<close>: the routing table is read from a text file, one route a line,
  with \<^verbatim>\<open>fgets\<close>, \<^verbatim>\<open>sscanf\<close> and \<^verbatim>\<open>inet_aton\<close>, whose behaviour on the arguments used here is
  written out.  The four \<^verbatim>\<open>char[32]\<close> arrays that \<^verbatim>\<open>sscanf\<close> fills live outside the loop: a line
  with fewer than four words leaves the rest of them as the line before left them, and a word of 32
  characters or more is written past the end of its array.
\<close>

section \<open>The C library\<close>

text \<open>\<^verbatim>\<open>fgets\<close> with room for \<open>n\<close> characters: at most that many, up to and with the first newline.\<close>

definition fgets :: "nat \<Rightarrow> bytes \<Rightarrow> bytes \<times> bytes" where
  "fgets n fp = (let m = min n (Suc (length (takeWhile (\<lambda>c. c \<noteq> 10) fp))) in (take m fp, drop m fp))"

definition isspace :: "u8 \<Rightarrow> bool" where
  "isspace c \<longleftrightarrow> c = 32 \<or> 9 \<le> c \<and> c \<le> 13"

text \<open>
  \<^verbatim>\<open>sscanf\<close> with one \<^verbatim>\<open>%s\<close> for each array: white space is skipped, the word is stored with a NUL,
  and the conversion stops at the end of the string.
\<close>

fun scan_strings :: "bytes \<Rightarrow> bytes list \<Rightarrow> fault + bytes list" where
  "scan_strings s [] = Inr []"
| "scan_strings s (buf # bufs) =
     (let s1 = dropWhile isspace s; word = takeWhile (\<lambda>c. \<not> isspace c) s1 in
      if word = [] then Inr (buf # bufs)
      else case wr_bytes buf 0 (word @ [0]) of Inl f \<Rightarrow> Inl f | Inr buf1 \<Rightarrow>
        (case scan_strings (dropWhile (\<lambda>c. \<not> isspace c) s1) bufs of Inl f \<Rightarrow> Inl f
         | Inr bufs1 \<Rightarrow> Inr (buf1 # bufs1)))"

text \<open>
  \<^verbatim>\<open>strtoul\<close> with base 0 on a string that starts with a digit: \<^verbatim>\<open>0x\<close> and a hexadecimal digit
  select base 16, a leading \<^verbatim>\<open>0\<close> base 8, anything else base 10.  The value is not bounded here;
  \<^verbatim>\<open>inet_aton\<close> rejects one that does not fit into 32 bits, which covers the overflow of
  \<^verbatim>\<open>strtoul\<close>.
\<close>

definition digit_val :: "u8 \<Rightarrow> nat" where
  "digit_val c =
     (if 48 \<le> c \<and> c \<le> 57 then unat c - 48
      else if 97 \<le> c \<and> c \<le> 102 then unat c - 87
      else if 65 \<le> c \<and> c \<le> 70 then unat c - 55 else 99)"

definition isdigit :: "u8 \<Rightarrow> bool" where
  "isdigit c \<longleftrightarrow> 48 \<le> c \<and> c \<le> 57"

definition number :: "nat \<Rightarrow> bytes \<Rightarrow> nat \<times> bytes" where
  "number b s = (let ds = takeWhile (\<lambda>c. digit_val c < b) s in
     (foldl (\<lambda>acc c. acc * b + digit_val c) 0 ds, drop (length ds) s))"

definition strtoul :: "bytes \<Rightarrow> nat \<times> bytes" where
  "strtoul s =
     (case s of z # x # d # rest \<Rightarrow>
          if z = 48 \<and> (x = 120 \<or> x = 88) \<and> digit_val d < 16 then number 16 (d # rest)
          else if z = 48 then number 8 s else number 10 s
      | z # rest \<Rightarrow> if z = 48 then number 8 s else number 10 s
      | [] \<Rightarrow> (0, []))"

text \<open>
  \<^verbatim>\<open>inet_aton\<close> of glibc: up to three parts followed by a dot, each a byte, and a last part that
  fills the bytes that are left; after it the string ends or goes on with white space.
\<close>

function aton_loop :: "nat list \<Rightarrow> bytes \<Rightarrow> (nat list \<times> nat \<times> bytes) option" where
  "aton_loop pp cp =
     (if cp = [] \<or> \<not> isdigit (hd cp) then None
      else case strtoul cp of (val, rest) \<Rightarrow>
        if val > 0xffffffff then None
        else if rest \<noteq> [] \<and> hd rest = 46 then
          if length pp > 2 \<or> val > 0xff then None else aton_loop (pp @ [val]) (tl rest)
        else Some (pp, val, rest))"
  by pat_completeness auto
termination
  by (relation "measure (\<lambda>(pp, cp). 4 - length pp)") auto

declare aton_loop.simps [simp del]

definition part_max :: "nat \<Rightarrow> nat" where
  "part_max n = [0xffffffff, 0xffffff, 0xffff, 0xff] ! n"

definition inet_aton :: "bytes \<Rightarrow> u32 option" where
  "inet_aton s =
     (case aton_loop [] s of None \<Rightarrow> None | Some (pp, val, rest) \<Rightarrow>
        if rest \<noteq> [] \<and> \<not> (hd rest < 128 \<and> isspace (hd rest)) then None
        else if val > part_max (length pp) then None
        else let b = map word_of_nat (pp @ replicate 4 0) in
          Some (of_le32 (b ! 0) (b ! 1) (b ! 2) (b ! 3) OR htonl (word_of_nat val)))"

section \<open>Loading\<close>

text \<open>The string in an array is converted; an array without a NUL is read past its end.\<close>

definition convert :: "bytes \<Rightarrow> fault + u32 option" where
  "convert buf = (case c_string buf of Inl f \<Rightarrow> Inl f | Inr s \<Rightarrow> Inr (inet_aton s))"

definition BUFSIZ :: nat where "BUFSIZ = 8192"

text \<open>
  One line: the words are stored, the first three converted in turn, the first route of the file
  clears the table.  \<open>Inr None\<close> is a line that cannot be converted.
\<close>

definition load_line ::
    "sr_env \<Rightarrow> sr_instance \<Rightarrow> bool \<Rightarrow> bytes list \<Rightarrow> bytes \<Rightarrow> fault + (sr_instance \<times> bytes list) option" where
  "load_line env sr cleared bufs line =
     (case scan_strings (cstr line) bufs of Inl f \<Rightarrow> Inl f | Inr bufs1 \<Rightarrow>
        (case convert (bufs1 ! 0) of Inl f \<Rightarrow> Inl f | Inr None \<Rightarrow> Inr None | Inr (Some dest_addr) \<Rightarrow>
        (case convert (bufs1 ! 1) of Inl f \<Rightarrow> Inl f | Inr None \<Rightarrow> Inr None | Inr (Some gw_addr) \<Rightarrow>
        (case convert (bufs1 ! 2) of Inl f \<Rightarrow> Inl f | Inr None \<Rightarrow> Inr None | Inr (Some mask_addr) \<Rightarrow>
           let sr1 = (if cleared then sr else sr\<lparr>routing_table := []\<rparr>) in
           (case sr_add_rt_entry env sr1 dest_addr gw_addr mask_addr (bufs1 ! 3) of Inl f \<Rightarrow> Inl f
            | Inr sr2 \<Rightarrow> Inr (Some (sr2, bufs1)))))))"

function load_loop ::
    "sr_env \<Rightarrow> sr_instance \<Rightarrow> bool \<Rightarrow> bytes list \<Rightarrow> bytes \<Rightarrow> fault + (int \<times> sr_instance)" where
  "load_loop env sr cleared bufs fp =
     (if fp = [] then Inr (0, sr)
      else case fgets (BUFSIZ - 1) fp of (line, fp1) \<Rightarrow>
        (case load_line env sr cleared bufs line of Inl f \<Rightarrow> Inl f | Inr None \<Rightarrow> Inr (- 1, sr)
         | Inr (Some (sr1, bufs1)) \<Rightarrow> load_loop env sr1 True bufs1 fp1))"
  by pat_completeness auto
termination
  by (relation "measure (\<lambda>(env, sr, cleared, bufs, fp). length fp)") (auto simp: fgets_def Let_def BUFSIZ_def)

declare load_loop.simps [simp del]

text \<open>
  The files the process can read, by name; \<open>fopen_ok\<close> tells whether the file that \<^verbatim>\<open>access\<close> found
  readable can be opened: its handle is not checked.  \<open>raw\<close> is what the stack holds in the four
  arrays before they are first written.
\<close>

type_synonym files = "bytes \<rightharpoonup> bytes"

definition sr_load_rt ::
    "sr_env \<Rightarrow> bool \<Rightarrow> bytes list \<Rightarrow> files \<Rightarrow> sr_instance \<Rightarrow> bytes \<Rightarrow> fault + (int \<times> sr_instance)" where
  "sr_load_rt env fopen_ok raw fs sr filename =
     (case fs filename of None \<Rightarrow> Inr (- 1, sr)
      | Some content \<Rightarrow> if \<not> fopen_ok then Inl NullDeref else load_loop env sr False raw content)"

section \<open>Printing and reading addresses\<close>

lemma unat_digit: "n < 10 \<Longrightarrow> unat (digit_char n) = 48 + n"
  unfolding digit_char_def by (simp add: unsigned_of_nat take_bit_eq_mod del: of_nat_add)

lemma digit_char: "n < 10 \<Longrightarrow> isdigit (digit_char n)" "n < 10 \<Longrightarrow> digit_val (digit_char n) = n"
  using unat_digit [of n] by (simp_all add: isdigit_def digit_val_def word_le_nat_alt)

lemma isdigit_val: "isdigit c \<longleftrightarrow> digit_val c < 10"
proof
  assume "isdigit c"
  then show "digit_val c < 10" by (simp add: isdigit_def digit_val_def word_le_nat_alt) linarith
qed (auto simp: isdigit_def digit_val_def word_le_nat_alt split: if_splits)

lemma dec_nonempty [simp]: "dec n \<noteq> []"
  by (subst dec.simps) simp

lemma dec_isdigit: "c \<in> set (dec n) \<Longrightarrow> isdigit c"
  by (induction n rule: dec.induct) (subst (asm) dec.simps, auto simp: digit_char split: if_splits)

lemma dec_value: "foldl (\<lambda>acc c. acc * 10 + digit_val c) 0 (dec n) = n"
  by (induction n rule: dec.induct) (subst dec.simps, auto simp: digit_char)

lemma dec_hd: "0 < n \<Longrightarrow> hd (dec n) \<noteq> 48"
proof (induction n rule: dec.induct)
  case (1 n)
  show ?case
  proof (cases "n < 10")
    case True
    then show ?thesis using unat_digit [of n] 1(2) by (subst dec.simps) auto
  next
    case False
    then show ?thesis using 1 by (subst dec.simps) simp
  qed
qed

lemma dec_0: "dec 0 = [48]"
  by (subst dec.simps) (simp add: digit_char_def)

lemma number_dec: "rest = [] \<or> \<not> isdigit (hd rest) \<Longrightarrow> number 10 (dec n @ rest) = (n, rest)"
proof -
  assume "rest = [] \<or> \<not> isdigit (hd rest)"
  then have "takeWhile (\<lambda>c. digit_val c < 10) (dec n @ rest) = dec n"
    by (cases rest) (auto simp: takeWhile_append dec_isdigit simp flip: isdigit_val)
  then show ?thesis by (simp add: number_def dec_value)
qed

lemma strtoul_dec: "rest = [] \<or> hd rest = 46 \<Longrightarrow> strtoul (dec n @ rest) = (n, rest)"
proof (cases "n = 0")
  case True
  assume r: "rest = [] \<or> hd rest = 46"
  have "digit_val 48 = 0" "digit_val 46 = 99" by (simp_all add: digit_val_def)
  with r have "number 8 (48 # rest) = (0, rest)"
    by (cases rest) (simp_all add: number_def)
  with r True show ?thesis
    by (cases rest; cases "tl rest") (auto simp: dec_0 strtoul_def)
next
  case False
  assume r: "rest = [] \<or> hd rest = 46"
  have "\<not> isdigit 46" by (simp add: isdigit_def)
  then have num: "number 10 (dec n @ rest) = (n, rest)" using r by (intro number_dec) auto
  obtain c ds where c: "dec n = c # ds" by (cases "dec n") auto
  with dec_hd [of n] False have "c \<noteq> 48" by auto
  then have "strtoul (c # xs) = number 10 (c # xs)" for xs
    by (simp add: strtoul_def split: list.split)
  then show ?thesis using num c by simp
qed

lemma aton_part:
  assumes "n < 256" "length pp \<le> 2"
  shows "aton_loop pp (dec n @ 46 # rest) = aton_loop (pp @ [n]) rest"
proof -
  have "isdigit (hd (dec n))" using dec_isdigit [of "hd (dec n)" n] by simp
  then show ?thesis
    using assms strtoul_dec [of "46 # rest" n] by (subst aton_loop.simps) simp
qed

lemma aton_last: "n < 256 \<Longrightarrow> aton_loop pp (dec n) = Some (pp, n, [])"
  using strtoul_dec [of "[]" n] dec_isdigit [of "hd (dec n)" n] by (subst aton_loop.simps) simp

lemma inet_aton_ntoa: "inet_aton (inet_ntoa a) = Some a"
proof -
  obtain b0 b1 b2 b3 where a: "a = of_le32 b0 b1 b2 b3" using of_le32_ucast [of a] by metis
  have "of_le32 b0 b1 b2 0 OR htonl (word_of_nat (unat b3)) = of_le32 b0 b1 b2 b3"
    unfolding htonl_def of_le32_def by (rule bit_eqI) (auto simp: bit_simps)
  moreover have "unat b < 256" for b :: u8 by (rule unat_u8_less)
  moreover have "unat b3 \<le> 255" using unat_u8_less [of b3] by simp
  ultimately show ?thesis
    by (simp add: a inet_aton_def inet_ntoa_def le32_def aton_part aton_last part_max_def Let_def)
qed

section \<open>Lines\<close>

lemma fgets_line: "10 \<notin> set l \<Longrightarrow> length l < n \<Longrightarrow> fgets n (l @ 10 # rest) = (l @ [10], rest)"
  using min_absorb2 [of "Suc (length l)" n] by (auto simp: fgets_def Let_def takeWhile_append)

lemma dropWhile_spaces: "list_all P sp \<Longrightarrow> dropWhile P (sp @ xs) = dropWhile P xs"
  by (induction sp) auto

lemma takeWhile_word:
  "list_all P w \<Longrightarrow> rest = [] \<or> \<not> P (hd rest) \<Longrightarrow> takeWhile P (w @ rest) = w \<and> dropWhile P (w @ rest) = rest"
  by (induction w) (cases rest, auto)+

text \<open>A word in its place: surrounded by white space and short enough for its array.\<close>

definition is_word :: "bytes \<Rightarrow> bool" where
  "is_word w \<longleftrightarrow> w \<noteq> [] \<and> list_all (\<lambda>c. \<not> isspace c \<and> c \<noteq> 0) w"

lemma is_word_props:
  assumes "is_word w"
  shows "0 \<notin> set w" "10 \<notin> set w" "list_all (\<lambda>c. \<not> isspace c) w" "w \<noteq> []"
  using assms by (auto simp: is_word_def list_all_iff isspace_def)

lemma scan_word:
  assumes "list_all isspace sp" "is_word w" "rest = [] \<or> isspace (hd rest)"
  shows "scan_strings (sp @ w @ rest) (buf # bufs) =
    (if length w < length buf
     then (case scan_strings rest bufs of Inl f \<Rightarrow> Inl f | Inr bs \<Rightarrow> Inr (patch buf 0 (w @ [0]) # bs))
     else Inl OutOfBounds)"
proof -
  have "dropWhile isspace (w @ rest) = w @ rest"
    using assms(2) by (cases w) (auto simp: is_word_def)
  moreover have "takeWhile (\<lambda>c. \<not> isspace c) (w @ rest) = w" "dropWhile (\<lambda>c. \<not> isspace c) (w @ rest) = rest"
    using takeWhile_word [of "\<lambda>c. \<not> isspace c" w rest] is_word_props [OF assms(2)] assms(3) by auto
  ultimately show ?thesis
    using assms(1) is_word_props(4) [OF assms(2)] by (simp add: dropWhile_spaces wr_bytes_def Let_def)
qed

lemma cstr_patched: "0 \<notin> set w \<Longrightarrow> length w < length buf \<Longrightarrow> cstr (patch buf 0 (w @ [0])) = w \<and> 0 \<in> set (patch buf 0 (w @ [0]))"
  by (simp add: patch_def cstr_append_nul)

lemma convert_patched:
  "is_word w \<Longrightarrow> length w < length buf \<Longrightarrow> convert (patch buf 0 (w @ [0])) = Inr (inet_aton w)"
  using cstr_patched [of w buf] is_word_props(1) [of w] by (simp add: convert_def c_string_def)

lemma length_dec_byte: "n < 256 \<Longrightarrow> length (dec n) \<le> 3"
  by (subst dec.simps, subst dec.simps, subst dec.simps) (auto simp: less_mult_imp_div_less)

lemma isdigit_not_space: "isdigit c \<Longrightarrow> \<not> isspace c \<and> c \<noteq> 0"
  by (auto simp: isdigit_def isspace_def word_le_nat_alt)

lemma inet_ntoa_word: "is_word (inet_ntoa a) \<and> length (inet_ntoa a) < 32"
proof -
  have "unat b < 256" for b :: u8 by (rule unat_u8_less)
  note l = length_dec_byte [OF this]
  have "length (inet_ntoa a) < 32"
    using l [of "ucast a"] l [of "ucast (drop_bit 8 a)"] l [of "ucast (drop_bit 16 a)"] l [of "ucast (drop_bit 24 a)"]
    by (simp add: inet_ntoa_def le32_def)
  moreover have "\<not> isspace 46" by (simp add: isspace_def)
  ultimately show ?thesis
    using isdigit_not_space [OF dec_isdigit]
    by (auto simp: is_word_def list_all_iff inet_ntoa_def le32_def)
qed

text \<open>The four arrays hold the words of a route.\<close>

definition holds :: "bytes list \<Rightarrow> sr_rt \<Rightarrow> bool" where
  "holds bufs r \<longleftrightarrow> length bufs = 4 \<and> list_all (\<lambda>b. length b = 32) bufs \<and>
     convert (bufs ! 0) = Inr (Some (rt_dest r)) \<and> convert (bufs ! 1) = Inr (Some (rt_gw r)) \<and>
     convert (bufs ! 2) = Inr (Some (rt_mask r)) \<and> strncpy (bufs ! 3) 32 = rt_interface r"

lemma load_line_holds:
  assumes "scan_strings (cstr line) bufs = Inr bufs1" "holds bufs1 r" "env_malloc env sizeof_sr_rt"
  shows "load_line env sr cleared bufs line =
    Inr (Some (sr\<lparr>routing_table := (if cleared then routing_table sr else []) @ [r]\<rparr>, bufs1))"
proof -
  have "append_rt rs r' = rs @ [r']" for rs r' by (induction rs) auto
  moreover have "\<lparr>rt_dest = rt_dest r, rt_gw = rt_gw r, rt_mask = rt_mask r, rt_interface = rt_interface r\<rparr> = r"
    by simp
  ultimately show ?thesis
    using assms by (simp add: load_line_def holds_def sr_add_rt_entry_def sr_IFACE_NAMELEN_def)
qed

text \<open>A route whose interface name is a word that fits its array with the NUL, padded with NULs.\<close>

definition route_wf :: "sr_rt \<Rightarrow> bool" where
  "route_wf r \<longleftrightarrow> is_word (cstr (rt_interface r)) \<and> length (cstr (rt_interface r)) < 32 \<and>
     rt_interface r = strncpy (rt_interface r) 32"

lemma route_wf_nul: "route_wf r \<Longrightarrow> 0 \<in> set (rt_interface r)"
proof (rule ccontr)
  assume r: "route_wf r" and "0 \<notin> set (rt_interface r)"
  then have "cstr (rt_interface r) = rt_interface r" by (simp add: cstr_id)
  moreover have "length (rt_interface r) = 32" using r length_strncpy [of "rt_interface r" 32] by (simp add: route_wf_def)
  ultimately show False using r by (simp add: route_wf_def)
qed

definition route_text :: "sr_rt \<Rightarrow> bytes" where
  "route_text r = inet_ntoa (rt_dest r) @ [9, 9] @ inet_ntoa (rt_gw r) @ [9] @ inet_ntoa (rt_mask r) @ [9] @
     cstr (rt_interface r)"

lemma print_routing_entry_text: "route_wf r \<Longrightarrow> sr_print_routing_entry r = Inr (route_text r @ [10])"
  using route_wf_nul by (simp add: sr_print_routing_entry_def c_string_def route_text_def)

lemma print_rt_walk_text: "list_all route_wf rs \<Longrightarrow> print_rt_walk rs = Inr (concat (map (\<lambda>r. route_text r @ [10]) rs))"
  by (induction rs) (simp_all add: print_routing_entry_text)

lemma scan_route:
  assumes "route_wf r" "length bufs = 4" "list_all (\<lambda>b. length b = 32) bufs"
  shows "\<exists>bufs1. scan_strings (cstr (route_text r @ [10])) bufs = Inr bufs1 \<and> holds bufs1 r"
proof -
  obtain b0 b1 b2 b3 where bufs: "bufs = [b0, b1, b2, b3]"
    using assms(2) by (auto simp: numeral_eq_Suc length_Suc_conv)
  let ?d = "inet_ntoa (rt_dest r)" and ?g = "inet_ntoa (rt_gw r)" and ?m = "inet_ntoa (rt_mask r)"
    and ?n = "cstr (rt_interface r)"
  have w: "is_word ?d" "is_word ?g" "is_word ?m" "is_word ?n" "length ?d < 32" "length ?g < 32" "length ?m < 32" "length ?n < 32"
    using inet_ntoa_word assms(1) by (simp_all add: route_wf_def)
  have l: "length b0 = 32" "length b1 = 32" "length b2 = 32" "length b3 = 32" using assms(3) bufs by simp_all
  have "0 \<notin> set (route_text r @ [10])"
    using is_word_props(1) [OF w(1)] is_word_props(1) [OF w(2)] is_word_props(1) [OF w(3)] is_word_props(1) [OF w(4)]
    by (simp add: route_text_def)
  then have c: "cstr (route_text r @ [10]) = [] @ ?d @ ([9, 9] @ ?g @ ([9] @ ?m @ ([9] @ ?n @ [10])))"
    by (simp add: cstr_id route_text_def)
  have sp: "isspace 9" "isspace 10" by (simp_all add: isspace_def)
  let ?p = "\<lambda>b w. patch b 0 (w @ [0 :: u8])"
  have 3: "scan_strings ([9] @ ?n @ [10]) [b3] = Inr [?p b3 ?n]"
    using scan_word [of "[9]" ?n "[10]" b3 "[]"] w l sp by simp
  have 2: "scan_strings ([9] @ ?m @ ([9] @ ?n @ [10])) [b2, b3] = Inr [?p b2 ?m, ?p b3 ?n]"
    using scan_word [of "[9]" ?m "[9] @ ?n @ [10]" b2 "[b3]"] w l sp 3 by simp
  have 1: "scan_strings ([9, 9] @ ?g @ ([9] @ ?m @ ([9] @ ?n @ [10]))) [b1, b2, b3] = Inr [?p b1 ?g, ?p b2 ?m, ?p b3 ?n]"
    using scan_word [of "[9, 9]" ?g "[9] @ ?m @ ([9] @ ?n @ [10])" b1 "[b2, b3]"] w l sp 2 by simp
  have scan: "scan_strings (cstr (route_text r @ [10])) bufs = Inr [?p b0 ?d, ?p b1 ?g, ?p b2 ?m, ?p b3 ?n]"
    unfolding c bufs
    using scan_word [of "[]" ?d "[9, 9] @ ?g @ ([9] @ ?m @ ([9] @ ?n @ [10]))" b0 "[b1, b2, b3]"] w l sp 1 by simp
  have n: "strncpy (?p b3 ?n) 32 = rt_interface r"
    using cstr_patched [of ?n b3] is_word_props(1) [OF w(4)] w(8) l(4) assms(1)
    by (simp add: strncpy_def route_wf_def)
  have "holds [?p b0 ?d, ?p b1 ?g, ?p b2 ?m, ?p b3 ?n] r"
    using w l n by (simp add: holds_def convert_patched inet_aton_ntoa)
  with scan show ?thesis by blast
qed

lemma load_loop_line:
  assumes "10 \<notin> set l" "length l < 8191" "load_line env sr cleared bufs (l @ [10]) = Inr (Some (sr1, bufs1))"
  shows "load_loop env sr cleared bufs (l @ 10 # rest) = load_loop env sr1 True bufs1 rest"
  using assms fgets_line [of l 8191 rest] by (subst load_loop.simps) (simp add: BUFSIZ_def)

lemma route_text_line: "route_wf r \<Longrightarrow> 10 \<notin> set (route_text r) \<and> length (route_text r) < 8191"
  using inet_ntoa_word [of "rt_dest r"] inet_ntoa_word [of "rt_gw r"] inet_ntoa_word [of "rt_mask r"]
  by (auto simp: route_text_def route_wf_def dest: is_word_props(2))

text \<open>Reading the lines of some routes: the table grows by them and the arrays hold the last one.\<close>

lemma load_loop_routes:
  assumes "list_all route_wf rs" "length bufs = 4" "list_all (\<lambda>b. length b = 32) bufs" "env_malloc env sizeof_sr_rt" "rs \<noteq> []"
  shows "\<exists>bufs1. holds bufs1 (last rs) \<and>
    load_loop env sr cleared bufs (concat (map (\<lambda>r. route_text r @ [10]) rs) @ rest) =
      load_loop env (sr\<lparr>routing_table := (if cleared then routing_table sr else []) @ rs\<rparr>) True bufs1 rest"
  using assms
proof (induction rs arbitrary: sr cleared bufs)
  case (Cons r rs)
  let ?t = "concat (map (\<lambda>r. route_text r @ [10]) rs) @ rest" and ?tab = "if cleared then routing_table sr else []"
  obtain bufs1 where b: "scan_strings (cstr (route_text r @ [10])) bufs = Inr bufs1" "holds bufs1 r"
    using scan_route [of r bufs] Cons.prems by auto
  have step: "load_loop env sr cleared bufs (route_text r @ 10 # ?t) = load_loop env (sr\<lparr>routing_table := ?tab @ [r]\<rparr>) True bufs1 ?t"
    using load_loop_line [OF _ _ load_line_holds [OF b Cons.prems(4)]] route_text_line [of r] Cons.prems(1) by simp
  show ?case
  proof (cases "rs = []")
    case True
    then show ?thesis using step b(2) by auto
  next
    case False
    have "length bufs1 = 4" "list_all (\<lambda>b. length b = 32) bufs1" using b(2) by (simp_all add: holds_def)
    from Cons.IH [OF _ this Cons.prems(4) False, of "sr\<lparr>routing_table := ?tab @ [r]\<rparr>" True] Cons.prems(1) step False
    show ?thesis by auto
  qed
qed simp

section \<open>Files\<close>

text \<open>
  C17.  The text \<^verbatim>\<open>sr_print_routing_table\<close> prints for the routes of a table, read back by
  \<^verbatim>\<open>sr_load_rt\<close>, gives exactly these routes in this order, whatever the table held before.
\<close>

theorem load_printed_routes:
  assumes "list_all route_wf rs" "rs \<noteq> []" "print_rt_walk rs = Inr shown" "fs filename = Some shown"
    and "length raw = 4" "list_all (\<lambda>b. length b = 32) raw" "env_malloc env sizeof_sr_rt"
  shows "sr_load_rt env True raw fs sr filename = Inr (0, sr\<lparr>routing_table := rs\<rparr>)"
proof -
  have t: "shown = concat (map (\<lambda>r. route_text r @ [10]) rs)"
    using print_rt_walk_text [OF assms(1)] assms(3) by simp
  show ?thesis
    using load_loop_routes [OF assms(1,5,6,7,2), of sr False "[]"] assms(4)
    by (auto simp: sr_load_rt_def t load_loop.simps [of _ _ True _ "[]"])
qed

definition sample_route :: sr_rt where
  "sample_route = \<lparr>rt_dest = 0x0202a8c0, rt_gw = 0x0102a8c0, rt_mask = 0xffffffff, rt_interface = strncpy (str_bytes ''eth1'') 32\<rparr>"

lemma sample_route_wf: "route_wf sample_route"
proof -
  have "cstr (rt_interface sample_route) = str_bytes ''eth1''"
    unfolding sample_route_def by (simp add: cstr_strncpy) (simp add: str_bytes_def cstr_def)
  moreover have "is_word (str_bytes ''eth1'')"
    by (simp add: is_word_def str_bytes_def isspace_def)
  moreover have "strncpy (rt_interface sample_route) 32 = rt_interface sample_route"
    by (simp add: sample_route_def strncpy_def [of "strncpy _ _"] cstr_strncpy) (simp add: strncpy_def str_bytes_def cstr_def)
  ultimately show ?thesis by (simp add: route_wf_def str_bytes_def)
qed

theorem load_printed_routes_witness:
  "sr_load_rt (good_env 0) True (replicate 4 (replicate 32 0)) [str_bytes ''rtable'' \<mapsto> route_text sample_route @ [10]]
     empty_instance (str_bytes ''rtable'') = Inr (0, empty_instance\<lparr>routing_table := [sample_route]\<rparr>)"
  using load_printed_routes [of "[sample_route]" "route_text sample_route @ [10]"
      "[str_bytes ''rtable'' \<mapsto> route_text sample_route @ [10]]" "str_bytes ''rtable''" "replicate 4 (replicate 32 0)" "good_env 0"]
    sample_route_wf print_routing_entry_text [of sample_route]
  by (simp add: good_env_def list_all_iff)

text \<open>
  A blank line at the end of the file adds the last route a second time: \<^verbatim>\<open>sscanf\<close> finds no
  word, its result is not looked at, and the arrays still hold the words of the line before.
\<close>

lemma blank_line_repeats_route:
  assumes "list_all route_wf rs" "rs \<noteq> []" "print_rt_walk rs = Inr shown" "fs filename = Some (shown @ [10])"
    and "length raw = 4" "list_all (\<lambda>b. length b = 32) raw" "env_malloc env sizeof_sr_rt"
  shows "sr_load_rt env True raw fs sr filename = Inr (0, sr\<lparr>routing_table := rs @ [last rs]\<rparr>)"
proof -
  have t: "shown = concat (map (\<lambda>r. route_text r @ [10]) rs)"
    using print_rt_walk_text [OF assms(1)] assms(3) by simp
  let ?sr = "sr\<lparr>routing_table := rs\<rparr>"
  obtain bufs1 where h: "holds bufs1 (last rs)"
    and l: "load_loop env sr False raw (shown @ [10]) = load_loop env ?sr True bufs1 [10]"
    using load_loop_routes [OF assms(1,5,6,7,2), of sr False "[10]"] by (auto simp: t)
  have "scan_strings (cstr ([] @ [10])) bufs1 = Inr bufs1"
    by (cases bufs1) (simp_all add: cstr_def isspace_def)
  from load_loop_line [OF _ _ load_line_holds [OF this h assms(7)], of ?sr True "[]"]
  have "load_loop env ?sr True bufs1 [10] = Inr (0, sr\<lparr>routing_table := rs @ [last rs]\<rparr>)"
    by (simp add: load_loop.simps [of _ _ True _ "[]"])
  then show ?thesis using l assms(4) by (simp add: sr_load_rt_def)
qed

lemma blank_line_repeats_route_witness:
  "sr_load_rt (good_env 0) True (replicate 4 (replicate 32 0)) [str_bytes ''rtable'' \<mapsto> route_text sample_route @ [10, 10]]
     empty_instance (str_bytes ''rtable'') = Inr (0, empty_instance\<lparr>routing_table := [sample_route, sample_route]\<rparr>)"
  using blank_line_repeats_route [of "[sample_route]" "route_text sample_route @ [10]"
      "[str_bytes ''rtable'' \<mapsto> route_text sample_route @ [10, 10]]" "str_bytes ''rtable''" "replicate 4 (replicate 32 0)" "good_env 0"]
    sample_route_wf print_routing_entry_text [of sample_route]
  by (simp add: good_env_def list_all_iff)

text \<open>A first word of 32 characters or more overruns its array.\<close>

lemma long_word_overruns:
  assumes "fs filename = Some content" "32 \<le> length content" "list_all (\<lambda>c. \<not> isspace c \<and> c \<noteq> 0) (take 32 content)"
    and "length raw = 4" "list_all (\<lambda>b. length b = 32) raw"
  shows "sr_load_rt env True raw fs sr filename = Inl OutOfBounds"
proof -
  define w where "w = take 32 content"
  obtain rest where c: "content = w @ rest" unfolding w_def by (metis append_take_drop_id)
  have w: "length w = 32" "list_all (\<lambda>c. \<not> isspace c) w" "\<forall>c\<in>set w. c \<noteq> 10 \<and> c \<noteq> 0"
    using assms(2,3) by (auto simp: w_def list_all_iff isspace_def)
  obtain b bufs where raw: "raw = b # bufs" "length b = 32" using assms(4,5) by (cases raw) auto
  define m where "m = min (BUFSIZ - 1) (Suc (length (takeWhile (\<lambda>c. c \<noteq> 10) content)))"
  have tw: "takeWhile P (w @ xs) = w @ takeWhile P xs" if "\<forall>c\<in>set w. P c" for P xs
    using that by (simp add: takeWhile_append)
  have "32 \<le> m" using w tw [of "\<lambda>c. c \<noteq> 10" rest] by (simp add: m_def BUFSIZ_def c)
  then have "take m content = w @ take (m - 32) rest" using w(1) by (simp add: c)
  then obtain u where "cstr (take m content) = w @ u" using tw [of "\<lambda>c. c \<noteq> 0"] w(3) by (auto simp: cstr_def)
  moreover have "dropWhile isspace (w @ u) = w @ u" using w(1,2) by (cases w) auto
  moreover have "takeWhile (\<lambda>c. \<not> isspace c) (w @ u) = w @ takeWhile (\<lambda>c. \<not> isspace c) u"
    using w(2) tw by (simp add: list_all_iff)
  ultimately have "scan_strings (cstr (take m content)) raw = Inl OutOfBounds"
    using w(1) raw by (auto simp: Let_def wr_bytes_def)
  moreover have "content \<noteq> []" "fgets (BUFSIZ - 1) content = (take m content, drop m content)"
    using assms(2) by (auto simp: fgets_def m_def Let_def)
  ultimately show ?thesis
    using assms(1) by (simp add: sr_load_rt_def load_line_def load_loop.simps [of _ _ _ _ content])
qed

section \<open>Files with one route a line\<close>

text \<open>
  Files as people write them: the words of a line may be separated and followed by any white space (blanks,
  tabs, a carriage return), further words are ignored, and the last line may do without its newline.
\<close>

function line_words :: "bytes \<Rightarrow> bytes list" where
  "line_words s =
     (let s1 = dropWhile isspace s in
      if s1 = [] then [] else takeWhile (\<lambda>c. \<not> isspace c) s1 # line_words (dropWhile (\<lambda>c. \<not> isspace c) s1))"
  by pat_completeness auto
termination
proof (relation "measure length")
  fix s x
  assume x: "x = dropWhile isspace s" "x \<noteq> []"
  then have "\<not> isspace (hd x)" using hd_dropWhile by metis
  then have "length (dropWhile (\<lambda>c. \<not> isspace c) x) < length x" using x(2) by (cases x) (simp_all add: length_dropWhile_le le_imp_less_Suc)
  also have "length x \<le> length s" using x(1) length_dropWhile_le by simp
  finally show "(dropWhile (\<lambda>c. \<not> isspace c) x, s) \<in> measure length" by simp
qed simp

declare line_words.simps [simp del]

fun file_lines :: "bytes \<Rightarrow> bytes list" where
  "file_lines [] = []"
| "file_lines (c # cs) =
     (if c = 10 then [] # file_lines cs
      else case file_lines cs of [] \<Rightarrow> [[c]] | l # ls \<Rightarrow> (c # l) # ls)"

definition route_line :: "bytes \<Rightarrow> sr_rt \<Rightarrow> bool" where
  "route_line l r \<longleftrightarrow> 0 \<notin> set l \<and> length l < 8191 \<and>
     (case line_words l of d # g # m # n # rest \<Rightarrow>
        list_all (\<lambda>w. length w < 32) [d, g, m, n] \<and> inet_aton d = Some (rt_dest r) \<and> inet_aton g = Some (rt_gw r) \<and>
        inet_aton m = Some (rt_mask r) \<and> rt_interface r = strncpy n 32
      | _ \<Rightarrow> False)"

definition describes_routes :: "bytes \<Rightarrow> sr_rt list \<Rightarrow> bool" where
  "describes_routes content rs \<longleftrightarrow> list_all2 route_line (file_lines content) rs"

lemma line_words_word:
  assumes "list_all isspace sp" "is_word w" "rest = [] \<or> isspace (hd rest)"
  shows "line_words (sp @ w @ rest) = w # line_words rest"
proof -
  have "dropWhile isspace (w @ rest) = w @ rest" using assms(2) by (cases w) (auto simp: is_word_def)
  moreover have "takeWhile (\<lambda>c. \<not> isspace c) (w @ rest) = w" "dropWhile (\<lambda>c. \<not> isspace c) (w @ rest) = rest"
    using takeWhile_word [of "\<lambda>c. \<not> isspace c" w rest] is_word_props [OF assms(2)] assms(3) by auto
  ultimately show ?thesis
    using assms(1) is_word_props(4) [OF assms(2)] by (subst line_words.simps) (simp add: dropWhile_spaces)
qed

lemma takeWhile_all: "list_all P xs \<Longrightarrow> takeWhile P xs = xs"
  by (induction xs) auto

lemma line_words_blank: "list_all isspace sp \<Longrightarrow> line_words sp = []"
  by (subst line_words.simps) (simp add: list_all_iff)

lemma line_words_snoc: "isspace c \<Longrightarrow> line_words (s @ [c]) = line_words s"
proof (induction s rule: line_words.induct)
  case (1 s)
  define x where "x = dropWhile isspace s"
  show ?case
  proof (cases "x = []")
    case True
    then have "list_all isspace s" by (simp add: x_def list_all_iff)
    with 1(2) show ?thesis by (simp add: line_words_blank)
  next
    case False
    then have "dropWhile isspace (s @ [c]) = x @ [c]" by (auto simp: x_def dropWhile_append)
    moreover have "takeWhile (\<lambda>c. \<not> isspace c) (x @ [c]) = takeWhile (\<lambda>c. \<not> isspace c) x"
      using 1(2) by (auto simp: takeWhile_append takeWhile_all list_all_iff)
    moreover have "line_words (dropWhile (\<lambda>c. \<not> isspace c) (x @ [c])) = line_words (dropWhile (\<lambda>c. \<not> isspace c) x)"
      using 1(1) [OF x_def False 1(2)] 1(2) line_words_blank [of "[c]"] line_words_blank [of "[]"]
      by (auto simp: dropWhile_append simp flip: dropWhile_eq_Nil_conv)
    ultimately show ?thesis using False by (simp add: line_words.simps [of "s @ [c]"] line_words.simps [of s] flip: x_def)
  qed
qed

lemma line_words_words: "0 \<notin> set s \<Longrightarrow> list_all is_word (line_words s)"
proof (induction s rule: line_words.induct)
  case (1 s)
  define x where "x = dropWhile isspace s"
  have "set x \<subseteq> set s" by (auto simp: x_def dest: set_dropWhileD)
  then have sub: "set (takeWhile (\<lambda>c. \<not> isspace c) x) \<subseteq> set s" "set (dropWhile (\<lambda>c. \<not> isspace c) x) \<subseteq> set s"
    by (auto dest: set_takeWhileD set_dropWhileD)
  show ?case
  proof (cases "x = []")
    case True
    then show ?thesis by (simp add: line_words.simps [of s] flip: x_def)
  next
    case False
    then have "\<not> isspace (hd x)" using hd_dropWhile unfolding x_def by metis
    then have "takeWhile (\<lambda>c. \<not> isspace c) x \<noteq> []" using False by (cases x) simp_all
    moreover have "list_all (\<lambda>c. \<not> isspace c \<and> c \<noteq> 0) (takeWhile (\<lambda>c. \<not> isspace c) x)"
      using sub(1) 1(2) by (auto simp: list_all_iff dest: set_takeWhileD)
    ultimately have "is_word (takeWhile (\<lambda>c. \<not> isspace c) x)" by (simp add: is_word_def)
    moreover have "list_all is_word (line_words (dropWhile (\<lambda>c. \<not> isspace c) x))"
      using 1(1) [OF x_def False] 1(2) sub(2) by blast
    ultimately show ?thesis using False by (simp add: line_words.simps [of s] flip: x_def)
  qed
qed

lemma scan_words:
  assumes "line_words s = ws @ rest" "list_all2 (\<lambda>w b. length w < length b) ws bufs"
  shows "scan_strings s bufs = Inr (map2 (\<lambda>w b. patch b 0 (w @ [0])) ws bufs)"
  using assms(2,1)
proof (induction ws bufs arbitrary: s rule: list_all2_induct)
  case (Cons w ws b bufs)
  define x where "x = dropWhile isspace s"
  have x: "x \<noteq> []" "w = takeWhile (\<lambda>c. \<not> isspace c) x" "line_words (dropWhile (\<lambda>c. \<not> isspace c) x) = ws @ rest"
    using Cons.prems by (simp_all add: line_words.simps [of s] x_def Let_def split: if_splits)
  have "\<not> isspace (hd x)" using x(1) hd_dropWhile unfolding x_def by metis
  then have "w \<noteq> []" using x(1,2) by (cases x) auto
  then show ?case using x Cons.hyps(1) Cons.IH [OF x(3)] by (simp add: wr_bytes_def Let_def flip: x_def)
qed simp

lemma route_line_scan:
  assumes "route_line l r" "length bufs = 4" "list_all (\<lambda>b. length b = 32) bufs" "eol = [] \<or> eol = [10]"
  shows "\<exists>bufs1. scan_strings (cstr (l @ eol)) bufs = Inr bufs1 \<and> holds bufs1 r"
proof -
  obtain b0 b1 b2 b3 where bufs: "bufs = [b0, b1, b2, b3]"
    using assms(2) by (auto simp: numeral_eq_Suc length_Suc_conv)
  obtain d g m n rest where w: "line_words l = [d, g, m, n] @ rest" "list_all (\<lambda>w. length w < 32) [d, g, m, n]"
    "inet_aton d = Some (rt_dest r)" "inet_aton g = Some (rt_gw r)" "inet_aton m = Some (rt_mask r)" "rt_interface r = strncpy n 32"
    using assms(1) by (auto simp: route_line_def split: list.splits)
  have 0: "0 \<notin> set l" using assms(1) by (simp add: route_line_def)
  then have words: "is_word d" "is_word g" "is_word m" "is_word n" using line_words_words [of l] w(1) by simp_all
  have "isspace 10" by (simp add: isspace_def)
  then have "line_words (cstr (l @ eol)) = [d, g, m, n] @ rest"
    using assms(4) 0 w(1) line_words_snoc [of 10 l] cstr_id [of "l @ eol"] by auto
  then have scan: "scan_strings (cstr (l @ eol)) bufs = Inr (map2 (\<lambda>w b. patch b 0 (w @ [0])) [d, g, m, n] bufs)"
    using w(2) assms(3) by (intro scan_words) (simp_all add: bufs)
  have "strncpy (patch b3 0 (n @ [0])) 32 = rt_interface r"
    using cstr_patched [of n b3] cstr_id [of n] is_word_props(1) [OF words(4)] w(2,6) assms(3) by (simp add: strncpy_def bufs)
  then have "holds (map2 (\<lambda>w b. patch b 0 (w @ [0])) [d, g, m, n] bufs) r"
    using w(2-5) words assms(3) by (simp add: holds_def convert_patched bufs)
  with scan show ?thesis by blast
qed

lemma file_lines_cut:
  "file_lines content = l # ls \<Longrightarrow>
   \<exists>rest. 10 \<notin> set l \<and> file_lines rest = ls \<and> (content = l @ 10 # rest \<or> rest = [] \<and> l \<noteq> [] \<and> content = l)"
proof (induction content arbitrary: l ls)
  case (Cons c cs)
  note IH = Cons.IH and prem = Cons.prems
  show ?case
  proof (cases "c = 10")
    case False
    show ?thesis
    proof (cases "file_lines cs")
      case Nil
      then have "cs = []" by (cases cs) (auto split: if_splits list.splits)
      then show ?thesis using prem False by auto
    next
      case (Cons k ks)
      from IH [OF this] prem False Cons show ?thesis by auto
    qed
  qed (use prem in auto)
qed simp

lemma fgets_last: "10 \<notin> set l \<Longrightarrow> length l < n \<Longrightarrow> fgets n l = (l, [])"
proof -
  assume l: "10 \<notin> set l" "length l < n"
  then have "list_all (\<lambda>c. c \<noteq> 10) l" by (auto simp: list_all_iff)
  note t = takeWhile_all [OF this]
  show ?thesis unfolding fgets_def t using l(2) by (simp add: Let_def)
qed

lemma load_described:
  assumes "list_all2 route_line ls rs" "file_lines content = ls" "length bufs = 4" "list_all (\<lambda>b. length b = 32) bufs"
    and "env_malloc env sizeof_sr_rt"
  shows "load_loop env sr cleared bufs content =
    Inr (0, sr\<lparr>routing_table := (if cleared \<or> rs = [] then routing_table sr else []) @ rs\<rparr>)"
  using assms(1-4)
proof (induction ls rs arbitrary: content sr cleared bufs rule: list_all2_induct)
  case Nil
  then have "content = []" by (cases content) (auto split: if_splits list.splits)
  then show ?case by (simp add: load_loop.simps)
next
  case (Cons l ls r rs)
  let ?sr = "sr\<lparr>routing_table := (if cleared then routing_table sr else []) @ [r]\<rparr>"
  have len: "length l < 8191" using Cons.hyps(1) by (simp add: route_line_def)
  from file_lines_cut [OF Cons.prems(1)] obtain rest where rest: "10 \<notin> set l" "file_lines rest = ls"
    "content = l @ 10 # rest \<or> rest = [] \<and> l \<noteq> [] \<and> content = l" by blast
  then obtain eol where eol: "eol = [] \<or> eol = [10]" "content \<noteq> []" "fgets (BUFSIZ - 1) content = (l @ eol, rest)"
    using fgets_line [of l 8191 rest] fgets_last [of l 8191] len by (auto simp: BUFSIZ_def)
  obtain bufs1 where b: "scan_strings (cstr (l @ eol)) bufs = Inr bufs1" "holds bufs1 r"
    using route_line_scan [OF Cons.hyps(1) Cons.prems(2,3) eol(1)] by blast
  have "load_loop env sr cleared bufs content = load_loop env ?sr True bufs1 rest"
    using eol(2,3) load_line_holds [OF b assms(5), of sr cleared] by (subst load_loop.simps) simp
  moreover have "load_loop env ?sr True bufs1 rest = Inr (0, ?sr\<lparr>routing_table := routing_table ?sr @ rs\<rparr>)"
    using Cons.IH [OF rest(2), of bufs1 ?sr True] b(2) by (simp add: holds_def)
  ultimately show ?case by simp
qed

lemma describes_wf: "describes_routes content rs \<Longrightarrow> list_all route_wf rs"
proof -
  have "route_wf r" if r: "route_line l r" for l r
  proof -
    obtain d g m n rest where w: "line_words l = d # g # m # n # rest" "length n < 32" "rt_interface r = strncpy n 32"
      using r by (auto simp: route_line_def split: list.splits)
    have n: "is_word n" using line_words_words [of l] w(1) r by (simp add: route_line_def)
    then have "cstr (rt_interface r) = n" using w(2,3) is_word_props(1) [OF n] by (simp add: cstr_strncpy cstr_id)
    moreover from this have "strncpy (rt_interface r) 32 = strncpy n 32"
      using cstr_id [OF is_word_props(1) [OF n]] by (simp add: strncpy_def)
    ultimately show ?thesis using n w(2,3) by (simp add: route_wf_def)
  qed
  moreover assume "describes_routes content rs"
  ultimately show ?thesis by (auto simp: describes_routes_def list_all2_conv_all_nth list_all_length)
qed

lemma route_text_described: "route_wf r \<Longrightarrow> route_line (route_text r) r"
proof -
  assume r: "route_wf r"
  let ?d = "inet_ntoa (rt_dest r)" and ?g = "inet_ntoa (rt_gw r)" and ?m = "inet_ntoa (rt_mask r)" and ?n = "cstr (rt_interface r)"
  have w: "is_word ?d" "is_word ?g" "is_word ?m" "is_word ?n" "length ?d < 32" "length ?g < 32" "length ?m < 32" "length ?n < 32"
    using inet_ntoa_word r by (simp_all add: route_wf_def)
  have sp: "isspace 9" by (simp add: isspace_def)
  have t: "route_text r = [] @ ?d @ [9, 9] @ ?g @ [9] @ ?m @ [9] @ ?n" by (simp add: route_text_def)
  have "line_words ([9] @ ?n) = [?n]"
    using line_words_word [of "[9]" ?n "[]"] w sp line_words_blank [of "[]"] by simp
  then have "line_words ([9] @ ?m @ [9] @ ?n) = [?m, ?n]" using line_words_word [of "[9]" ?m "[9] @ ?n"] w sp by simp
  then have "line_words ([9, 9] @ ?g @ [9] @ ?m @ [9] @ ?n) = [?g, ?m, ?n]"
    using line_words_word [of "[9, 9]" ?g "[9] @ ?m @ [9] @ ?n"] w sp by simp
  then have "line_words (route_text r) = [?d, ?g, ?m, ?n]"
    unfolding t using line_words_word [of "[]" ?d "[9, 9] @ ?g @ [9] @ ?m @ [9] @ ?n"] w sp by simp
  moreover have "0 \<notin> set (route_text r)"
    using is_word_props(1) [OF w(1)] is_word_props(1) [OF w(2)] is_word_props(1) [OF w(3)] is_word_props(1) [OF w(4)]
    by (simp add: route_text_def)
  moreover have "strncpy ?n 32 = strncpy (rt_interface r) 32"
    using cstr_id [OF is_word_props(1) [OF w(4)]] by (simp only: strncpy_def)
  then have "rt_interface r = strncpy ?n 32" using r by (simp add: route_wf_def)
  ultimately show ?thesis using w route_text_line [OF r] by (simp add: route_line_def inet_aton_ntoa)
qed

lemma file_lines_line: "10 \<notin> set l \<Longrightarrow> file_lines (l @ 10 # rest) = l # file_lines rest"
  by (induction l) auto

lemma printed_routes_described: "list_all route_wf rs \<Longrightarrow> describes_routes (concat (map (\<lambda>r. route_text r @ [10]) rs)) rs"
  by (induction rs) (simp_all add: describes_routes_def file_lines_line route_text_line route_text_described)

text \<open>A file that describes some routes is loaded with exactly these, whatever the table held before.\<close>

lemma load_described_routes:
  assumes "describes_routes content rs" "rs \<noteq> []" "fs filename = Some content"
    and "length raw = 4" "list_all (\<lambda>b. length b = 32) raw" "env_malloc env sizeof_sr_rt"
  shows "sr_load_rt env True raw fs sr filename = Inr (0, sr\<lparr>routing_table := rs\<rparr>)"
  using load_described [OF assms(1) [unfolded describes_routes_def] refl assms(4-6)] assms(2,3) by (simp add: sr_load_rt_def)

text \<open>
  The files \<^verbatim>\<open>rtable\<close> (blanks) and \<^verbatim>\<open>rtable2\<close> (carriage returns, no newline at the end) of the repository
  describe their routes.
\<close>

lemma route_lineI:
  "0 \<notin> set l \<Longrightarrow> length l < 8191 \<Longrightarrow> line_words l = [inet_ntoa d, inet_ntoa g, inet_ntoa m, n] \<Longrightarrow> length n < 32 \<Longrightarrow>
   route_line l \<lparr>rt_dest = d, rt_gw = g, rt_mask = m, rt_interface = strncpy n 32\<rparr>"
  by (simp add: route_line_def inet_aton_ntoa inet_ntoa_word)

definition repository_rtable :: bytes where
  "repository_rtable = str_bytes ''192.168.2.2   192.168.2.2    255.255.255.255    eth1'' @ [10] @
     str_bytes ''172.64.3.10   172.64.3.10    255.255.255.255    eth2'' @ [10] @
     str_bytes ''10.0.1.100    10.0.1.100     255.255.255.255    eth3'' @ [10]"

definition repository_rtable2 :: bytes where
  "repository_rtable2 = str_bytes ''192.168.1.2   192.168.1.2    255.255.255.255    eth1'' @ [13, 10] @
     str_bytes ''192.168.0.0   192.168.0.1    255.255.0.0        eth2''"

lemma repository_rtable_described:
  "describes_routes repository_rtable
     [\<lparr>rt_dest = 0x0202a8c0, rt_gw = 0x0202a8c0, rt_mask = 0xffffffff, rt_interface = strncpy (str_bytes ''eth1'') 32\<rparr>,
      \<lparr>rt_dest = 0x0a0340ac, rt_gw = 0x0a0340ac, rt_mask = 0xffffffff, rt_interface = strncpy (str_bytes ''eth2'') 32\<rparr>,
      \<lparr>rt_dest = 0x6401000a, rt_gw = 0x6401000a, rt_mask = 0xffffffff, rt_interface = strncpy (str_bytes ''eth3'') 32\<rparr>]"
proof -
  have lines: "route_line (str_bytes ''192.168.2.2   192.168.2.2    255.255.255.255    eth1'')
      \<lparr>rt_dest = 0x0202a8c0, rt_gw = 0x0202a8c0, rt_mask = 0xffffffff, rt_interface = strncpy (str_bytes ''eth1'') 32\<rparr>"
    "route_line (str_bytes ''172.64.3.10   172.64.3.10    255.255.255.255    eth2'')
      \<lparr>rt_dest = 0x0a0340ac, rt_gw = 0x0a0340ac, rt_mask = 0xffffffff, rt_interface = strncpy (str_bytes ''eth2'') 32\<rparr>"
    "route_line (str_bytes ''10.0.1.100    10.0.1.100     255.255.255.255    eth3'')
      \<lparr>rt_dest = 0x6401000a, rt_gw = 0x6401000a, rt_mask = 0xffffffff, rt_interface = strncpy (str_bytes ''eth3'') 32\<rparr>"
    by (rule route_lineI; code_simp)+
  have "file_lines repository_rtable = [str_bytes ''192.168.2.2   192.168.2.2    255.255.255.255    eth1'',
      str_bytes ''172.64.3.10   172.64.3.10    255.255.255.255    eth2'', str_bytes ''10.0.1.100    10.0.1.100     255.255.255.255    eth3'']"
    by code_simp
  then show ?thesis unfolding describes_routes_def using lines by (simp only: list_all2_Cons list_all2_Nil simp_thms)
qed

lemma repository_rtable2_described:
  "describes_routes repository_rtable2
     [\<lparr>rt_dest = 0x0201a8c0, rt_gw = 0x0201a8c0, rt_mask = 0xffffffff, rt_interface = strncpy (str_bytes ''eth1'') 32\<rparr>,
      \<lparr>rt_dest = 0x0000a8c0, rt_gw = 0x0100a8c0, rt_mask = 0x0000ffff, rt_interface = strncpy (str_bytes ''eth2'') 32\<rparr>]"
proof -
  have lines: "route_line (str_bytes ''192.168.1.2   192.168.1.2    255.255.255.255    eth1'' @ [13])
      \<lparr>rt_dest = 0x0201a8c0, rt_gw = 0x0201a8c0, rt_mask = 0xffffffff, rt_interface = strncpy (str_bytes ''eth1'') 32\<rparr>"
    "route_line (str_bytes ''192.168.0.0   192.168.0.1    255.255.0.0        eth2'')
      \<lparr>rt_dest = 0x0000a8c0, rt_gw = 0x0100a8c0, rt_mask = 0x0000ffff, rt_interface = strncpy (str_bytes ''eth2'') 32\<rparr>"
    by (rule route_lineI; code_simp)+
  have "file_lines repository_rtable2 = [str_bytes ''192.168.1.2   192.168.1.2    255.255.255.255    eth1'' @ [13],
      str_bytes ''192.168.0.0   192.168.0.1    255.255.0.0        eth2'']"
    by code_simp
  then show ?thesis unfolding describes_routes_def using lines by (simp only: list_all2_Cons list_all2_Nil simp_thms)
qed

end
