(* ===== verification/SHA1.thy ===== *)
theory SHA1
  imports SR_Prelude
begin

text \<open>
  \<^verbatim>\<open>sha1.c\<close>: the hash that authenticates the router to its server.  The streaming implementation
  (a 64-byte block buffer, two length words, four unrolled loops) is compared with a reference
  definition of SHA-1 in the style of the standard: pad the whole message, then fold one compression
  function over its blocks.
\<close>

unbundle bit_operations_syntax

section \<open>The implementation\<close>

record SHA1Context =
  Message_Digest :: "u32 list"
  Length_Low :: u32
  Length_High :: u32
  Message_Block :: bytes
  Message_Block_Index :: nat
  Computed :: bool
  Corrupted :: bool

definition SHA1CircularShift :: "nat \<Rightarrow> u32 \<Rightarrow> u32" where
  "SHA1CircularShift bits w = (push_bit bits w AND 0xFFFFFFFF) OR drop_bit (32 - bits) w"

definition SHA1Reset :: "SHA1Context \<Rightarrow> SHA1Context" where
  "SHA1Reset ctx = ctx\<lparr>Length_Low := 0, Length_High := 0, Message_Block_Index := 0,
     Message_Digest := [0x67452301, 0xEFCDAB89, 0x98BADCFE, 0x10325476, 0xC3D2E1F0],
     Computed := False, Corrupted := False\<rparr>"

text \<open>The word sequence: sixteen words of the block, then sixty-four derived ones.\<close>

definition block_word :: "bytes \<Rightarrow> nat \<Rightarrow> u32" where
  "block_word block t =
     push_bit 24 (ucast (block ! (t * 4))) OR push_bit 16 (ucast (block ! (t * 4 + 1))) OR
     push_bit 8 (ucast (block ! (t * 4 + 2))) OR ucast (block ! (t * 4 + 3))"

definition extend_words :: "nat \<Rightarrow> u32 list \<Rightarrow> u32 list" where
  "extend_words t W =
     W @ [SHA1CircularShift 1 (W ! (t - 3) XOR W ! (t - 8) XOR W ! (t - 14) XOR W ! (t - 16))]"

definition word_sequence :: "bytes \<Rightarrow> u32 list" where
  "word_sequence block = fold extend_words [16..<80] (map (block_word block) [0..<16])"

type_synonym sha1_regs = "u32 \<times> u32 \<times> u32 \<times> u32 \<times> u32"

definition sha1_K :: "u32 list" where
  "sha1_K = [0x5A827999, 0x6ED9EBA1, 0x8F1BBCDC, 0xCA62C1D6]"

definition round_0 :: "u32 list \<Rightarrow> nat \<Rightarrow> sha1_regs \<Rightarrow> sha1_regs" where
  "round_0 W t = (\<lambda>(A, B, C, D, E).
     (SHA1CircularShift 5 A + ((B AND C) OR (NOT B AND D)) + E + W ! t + sha1_K ! 0, A, SHA1CircularShift 30 B, C, D))"

definition round_1 :: "u32 list \<Rightarrow> nat \<Rightarrow> sha1_regs \<Rightarrow> sha1_regs" where
  "round_1 W t = (\<lambda>(A, B, C, D, E).
     (SHA1CircularShift 5 A + (B XOR C XOR D) + E + W ! t + sha1_K ! 1, A, SHA1CircularShift 30 B, C, D))"

definition round_2 :: "u32 list \<Rightarrow> nat \<Rightarrow> sha1_regs \<Rightarrow> sha1_regs" where
  "round_2 W t = (\<lambda>(A, B, C, D, E).
     (SHA1CircularShift 5 A + ((B AND C) OR (B AND D) OR (C AND D)) + E + W ! t + sha1_K ! 2, A, SHA1CircularShift 30 B, C, D))"

definition round_3 :: "u32 list \<Rightarrow> nat \<Rightarrow> sha1_regs \<Rightarrow> sha1_regs" where
  "round_3 W t = (\<lambda>(A, B, C, D, E).
     (SHA1CircularShift 5 A + (B XOR C XOR D) + E + W ! t + sha1_K ! 3, A, SHA1CircularShift 30 B, C, D))"

definition SHA1ProcessMessageBlock :: "SHA1Context \<Rightarrow> SHA1Context" where
  "SHA1ProcessMessageBlock ctx =
     (let W = word_sequence (Message_Block ctx); H = Message_Digest ctx;
          (A, B, C, D, E) = fold (round_3 W) [60..<80] (fold (round_2 W) [40..<60]
            (fold (round_1 W) [20..<40] (fold (round_0 W) [0..<20] (H ! 0, H ! 1, H ! 2, H ! 3, H ! 4))))
      in ctx\<lparr>Message_Digest := [H ! 0 + A, H ! 1 + B, H ! 2 + C, H ! 3 + D, H ! 4 + E], Message_Block_Index := 0\<rparr>)"

text \<open>The store \<^verbatim>\<open>Message_Block[Message_Block_Index++] = b\<close>, into an array of 64 bytes.\<close>

definition store_byte :: "SHA1Context \<Rightarrow> u8 \<Rightarrow> fault + SHA1Context" where
  "store_byte ctx b =
     (if Message_Block_Index ctx < 64
      then Inr (ctx\<lparr>Message_Block := (Message_Block ctx)[Message_Block_Index ctx := b],
                  Message_Block_Index := Message_Block_Index ctx + 1\<rparr>)
      else Inl OutOfBounds)"

definition count_byte :: "SHA1Context \<Rightarrow> SHA1Context" where
  "count_byte ctx =
     (let low = (Length_Low ctx + 8) AND 0xFFFFFFFF in
      if low = 0 then
        let high = (Length_High ctx + 1) AND 0xFFFFFFFF in
        ctx\<lparr>Length_Low := low, Length_High := high, Corrupted := (if high = 0 then True else Corrupted ctx)\<rparr>
      else ctx\<lparr>Length_Low := low\<rparr>)"

fun input_loop :: "SHA1Context \<Rightarrow> bytes \<Rightarrow> fault + SHA1Context" where
  "input_loop ctx [] = Inr ctx"
| "input_loop ctx (b # rest) =
     (if Corrupted ctx then Inr ctx
      else case store_byte ctx (b AND 0xFF) of Inl f \<Rightarrow> Inl f | Inr ctx1 \<Rightarrow>
        let ctx2 = count_byte ctx1;
            ctx3 = (if Message_Block_Index ctx2 = 64 then SHA1ProcessMessageBlock ctx2 else ctx2)
        in input_loop ctx3 rest)"

definition SHA1Input :: "SHA1Context \<Rightarrow> bytes \<Rightarrow> fault + SHA1Context" where
  "SHA1Input ctx message_array =
     (if message_array = [] then Inr ctx
      else if Computed ctx \<or> Corrupted ctx then Inr (ctx\<lparr>Corrupted := True\<rparr>)
      else input_loop ctx message_array)"

lemma store_byte_index: "store_byte ctx b = Inr ctx' \<Longrightarrow> Message_Block_Index ctx' = Suc (Message_Block_Index ctx)"
  by (auto simp: store_byte_def split: if_splits)

text \<open>The loops \<^verbatim>\<open>while (Message_Block_Index < limit) Message_Block[Message_Block_Index++] = 0\<close>.\<close>

function zero_fill :: "nat \<Rightarrow> SHA1Context \<Rightarrow> fault + SHA1Context" where
  "zero_fill limit ctx =
     (if Message_Block_Index ctx < limit
      then (case store_byte ctx 0 of Inl f \<Rightarrow> Inl f | Inr ctx' \<Rightarrow> zero_fill limit ctx')
      else Inr ctx)"
  by pat_completeness auto
termination
  by (relation "measure (\<lambda>(limit, ctx). limit - Message_Block_Index ctx)") (auto dest: store_byte_index)

declare zero_fill.simps [simp del]

definition store_length :: "SHA1Context \<Rightarrow> SHA1Context" where
  "store_length ctx = ctx\<lparr>Message_Block := (Message_Block ctx)
     [56 := ucast (drop_bit 24 (Length_High ctx) AND 0xFF), 57 := ucast (drop_bit 16 (Length_High ctx) AND 0xFF),
      58 := ucast (drop_bit 8 (Length_High ctx) AND 0xFF), 59 := ucast (Length_High ctx AND 0xFF),
      60 := ucast (drop_bit 24 (Length_Low ctx) AND 0xFF), 61 := ucast (drop_bit 16 (Length_Low ctx) AND 0xFF),
      62 := ucast (drop_bit 8 (Length_Low ctx) AND 0xFF), 63 := ucast (Length_Low ctx AND 0xFF)]\<rparr>"

definition SHA1PadMessage :: "SHA1Context \<Rightarrow> fault + SHA1Context" where
  "SHA1PadMessage ctx =
     (case (if Message_Block_Index ctx > 55
            then (case store_byte ctx 0x80 of Inl f \<Rightarrow> Inl f | Inr ctx1 \<Rightarrow>
                    (case zero_fill 64 ctx1 of Inl f \<Rightarrow> Inl f
                     | Inr ctx2 \<Rightarrow> zero_fill 56 (SHA1ProcessMessageBlock ctx2)))
            else (case store_byte ctx 0x80 of Inl f \<Rightarrow> Inl f | Inr ctx1 \<Rightarrow> zero_fill 56 ctx1)) of
        Inl f \<Rightarrow> Inl f
      | Inr ctx3 \<Rightarrow> Inr (SHA1ProcessMessageBlock (store_length ctx3)))"

definition SHA1Result :: "SHA1Context \<Rightarrow> fault + (int \<times> SHA1Context)" where
  "SHA1Result ctx =
     (if Corrupted ctx then Inr (0, ctx)
      else if \<not> Computed ctx then
        (case SHA1PadMessage ctx of Inl f \<Rightarrow> Inl f | Inr ctx' \<Rightarrow> Inr (1, ctx'\<lparr>Computed := True\<rparr>))
      else Inr (1, ctx))"

section \<open>The standard\<close>

fun sched :: "bytes \<Rightarrow> nat \<Rightarrow> u32" where
  "sched block t =
     (if t < 16 then block_word block t
      else word_rotl 1 (sched block (t - 3) XOR sched block (t - 8) XOR sched block (t - 14) XOR sched block (t - 16)))"

declare sched.simps [simp del]

definition sha_f :: "nat \<Rightarrow> u32 \<Rightarrow> u32 \<Rightarrow> u32 \<Rightarrow> u32" where
  "sha_f t x y z =
     (if t < 20 then (x AND y) XOR (NOT x AND z)
      else if 40 \<le> t \<and> t < 60 then (x AND y) XOR (x AND z) XOR (y AND z)
      else x XOR y XOR z)"

definition sha_k :: "nat \<Rightarrow> u32" where
  "sha_k t = (if t < 20 then 0x5A827999 else if t < 40 then 0x6ED9EBA1 else if t < 60 then 0x8F1BBCDC else 0xCA62C1D6)"

definition sha_round :: "bytes \<Rightarrow> nat \<Rightarrow> sha1_regs \<Rightarrow> sha1_regs" where
  "sha_round block t = (\<lambda>(a, b, c, d, e).
     (word_rotl 5 a + sha_f t b c d + e + sha_k t + sched block t, a, word_rotl 30 b, c, d))"

definition compress :: "u32 list \<Rightarrow> bytes \<Rightarrow> u32 list" where
  "compress H block =
     (case fold (sha_round block) [0..<80] (H ! 0, H ! 1, H ! 2, H ! 3, H ! 4) of
        (a, b, c, d, e) \<Rightarrow> map2 (+) H [a, b, c, d, e])"

function compress_all :: "u32 list \<Rightarrow> bytes \<Rightarrow> u32 list" where
  "compress_all H msg = (if length msg < 64 then H else compress_all (compress H (take 64 msg)) (drop 64 msg))"
  by pat_completeness auto
termination
  by (relation "measure (length \<circ> snd)") auto

declare compress_all.simps [simp del]

definition sha1_init :: "u32 list" where
  "sha1_init = [0x67452301, 0xEFCDAB89, 0x98BADCFE, 0x10325476, 0xC3D2E1F0]"

definition be64 :: "nat \<Rightarrow> bytes" where
  "be64 n = map (\<lambda>i. word_of_nat (n div 256 ^ (7 - i))) [0..<8]"

definition sha1_pad :: "bytes \<Rightarrow> bytes" where
  "sha1_pad msg = msg @ 0x80 # replicate ((119 - length msg mod 64) mod 64) 0 @ be64 (8 * length msg)"

definition sha1 :: "bytes \<Rightarrow> u32 list" where
  "sha1 msg = compress_all sha1_init (sha1_pad msg)"

section \<open>The compression function\<close>

lemma CircularShift_rotl:
  assumes "0 < n" "n < 32"
  shows "SHA1CircularShift n w = word_rotl n w"
proof (rule bit_word_eqI)
  fix k
  assume "k < LENGTH(32)"
  then have k: "k < 32" by simp
  have ff: "(0xFFFFFFFF :: u32) = - 1" by simp
  have "bit (word_rotl n w) k \<longleftrightarrow> bit w ((k + (32 - n)) mod 32)" using k assms by (simp add: bit_word_rotl_iff)
  also have "(k + (32 - n)) mod 32 = (if k < n then k + (32 - n) else k - n)" using k assms by (auto simp: mod_if)
  also have "bit w \<dots> \<longleftrightarrow> (if k < n then bit w (k + (32 - n)) else bit w (k - n))" by simp
  finally have "bit (word_rotl n w) k \<longleftrightarrow> (if k < n then bit w (k + (32 - n)) else bit w (k - n))" .
  moreover have "bit (SHA1CircularShift n w) k \<longleftrightarrow> n \<le> k \<and> bit w (k - n) \<or> bit w (32 - n + k)"
    using k by (simp add: SHA1CircularShift_def ff bit_or_iff bit_push_bit_iff bit_drop_bit_eq)
  moreover have "bit w (k + (32 - n)) \<Longrightarrow> k < n" using bit_u32_length [of w "k + (32 - n)"] assms by linarith
  ultimately show "bit (SHA1CircularShift n w) k = bit (word_rotl n w) k" by (auto simp: add.commute)
qed

lemma extend_words_sched:
  assumes "16 \<le> t"
  shows "extend_words t (map (sched block) [0..<t]) = map (sched block) [0..<Suc t]"
  using assms sched.simps [of block t] by (simp add: extend_words_def CircularShift_rotl)

lemma word_sequence_sched: "word_sequence block = map (sched block) [0..<80]"
proof -
  have "fold extend_words [16..<16 + n] (map (sched block) [0..<16]) = map (sched block) [0..<16 + n]" for n
  proof (induction n)
    case (Suc n)
    have "[16..<16 + Suc n] = [16..<16 + n] @ [16 + n]" by (simp only: add_Suc_right upt_Suc) simp
    then show ?case
      using Suc extend_words_sched [of "16 + n" block] by (simp only: fold_append fold_simps comp_apply) simp
  qed simp
  from this [of 64] have "fold extend_words [16..<80] (map (sched block) [0..<16]) = map (sched block) [0..<80]" by simp
  moreover have "map (block_word block) [0..<16] = map (sched block) [0..<16]" by (simp add: sched.simps)
  ultimately show ?thesis by (simp only: word_sequence_def)
qed

lemma choose_xor: "(x AND y) OR (NOT x AND z) = (x AND y) XOR (NOT x AND z)" for x y z :: u32
  by (rule bit_eqI) (auto simp: bit_simps)

lemma majority_xor: "(x AND y) OR (x AND z) OR (y AND z) = (x AND y) XOR (x AND z) XOR (y AND z)" for x y z :: u32
  by (rule bit_eqI) (auto simp: bit_simps)

lemma round_eq:
  "t < 20 \<Longrightarrow> round_0 (word_sequence block) t = sha_round block t"
  "20 \<le> t \<Longrightarrow> t < 40 \<Longrightarrow> round_1 (word_sequence block) t = sha_round block t"
  "40 \<le> t \<Longrightarrow> t < 60 \<Longrightarrow> round_2 (word_sequence block) t = sha_round block t"
  "60 \<le> t \<Longrightarrow> t < 80 \<Longrightarrow> round_3 (word_sequence block) t = sha_round block t"
  by (auto simp: round_0_def round_1_def round_2_def round_3_def sha_round_def word_sequence_sched CircularShift_rotl
      sha_f_def sha_k_def sha1_K_def choose_xor majority_xor fun_eq_iff)

lemma rounds_eq:
  fixes block
  defines "W \<equiv> word_sequence block"
  shows "fold (round_3 W) [60..<80] (fold (round_2 W) [40..<60] (fold (round_1 W) [20..<40] (fold (round_0 W) [0..<20] r))) =
    fold (sha_round block) [0..<80] r"
proof -
  have split: "[0..<80] = [0..<20] @ [20..<40] @ [40..<60] @ [60..<80]"
    using upt_add_eq_append [of 0 20 60] upt_add_eq_append [of 20 40 40] upt_add_eq_append [of 40 60 20] by simp
  have "fold (round_0 W) [0..<20] = fold (sha_round block) [0..<20]" "fold (round_1 W) [20..<40] = fold (sha_round block) [20..<40]"
    "fold (round_2 W) [40..<60] = fold (sha_round block) [40..<60]" "fold (round_3 W) [60..<80] = fold (sha_round block) [60..<80]"
    unfolding W_def by (auto intro!: fold_cong ext simp: round_eq)
  then show ?thesis by (simp only: split fold_append comp_apply)
qed

lemma list5: "length H = 5 \<Longrightarrow> H = [H ! 0, H ! 1, H ! 2, H ! 3, H ! 4]"
  using map_nth [of H] by (simp add: upt_rec [of _ 5] eval_nat_numeral)

lemma ProcessMessageBlock_compress:
  assumes "length (Message_Digest ctx) = 5"
  shows "SHA1ProcessMessageBlock ctx =
    ctx\<lparr>Message_Digest := compress (Message_Digest ctx) (Message_Block ctx), Message_Block_Index := 0\<rparr>"
proof -
  let ?H = "Message_Digest ctx"
  obtain a b c d e where r: "fold (sha_round (Message_Block ctx)) [0..<80] (?H ! 0, ?H ! 1, ?H ! 2, ?H ! 3, ?H ! 4) = (a, b, c, d, e)"
    by (metis prod_cases5)
  have "map2 (+) ?H [a, b, c, d, e] = [?H ! 0 + a, ?H ! 1 + b, ?H ! 2 + c, ?H ! 3 + d, ?H ! 4 + e]"
    by (subst list5 [OF assms]) simp
  then show ?thesis by (simp only: SHA1ProcessMessageBlock_def Let_def rounds_eq compress_def r prod.case)
qed

lemma length_compress: "length H = 5 \<Longrightarrow> length (compress H block) = 5"
  by (simp add: compress_def split: prod.splits)

section \<open>Blocks of a message\<close>

lemma compress_all_short: "length msg < 64 \<Longrightarrow> compress_all H msg = H"
  by (simp add: compress_all.simps)

lemma compress_all_block: "length b = 64 \<Longrightarrow> compress_all H (b @ msg) = compress_all (compress H b) msg"
  by (simp add: compress_all.simps [of H "b @ msg"])

lemma compress_all_append:
  "64 dvd length xs \<Longrightarrow> compress_all H (xs @ ys) = compress_all (compress_all H xs) ys"
proof (induction H xs rule: compress_all.induct)
  case (1 H xs)
  show ?case
  proof (cases "length xs < 64")
    case True
    then have "xs = []" using "1.prems" by (auto elim: dvdE)
    then show ?thesis by (simp add: compress_all_short)
  next
    case False
    then have "64 dvd length (drop 64 xs)" using "1.prems" by (simp add: dvd_diff_nat)
    from "1.IH" [OF False this] show ?thesis
      using False compress_all.simps [of H xs] compress_all_block [of "take 64 xs" H "drop 64 xs @ ys"]
      by (simp flip: append_assoc)
  qed
qed

lemma length_compress_all: "length H = 5 \<Longrightarrow> length (compress_all H msg) = 5"
proof (induction H msg rule: compress_all.induct)
  case (1 H msg)
  then show ?case by (simp add: compress_all.simps [of H msg] length_compress)
qed

text \<open>The bytes of a message that fill blocks, and those left over.\<close>

definition full :: "bytes \<Rightarrow> bytes" where
  "full m = take (64 * (length m div 64)) m"

definition left_over :: "bytes \<Rightarrow> bytes" where
  "left_over m = drop (64 * (length m div 64)) m"

lemma full_left: "full m @ left_over m = m" "64 dvd length (full m)" "length (left_over m) = length m mod 64"
proof -
  show "full m @ left_over m = m" by (simp add: full_def left_over_def)
  have "64 * (length m div 64) \<le> length m" by simp
  then have "length (full m) = 64 * (length m div 64)" by (simp add: full_def)
  then show "64 dvd length (full m)" by simp
  show "length (left_over m) = length m mod 64" by (simp add: left_over_def minus_mult_div_eq_mod)
qed

lemma full_snoc:
  "length m mod 64 < 63 \<Longrightarrow> full (m @ [b]) = full m \<and> left_over (m @ [b]) = left_over m @ [b]"
  "length m mod 64 = 63 \<Longrightarrow> full (m @ [b]) = m @ [b] \<and> left_over (m @ [b]) = []"
proof -
  have le: "64 * (length m div 64) \<le> length m" by simp
  assume "length m mod 64 < 63"
  then have "Suc (length m) div 64 = length m div 64" by (simp add: div_Suc mod_Suc)
  with le show "full (m @ [b]) = full m \<and> left_over (m @ [b]) = left_over m @ [b]" by (simp add: full_def left_over_def)
next
  assume "length m mod 64 = 63"
  then have "64 dvd Suc (length m)" by (simp add: mod_Suc dvd_eq_mod_eq_0)
  then have "64 * (Suc (length m) div 64) = Suc (length m)" by simp
  then show "full (m @ [b]) = m @ [b] \<and> left_over (m @ [b]) = []" by (simp add: full_def left_over_def)
qed

section \<open>The streaming invariant\<close>

definition sha_inv :: "SHA1Context \<Rightarrow> bytes \<Rightarrow> bool" where
  "sha_inv ctx m \<longleftrightarrow>
     Message_Digest ctx = compress_all sha1_init (full m) \<and> length (Message_Block ctx) = 64 \<and>
     Message_Block_Index ctx = length m mod 64 \<and> take (length m mod 64) (Message_Block ctx) = left_over m \<and>
     unat (Length_High ctx) * 4294967296 + unat (Length_Low ctx) = 8 * length m \<and>
     \<not> Computed ctx \<and> \<not> Corrupted ctx"

lemma count_byte_spec:
  assumes "unat (Length_High ctx) * 4294967296 + unat (Length_Low ctx) = 8 * n" "8 * Suc n < 18446744073709551616"
  shows "\<exists>hi lo. count_byte ctx = ctx\<lparr>Length_Low := lo, Length_High := hi\<rparr> \<and>
    unat hi * 4294967296 + unat lo = 8 * Suc n"
proof -
  have ff: "(x :: u32) AND 0xFFFFFFFF = x" for x
  proof -
    have "(0xFFFFFFFF :: u32) = - 1" by simp
    then show ?thesis by (simp only: and.right_neutral)
  qed
  let ?lo = "Length_Low ctx + 8" and ?hi = "Length_High ctx"
  note lt = unat_u32_less [of "Length_Low ctx"] unat_u32_less [of ?hi]
  have low: "unat ?lo = (unat (Length_Low ctx) + 8) mod 4294967296" by (simp add: unat_word_ariths)
  have "8 dvd unat (Length_High ctx) * 4294967296 + unat (Length_Low ctx)" using assms(1) by simp
  moreover have "(8 :: nat) dvd unat (Length_High ctx) * 4294967296"
    by (rule dvdI [of _ _ "unat (Length_High ctx) * 536870912"]) simp
  ultimately have "8 dvd unat (Length_Low ctx)" by (simp only: dvd_add_right_iff)
  then obtain k where k: "unat (Length_Low ctx) = 8 * k" by (rule dvdE)
  then have "Suc k \<le> 536870912" using lt(1) by linarith
  then have bound: "unat (Length_Low ctx) \<le> 4294967288" using k by linarith
  define l where "l = unat (Length_Low ctx)"
  have l: "l \<le> 4294967288" using bound by (simp add: l_def)
  have "unat ?lo = (if l = 4294967288 then 0 else l + 8)"
  proof (cases "l = 4294967288")
    case False
    then have "l + 8 < 4294967296" using l by linarith
    then show ?thesis using False low unfolding l_def [symmetric] by (simp only: mod_less if_False)
  qed (use low in \<open>simp add: l_def\<close>)
  moreover have "?lo = 0 \<longleftrightarrow> unat ?lo = 0" by (simp only: unat_eq_0)
  ultimately have zero: "?lo = 0 \<longleftrightarrow> l = 4294967288" and nonzero: "?lo \<noteq> 0 \<Longrightarrow> unat ?lo = l + 8" by auto
  show ?thesis
  proof (cases "?lo = 0")
    case True
    then have sum: "(unat ?hi + 1) * 4294967296 = 8 * Suc n" using assms(1) zero by (simp add: l_def)
    then have "(unat ?hi + 1) * 4294967296 < 4294967296 * 4294967296" using assms(2) by simp
    then have h: "unat ?hi + 1 < 4294967296" by (simp only: mult_less_cancel2)
    then have hi: "unat (?hi + 1) = unat ?hi + 1" by (simp add: unat_word_ariths)
    then have "?hi + 1 \<noteq> 0" by (metis unat_0 Suc_eq_plus1 nat.simps(3))
    then show ?thesis
      using True sum hi by (intro exI [of _ "?hi + 1"] exI [of _ 0]) (simp add: count_byte_def Let_def ff)
  next
    case False
    then show ?thesis
      using False assms(1) nonzero by (intro exI [of _ ?hi] exI [of _ ?lo]) (simp add: count_byte_def Let_def ff l_def)
  qed
qed

lemma sha_inv_digest: "sha_inv ctx m \<Longrightarrow> length (Message_Digest ctx) = 5"
  by (simp add: sha_inv_def length_compress_all sha1_init_def)

lemma take_store: "i < length xs \<Longrightarrow> take (Suc i) (xs[i := b]) = take i xs @ [b]"
  by (simp add: take_Suc_conv_app_nth)

lemma and_FF: "(b :: u8) AND 0xFF = b"
proof -
  have "(0xFF :: u8) = - 1" by simp
  then show ?thesis by (simp only: and.right_neutral)
qed

lemma full_block_digest:
  assumes "length m mod 64 = 63"
  shows "compress (compress_all sha1_init (full m)) (left_over m @ [b]) = compress_all sha1_init (m @ [b])"
proof -
  have "length (left_over m @ [b]) = 64" using full_left(3) [of m] assms by simp
  then show ?thesis
    using compress_all_append [OF full_left(2), of sha1_init m "left_over m @ [b]"] full_left(1) [of m]
      compress_all_block [of "left_over m @ [b]" "compress_all sha1_init (full m)" "[]"]
    by (simp add: compress_all_short flip: append_assoc)
qed

lemma input_byte_step:
  assumes inv: "sha_inv ctx m" and len: "8 * Suc (length m) < 18446744073709551616"
  obtains ctx' where "input_loop ctx (b # rest) = input_loop ctx' rest" "sha_inv ctx' (m @ [b])"
proof -
  let ?i = "length m mod 64"
  have i: "?i < 64" by simp
  have idx: "Message_Block_Index ctx = ?i" "length (Message_Block ctx) = 64" "take ?i (Message_Block ctx) = left_over m"
    "Message_Digest ctx = compress_all sha1_init (full m)" "\<not> Computed ctx" "\<not> Corrupted ctx"
    and cnt: "unat (Length_High ctx) * 4294967296 + unat (Length_Low ctx) = 8 * length m"
    using inv by (simp_all add: sha_inv_def)
  let ?c1 = "ctx\<lparr>Message_Block := (Message_Block ctx)[?i := b], Message_Block_Index := Suc ?i\<rparr>"
  have st: "store_byte ctx (b AND 0xFF) = Inr ?c1" using idx i by (simp add: store_byte_def and_FF)
  have "unat (Length_High ?c1) * 4294967296 + unat (Length_Low ?c1) = 8 * length m" using cnt by simp
  from count_byte_spec [OF this len] obtain hi lo where
    c2: "count_byte ?c1 = ?c1\<lparr>Length_Low := lo, Length_High := hi\<rparr>" and hl: "unat hi * 4294967296 + unat lo = 8 * Suc (length m)"
    by blast
  let ?c2 = "?c1\<lparr>Length_Low := lo, Length_High := hi\<rparr>"
  have filled: "take (Suc ?i) (Message_Block ?c2) = left_over m @ [b]" using take_store [of ?i "Message_Block ctx" b] idx i by simp
  show thesis
  proof (cases "?i = 63")
    case False
    then have lt: "?i < 63" using i by linarith
    then have "length (m @ [b]) mod 64 = Suc ?i" by (simp add: mod_Suc)
    then have "sha_inv ?c2 (m @ [b])"
      using full_snoc(1) [OF lt, of b] filled idx hl by (simp add: sha_inv_def)
    moreover have "input_loop ctx (b # rest) = input_loop ?c2 rest" using st c2 lt idx by (simp add: Let_def)
    ultimately show thesis by (intro that)
  next
    case True
    have "length (left_over m @ [b]) = 64" using full_left(3) [of m] True by simp
    then have blk: "Message_Block ?c2 = left_over m @ [b]" using filled True idx by simp
    have "length (Message_Digest ?c2) = 5" using sha_inv_digest [OF inv] by simp
    then have p: "SHA1ProcessMessageBlock ?c2 =
        ?c2\<lparr>Message_Digest := compress_all sha1_init (m @ [b]), Message_Block_Index := 0\<rparr>"
      using ProcessMessageBlock_compress [of ?c2] blk full_block_digest [OF True, of b] idx(4) by simp
    have "length (m @ [b]) mod 64 = 0" using True by (simp add: mod_Suc)
    then have "sha_inv (SHA1ProcessMessageBlock ?c2) (m @ [b])"
      using full_snoc(2) [OF True, of b] idx hl by (simp add: sha_inv_def p)
    moreover have "input_loop ctx (b # rest) = input_loop (SHA1ProcessMessageBlock ?c2) rest"
      using st c2 True idx by (simp add: Let_def)
    ultimately show thesis by (intro that)
  qed
qed

lemma input_loop_inv:
  "sha_inv ctx m \<Longrightarrow> 8 * (length m + length bs) < 18446744073709551616 \<Longrightarrow>
     \<exists>ctx'. input_loop ctx bs = Inr ctx' \<and> sha_inv ctx' (m @ bs)"
proof (induction bs arbitrary: ctx m)
  case (Cons b bs)
  have "8 * Suc (length m) < 18446744073709551616" using Cons.prems(2) by simp
  from input_byte_step [OF Cons.prems(1) this] obtain ctx' where "input_loop ctx (b # bs) = input_loop ctx' bs" "sha_inv ctx' (m @ [b])"
    by blast
  then show ?case using Cons.IH [of ctx' "m @ [b]"] Cons.prems(2) by simp
qed simp

lemma SHA1Input_inv:
  "sha_inv ctx m \<Longrightarrow> 8 * (length m + length bs) < 18446744073709551616 \<Longrightarrow>
     \<exists>ctx'. SHA1Input ctx bs = Inr ctx' \<and> sha_inv ctx' (m @ bs)"
  using input_loop_inv [of ctx m bs] by (auto simp: SHA1Input_def sha_inv_def)

lemma SHA1Reset_inv: "length (Message_Block ctx) = 64 \<Longrightarrow> sha_inv (SHA1Reset ctx) []"
  by (simp add: sha_inv_def SHA1Reset_def full_def left_over_def compress_all_short sha1_init_def)

section \<open>Padding\<close>

lemma zero_fill_eq:
  "length (Message_Block ctx) = 64 \<Longrightarrow> limit \<le> 64 \<Longrightarrow> Message_Block_Index ctx \<le> limit \<Longrightarrow>
     zero_fill limit ctx = Inr (ctx\<lparr>Message_Block := take (Message_Block_Index ctx) (Message_Block ctx) @
       replicate (limit - Message_Block_Index ctx) 0 @ drop limit (Message_Block ctx), Message_Block_Index := limit\<rparr>)"
proof (induction "limit - Message_Block_Index ctx" arbitrary: ctx)
  case 0
  then show ?case by (simp add: zero_fill.simps)
next
  case (Suc k)
  let ?i = "Message_Block_Index ctx"
  let ?c = "ctx\<lparr>Message_Block := (Message_Block ctx)[?i := 0], Message_Block_Index := Suc ?i\<rparr>"
  have lt: "?i < limit" "?i < 64" using Suc.hyps(2) Suc.prems by linarith+
  have "store_byte ctx 0 = Inr ?c" using lt by (simp add: store_byte_def)
  then have "zero_fill limit ctx = zero_fill limit ?c" using lt by (simp add: zero_fill.simps [of limit ctx])
  moreover have "k = limit - Message_Block_Index ?c" "Message_Block_Index ?c \<le> limit" using Suc.hyps(2) lt by simp_all
  note Suc.hyps(1) [OF this(1) _ Suc.prems(2) this(2)]
  moreover have "take (Suc ?i) ((Message_Block ctx)[?i := 0]) = take ?i (Message_Block ctx) @ [0]"
    using take_store [of ?i "Message_Block ctx" 0] lt Suc.prems(1) by simp
  moreover have "limit - ?i = Suc (limit - Suc ?i)" using lt by linarith
  ultimately show ?case using Suc.prems(1) lt by (simp add: drop_update_cancel)
qed

lemma low_byte: "ucast (drop_bit j w AND 0xFF) = (word_of_nat (unat w div 2 ^ j) :: u8)" for w :: u32
proof -
  have "drop_bit j w AND 0xFF = take_bit 8 (drop_bit j w)" by (simp add: take_bit_eq_mask mask_eq_exp_minus_1)
  moreover have "ucast (take_bit 8 (drop_bit j w)) = (ucast (drop_bit j w) :: u8)"
    by (rule bit_eqI) (auto simp: bit_simps)
  ultimately have "ucast (drop_bit j w AND 0xFF) = (ucast (drop_bit j w) :: u8)" by simp
  moreover have "take_bit 32 (unat w) = unat w" using unat_u32_less [of w] by (simp add: take_bit_nat_eq_self)
  then have u: "unat w div 2 ^ j = unat (drop_bit j w)" by (simp add: unsigned_drop_bit_eq flip: drop_bit_eq_div)
  have "(word_of_nat (unat w div 2 ^ j) :: u8) = ucast (drop_bit j w)" unfolding u by simp
  ultimately show ?thesis by simp
qed

lemma u8_of_nat_eq: "(word_of_nat x :: u8) = word_of_nat y \<longleftrightarrow> x mod 256 = y mod 256"
  by (simp add: word_of_nat_eq_iff take_bit_eq_mod)

lemma be64_split:
  assumes "lo < 4294967296"
  shows "be64 (hi * 4294967296 + lo) =
    map word_of_nat [hi div 2 ^ 24, hi div 2 ^ 16, hi div 2 ^ 8, hi, lo div 2 ^ 24, lo div 2 ^ 16, lo div 2 ^ 8, lo]"
proof -
  have up: "(hi * 4294967296 + lo) div (4294967296 * k) = hi div k" for k
    using assms by (simp add: div_mult2_eq)
  have down: "(hi * (256 * k * d) + lo) div d mod 256 = lo div d mod 256" if "0 < d" for k d
  proof -
    have "hi * (256 * k * d) + lo = lo + (hi * k * 256) * d" by (simp add: algebra_simps)
    then have "(hi * (256 * k * d) + lo) div d = hi * k * 256 + lo div d"
      using that by (metis add.commute div_mult_self1 less_not_refl2)
    then show ?thesis by simp
  qed
  have e: "[0..<8] = [0, 1, 2, 3, 4, 5, 6, 7 :: nat]" by (simp add: upt_rec)
  have z: "(4294967296 :: u8) = 0" by simp
  have "lo div 16777216 < 256" "lo div 4294967296 = 0" using assms by (simp_all add: less_mult_imp_div_less)
  with assms show ?thesis
    unfolding be64_def e
    using up [of "2 ^ 24"] up [of "2 ^ 16"] up [of "2 ^ 8"] up [of 1]
      down [of "2 ^ 24" 1] down [of "2 ^ 16" "2 ^ 8"] down [of "2 ^ 8" "2 ^ 16"] down [of 1 "2 ^ 24"]
    by (simp add: u8_of_nat_eq z)
qed

lemma store_length_eq:
  assumes "length (Message_Block ctx) = 64" "unat (Length_High ctx) * 4294967296 + unat (Length_Low ctx) = n"
  shows "store_length ctx = ctx\<lparr>Message_Block := take 56 (Message_Block ctx) @ be64 n\<rparr>"
proof -
  have upd: "xs[56 := a, 57 := b, 58 := c, 59 := d, 60 := e, 61 := f, 62 := g, 63 := h] = take 56 xs @ [a, b, c, d, e, f, g, h]"
    if "length xs = 64" for xs :: bytes and a b c d e f g h
  proof (rule nth_equalityI)
    fix i
    assume "i < length (xs[56 := a, 57 := b, 58 := c, 59 := d, 60 := e, 61 := f, 62 := g, 63 := h])"
    then have "i < 56 \<or> i = 56 \<or> i = 57 \<or> i = 58 \<or> i = 59 \<or> i = 60 \<or> i = 61 \<or> i = 62 \<or> i = 63"
      using that unfolding length_list_update by linarith
    then show "xs[56 := a, 57 := b, 58 := c, 59 := d, 60 := e, 61 := f, 62 := g, 63 := h] ! i =
        (take 56 xs @ [a, b, c, d, e, f, g, h]) ! i"
      using that by (elim disjE) (simp_all add: nth_append)
  qed (use that in simp)
  have l0: "ucast (w AND 0xFF) = (word_of_nat (unat w) :: u8)" for w :: u32
    using low_byte [of 0 w] by (simp only: drop_bit_0 id_apply power_0 div_by_1)
  have "be64 n = [ucast (drop_bit 24 (Length_High ctx) AND 0xFF), ucast (drop_bit 16 (Length_High ctx) AND 0xFF),
      ucast (drop_bit 8 (Length_High ctx) AND 0xFF), ucast (Length_High ctx AND 0xFF),
      ucast (drop_bit 24 (Length_Low ctx) AND 0xFF), ucast (drop_bit 16 (Length_Low ctx) AND 0xFF),
      ucast (drop_bit 8 (Length_Low ctx) AND 0xFF), ucast (Length_Low ctx AND 0xFF)]"
    unfolding low_byte
    unfolding l0 assms(2) [symmetric] be64_split [OF unat_u32_less] by (simp only: list.map)
  then show ?thesis by (simp add: store_length_def upd [OF assms(1)])
qed

text \<open>The standard's padding leaves one more block, or two if the length does not fit behind the message.\<close>

lemma length_full_digest: "length (compress_all sha1_init (full m)) = 5"
  by (simp add: length_compress_all sha1_init_def)

lemma length_be64 [simp]: "length (be64 n) = 8"
  by (simp add: be64_def)

lemma sha1_last_blocks:
  fixes m :: bytes
  defines "i \<equiv> length m mod 64" and "H \<equiv> compress_all sha1_init (full m)"
  shows "i \<le> 55 \<Longrightarrow> sha1 m = compress H (left_over m @ 0x80 # replicate (55 - i) 0 @ be64 (8 * length m))"
    and "55 < i \<Longrightarrow> sha1 m =
      compress (compress H (left_over m @ 0x80 # replicate (63 - i) 0)) (replicate 56 0 @ be64 (8 * length m))"
proof -
  let ?L = "left_over m" and ?n = "8 * length m"
  have i: "i < 64" by (simp add: i_def)
  have L: "length ?L = i" using full_left(3) [of m] by (simp add: i_def)
  have "full m @ ?L @ p = m @ p" for p by (metis append_assoc full_left(1))
  then have spec: "sha1 m = compress_all H (?L @ 0x80 # replicate ((119 - i) mod 64) 0 @ be64 ?n)"
    using compress_all_append [OF full_left(2), of sha1_init m "?L @ 0x80 # replicate ((119 - i) mod 64) 0 @ be64 ?n"]
    by (simp only: sha1_def sha1_pad_def i_def H_def)
  show "sha1 m = compress H (?L @ 0x80 # replicate (55 - i) 0 @ be64 ?n)" if "i \<le> 55"
  proof -
    have "119 - i = 55 - i + 64" using that by linarith
    then have "(119 - i) mod 64 = 55 - i" by (simp only: mod_add_self2) (simp only: mod_less)
    then show ?thesis
      using spec compress_all_block [of "?L @ 0x80 # replicate (55 - i) 0 @ be64 ?n" H "[]"] L that by (simp add: compress_all_short)
  qed
  show "sha1 m = compress (compress H (?L @ 0x80 # replicate (63 - i) 0)) (replicate 56 0 @ be64 ?n)" if "55 < i"
  proof -
    let ?b1 = "?L @ 0x80 # replicate (63 - i) 0" and ?b2 = "replicate 56 0 @ be64 ?n"
    have "119 - i < 64" "119 - i = (63 - i) + 56" using that i by linarith+
    then have "(119 - i) mod 64 = (63 - i) + 56" by (simp only: mod_less)
    then have "?L @ 0x80 # replicate ((119 - i) mod 64) 0 @ be64 ?n = ?b1 @ ?b2"
      by (simp only: replicate_add append_assoc append_Cons)
    then show ?thesis
      using spec compress_all_block [of ?b1 H ?b2] compress_all_block [of ?b2 "compress H ?b1" "[]"] L i
      by (simp add: compress_all_short)
  qed
qed

lemma PadMessage_digest:
  assumes inv: "sha_inv ctx m"
  obtains ctx' where "SHA1PadMessage ctx = Inr ctx'" "Message_Digest ctx' = sha1 m"
proof -
  let ?i = "length m mod 64" and ?n = "8 * length m" and ?H = "compress_all sha1_init (full m)"
  let ?L = "left_over m" and ?B = "Message_Block ctx"
  have i: "?i < 64" by simp
  have f: "Message_Block_Index ctx = ?i" "length ?B = 64" "take ?i ?B = ?L" "Message_Digest ctx = ?H"
    "unat (Length_High ctx) * 4294967296 + unat (Length_Low ctx) = ?n" using inv by (simp_all add: sha_inv_def)
  have L: "length ?L = ?i" by (rule full_left(3))
  note H5 = length_full_digest [of m]
  let ?c1 = "ctx\<lparr>Message_Block := ?B[?i := 0x80], Message_Block_Index := Suc ?i\<rparr>"
  have st: "store_byte ctx 0x80 = Inr ?c1" using f(1) i by (simp add: store_byte_def)
  have t1: "take (Suc ?i) (?B[?i := 0x80]) = ?L @ [0x80]" using take_store [of ?i ?B "0x80"] f i by simp
  show thesis
  proof (cases "?i > 55")
    case False
    let ?blk = "?L @ 0x80 # replicate (55 - ?i) 0 @ be64 ?n"
    have "sha1 m = compress ?H ?blk" using sha1_last_blocks(1) [of m] False by simp
    moreover have "zero_fill 56 ?c1 = Inr (?c1\<lparr>Message_Block := (?L @ [0x80]) @ replicate (56 - Suc ?i) 0 @ drop 56 (?B[?i := 0x80]),
        Message_Block_Index := 56\<rparr>)" (is "_ = Inr ?c2")
      using zero_fill_eq [of ?c1 56] False f t1 by simp
    moreover have "56 - ?i = Suc (55 - ?i)" using False by linarith
    then have "store_length ?c2 = ?c2\<lparr>Message_Block := ?blk\<rparr>" using store_length_eq [of ?c2 ?n] L f False by simp
    moreover have "SHA1ProcessMessageBlock (?c2\<lparr>Message_Block := ?blk\<rparr>) =
        ?c2\<lparr>Message_Block := ?blk, Message_Digest := compress ?H ?blk, Message_Block_Index := 0\<rparr>"
      using ProcessMessageBlock_compress [of "?c2\<lparr>Message_Block := ?blk\<rparr>"] f(4) H5 by simp
    ultimately show thesis using that f(1) st False by (simp add: SHA1PadMessage_def)
  next
    case True
    let ?b1 = "?L @ 0x80 # replicate (63 - ?i) 0" and ?b2 = "replicate 56 0 @ be64 ?n"
    have "sha1 m = compress (compress ?H ?b1) ?b2" using sha1_last_blocks(2) [of m] True by simp
    moreover have z1: "zero_fill 64 ?c1 = Inr (?c1\<lparr>Message_Block := ?b1, Message_Block_Index := 64\<rparr>)" (is "_ = Inr ?c2")
      using zero_fill_eq [of ?c1 64] i f t1 by simp
    moreover have p1: "SHA1ProcessMessageBlock ?c2 = ?c2\<lparr>Message_Digest := compress ?H ?b1, Message_Block_Index := 0\<rparr>"
      (is "_ = ?c3") using ProcessMessageBlock_compress [of ?c2] f(4) H5 by simp
    moreover have lb: "length ?b1 = 64" using L i by simp
    then have z2: "zero_fill 56 ?c3 = Inr (?c3\<lparr>Message_Block := replicate 56 0 @ drop 56 ?b1, Message_Block_Index := 56\<rparr>)"
      (is "_ = Inr ?c4") using zero_fill_eq [of ?c3 56] by simp
    moreover have "store_length ?c4 = ?c4\<lparr>Message_Block := ?b2\<rparr>"
      using store_length_eq [of ?c4 ?n] lb f by simp
    moreover have "SHA1ProcessMessageBlock (?c4\<lparr>Message_Block := ?b2\<rparr>) =
        ?c4\<lparr>Message_Block := ?b2, Message_Digest := compress (compress ?H ?b1) ?b2, Message_Block_Index := 0\<rparr>"
      using ProcessMessageBlock_compress [of "?c4\<lparr>Message_Block := ?b2\<rparr>"] length_compress [OF H5] by simp
    ultimately show thesis using that f(1) st True by (simp add: SHA1PadMessage_def)
  qed
qed

text \<open>Feeding a message in pieces.\<close>

fun SHA1Input_all :: "SHA1Context \<Rightarrow> bytes list \<Rightarrow> fault + SHA1Context" where
  "SHA1Input_all ctx [] = Inr ctx"
| "SHA1Input_all ctx (piece # pieces) =
     (case SHA1Input ctx piece of Inl f \<Rightarrow> Inl f | Inr ctx' \<Rightarrow> SHA1Input_all ctx' pieces)"

lemma SHA1Input_all_inv:
  "sha_inv ctx m \<Longrightarrow> 8 * (length m + length (concat pieces)) < 18446744073709551616 \<Longrightarrow>
     \<exists>ctx'. SHA1Input_all ctx pieces = Inr ctx' \<and> sha_inv ctx' (m @ concat pieces)"
proof (induction pieces arbitrary: ctx m)
  case (Cons p pieces)
  have "8 * (length m + length p) < 18446744073709551616" using Cons.prems(2) by simp
  from SHA1Input_inv [OF Cons.prems(1) this] obtain ctx' where "SHA1Input ctx p = Inr ctx'" "sha_inv ctx' (m @ p)" by blast
  then show ?case using Cons.IH [of ctx' "m @ p"] Cons.prems(2) by simp
qed simp

text \<open>
  C31.  The streaming hash computes SHA-1: after a reset, feeding a message of fewer than \<open>2 ^ 61\<close> bytes in any
  pieces and asking for the result never writes outside the block buffer, succeeds, and leaves
  the SHA-1 digest of the whole message, as the standard defines it by padding and folding the
  compression function, in the context.
\<close>

theorem sha1_streaming_correct:
  assumes "length (Message_Block ctx) = 64" "length (concat pieces) < 2 ^ 61"
  shows "\<exists>ctx1 ctx2. SHA1Input_all (SHA1Reset ctx) pieces = Inr ctx1 \<and> SHA1Result ctx1 = Inr (1, ctx2) \<and>
    Message_Digest ctx2 = sha1 (concat pieces)"
proof -
  have "8 * (length [] + length (concat pieces)) < 18446744073709551616" using assms(2) by simp
  from SHA1Input_all_inv [OF SHA1Reset_inv [OF assms(1)] this] obtain ctx1 where
    1: "SHA1Input_all (SHA1Reset ctx) pieces = Inr ctx1" "sha_inv ctx1 (concat pieces)" by auto
  obtain ctx2 where "SHA1PadMessage ctx1 = Inr ctx2" "Message_Digest ctx2 = sha1 (concat pieces)"
    by (rule PadMessage_digest [OF 1(2)])
  then have "SHA1Result ctx1 = Inr (1, ctx2\<lparr>Computed := True\<rparr>)"
    "Message_Digest (ctx2\<lparr>Computed := True\<rparr>) = sha1 (concat pieces)"
    using 1(2) by (simp_all add: SHA1Result_def sha_inv_def)
  with 1(1) show ?thesis by blast
qed

definition blank_context :: SHA1Context where
  "blank_context = \<lparr>Message_Digest = [], Length_Low = 0, Length_High = 0, Message_Block = replicate 64 0,
     Message_Block_Index = 0, Computed = False, Corrupted = False\<rparr>"

theorem sha1_streaming_correct_witness:
  "\<exists>ctx1 ctx2. SHA1Input_all (SHA1Reset blank_context) [[0x61], [0x62, 0x63]] = Inr ctx1 \<and>
     SHA1Result ctx1 = Inr (1, ctx2) \<and> Message_Digest ctx2 = sha1 [0x61, 0x62, 0x63]"
  using sha1_streaming_correct [of blank_context "[[0x61], [0x62, 0x63]]"] by (simp add: blank_context_def)

end
