(* ===== verification/SR_Vns_Recv.thy ===== *)
theory SR_Vns_Recv
  imports SR_Router SR_Load_Rt SHA1
begin

unbundle bit_operations_syntax

text \<open>
  The receiving half of \<^verbatim>\<open>sr_vns_comm.c\<close>: how a message of the server is read from the socket,
  and what each kind of message does.  The socket is the sequence of what successive calls of
  \<^verbatim>\<open>recv\<close> and \<^verbatim>\<open>read\<close> meet: bytes, in pieces of any size, a signal, an error, the end of the
  stream.  A read loop that does not end, because it waits for ever or spins at the end of the
  stream, has no value (\<open>None\<close>).
\<close>

section \<open>Constants and messages of vnscommand.h\<close>

definition VNSOPEN :: u32 where "VNSOPEN = 1"
definition VNSCLOSE :: u32 where "VNSCLOSE = 2"
definition VNSBANNER :: u32 where "VNSBANNER = 8"
definition VNSHWINFO :: u32 where "VNSHWINFO = 16"
definition VNS_RTABLE :: u32 where "VNS_RTABLE = 32"
definition VNS_OPEN_TEMPLATE :: u32 where "VNS_OPEN_TEMPLATE = 64"
definition VNS_AUTH_REQUEST :: u32 where "VNS_AUTH_REQUEST = 128"
definition VNS_AUTH_REPLY :: u32 where "VNS_AUTH_REPLY = 256"
definition VNS_AUTH_STATUS :: u32 where "VNS_AUTH_STATUS = 512"
definition IDSIZE :: nat where "IDSIZE = 32"

lemmas vns_commands = VNSOPEN_def VNSCLOSE_def VNSPACKET_def VNSBANNER_def VNSHWINFO_def VNS_RTABLE_def
  VNS_OPEN_TEMPLATE_def VNS_AUTH_REQUEST_def VNS_AUTH_REPLY_def VNS_AUTH_STATUS_def

definition HWINTERFACE :: u32 where "HWINTERFACE = 1"
definition HWETHER :: u32 where "HWETHER = 32"
definition HWETHIP :: u32 where "HWETHIP = 64"
definition sizeof_c_hw_entry :: nat where "sizeof_c_hw_entry = 36"

text \<open>
  The messages the client sends: \<^verbatim>\<open>c_open\<close>, \<^verbatim>\<open>c_open_template\<close> (without source filters) and
  \<^verbatim>\<open>c_auth_reply\<close> followed by the user name and the digest.
\<close>

definition c_open :: "sr_instance \<Rightarrow> bytes" where
  "c_open sr = le32 (htonl 108) @ le32 (htonl VNSOPEN) @ le16 (htons (topo_id sr)) @ le16 0 @
     strncpy (host sr) IDSIZE @ strncpy (user sr) IDSIZE @ replicate IDSIZE 0"

definition c_open_template :: "sr_instance \<Rightarrow> bytes" where
  "c_open_template sr = le32 (htonl 70) @ le32 (htonl VNS_OPEN_TEMPLATE) @
     strncpy (template sr) 30 @ strncpy (host sr) IDSIZE"

definition c_auth_reply :: "bytes \<Rightarrow> u32 list \<Rightarrow> bytes" where
  "c_auth_reply name digest =
     le32 (htonl (word_of_nat (12 + length name + 20))) @ le32 (htonl VNS_AUTH_REPLY) @
     le32 (htonl (word_of_nat (length name))) @ name @ concat (map (\<lambda>w. le32 (htonl w)) digest)"

section \<open>The session\<close>

datatype sock_event = Data bytes | Eof | Intr | Err

record session =
  router :: sr_instance
  inbox :: "sock_event list"
  closed :: bool
  fs :: files
  shown :: "bytes list"

text \<open>
  \<open>fs\<close> are the files of the working directory, \<open>shown\<close> the texts of the server that the client has
  printed.  The environment of one message adds to that of the router the result of \<^verbatim>\<open>send\<close>,
  whether a file can be opened for writing, and the contents of memory that is read or copied before
  it is written: the structure allocated for a new interface, the array \<^verbatim>\<open>auth_key\<close> on the stack
  and the hash context.
\<close>

record vns_env =
  os :: sr_env
  env_send :: "bytes \<Rightarrow> int"
  env_fopen_w :: "bytes \<Rightarrow> bool"
  env_raw_if :: "nat \<Rightarrow> sr_if"
  env_raw_key :: bytes
  env_raw_sha :: SHA1Context

section \<open>Reading from the socket\<close>

datatype recv_result = Got bytes | Interrupted | Failed

fun recv_event :: "nat \<Rightarrow> sock_event list \<Rightarrow> (recv_result \<times> sock_event list) option" where
  "recv_event n [] = None"
| "recv_event n (Data bs # es) =
     (if bs = [] then recv_event n es
      else Some (Got (take n bs), if length bs \<le> n then es else Data (drop n bs) # es))"
| "recv_event n (Eof # es) = Some (Got [], Eof # es)"
| "recv_event n (Intr # es) = Some (Interrupted, es)"
| "recv_event n (Err # es) = Some (Failed, es)"

definition recv :: "nat \<Rightarrow> session \<Rightarrow> (recv_result \<times> session) option" where
  "recv n s = (if closed s then Some (Failed, s)
     else map_option (\<lambda>(r, es). (r, s\<lparr>inbox := es\<rparr>)) (recv_event n (inbox s)))"

text \<open>
  The two loops of \<^verbatim>\<open>sr_read_from_server_expect\<close>, for the four bytes of the length and for the rest
  of the message: an interrupted call is repeated, any other error ends the function (after
  closing the socket in the second loop), and the loop goes on until all bytes are there.
\<close>

partial_function (option) read_len :: "bytes \<Rightarrow> session \<Rightarrow> (bytes option \<times> session) option" where
  "read_len got s =
     (if length got < 4 then
        Option.bind (recv (4 - length got) s) (\<lambda>(r, s1).
          case r of Interrupted \<Rightarrow> read_len got s1
          | Failed \<Rightarrow> Some (None, s1)
          | Got bs \<Rightarrow> read_len (got @ bs) s1)
      else Some (Some got, s))"

partial_function (option) read_body :: "nat \<Rightarrow> bytes \<Rightarrow> session \<Rightarrow> (bytes option \<times> session) option" where
  "read_body n got s =
     (if length got < n then
        Option.bind (recv (n - length got) s) (\<lambda>(r, s1).
          case r of Interrupted \<Rightarrow> read_body n got s1
          | Failed \<Rightarrow> Some (None, s1\<lparr>closed := True\<rparr>)
          | Got bs \<Rightarrow> read_body n (got @ bs) s1)
      else Some (Some got, s))"

section \<open>Packets\<close>

text \<open>
  The interface name of a packet is a pointer into the message.  \<^verbatim>\<open>strncmp\<close> reads past the end of
  the message when fewer than 32 bytes are left, none of them is NUL and all agree with the name it
  is compared with.
\<close>

definition name_over_read :: "bytes \<Rightarrow> bytes \<Rightarrow> bool" where
  "name_over_read ifn name \<longleftrightarrow> length name < sr_IFACE_NAMELEN \<and> 0 \<notin> set name \<and> take (length name) ifn = name"

fun get_interface_ptr :: "sr_if list \<Rightarrow> bytes \<Rightarrow> fault + sr_if option" where
  "get_interface_ptr [] name = Inr None"
| "get_interface_ptr (i # rest) name =
     (if name_over_read (if_name i) name then Inl OutOfBounds
      else if strncmp_eq (if_name i) name sr_IFACE_NAMELEN then Inr (Some i)
      else get_interface_ptr rest name)"

definition sr_arp_req_not_for_us :: "sr_instance \<Rightarrow> bytes \<Rightarrow> u32 \<Rightarrow> bytes \<Rightarrow> fault + bool" where
  "sr_arp_req_not_for_us sr packet len interface =
     (case get_interface_ptr (if_list sr) interface of Inl f \<Rightarrow> Inl f | Inr found \<Rightarrow>
        if unat len < sizeof_eth + sizeof_arp then Inr False
        else case found of None \<Rightarrow> Inl AssertFailed | Some iface \<Rightarrow>
          (case get_eth packet 0 of Inl f \<Rightarrow> Inl f | Inr e_hdr \<Rightarrow>
             if ether_type e_hdr \<noteq> htons ethertype_arp then Inr False
             else case get_arp packet sizeof_eth of Inl f \<Rightarrow> Inl f | Inr a_hdr \<Rightarrow>
               Inr (ar_op a_hdr = htons arp_op_request \<and> ar_tip a_hdr \<noteq> if_ip iface)))"

text \<open>
  The case \<^verbatim>\<open>VNSPACKET\<close>: the length of the frame is computed in unsigned arithmetic and wraps for a
  message shorter than its header.
\<close>

definition vns_packet :: "vns_env \<Rightarrow> nat \<Rightarrow> sr_instance \<Rightarrow> bytes \<Rightarrow> fault + sr_instance" where
  "vns_packet env depth sr buf =
     (let len = ntohl (ld32 buf 0);
          packet = drop sizeof_c_packet_header buf; name = drop sizeof_c_base buf;
          plen = len - word_of_nat sizeof_c_packet_header in
      case sr_arp_req_not_for_us sr packet plen name of Inl f \<Rightarrow> Inl f
      | Inr True \<Rightarrow> Inr sr
      | Inr False \<Rightarrow>
          (case sr_log_packet (os env) sr packet (sint plen) of Inl f \<Rightarrow> Inl f
           | Inr sr1 \<Rightarrow> sr_handlepacket (os env) depth sr1 packet name))"

section \<open>Hardware information\<close>

definition hw_entry :: "vns_env \<Rightarrow> bytes \<Rightarrow> nat \<Rightarrow> sr_instance \<Rightarrow> fault + sr_instance" where
  "hw_entry env buf i sr =
     (case rd_bytes buf (8 + sizeof_c_hw_entry * i) sizeof_c_hw_entry of Inl f \<Rightarrow> Inl f | Inr entry \<Rightarrow>
        let key = ntohl (ld32 entry 0); value = drop 4 entry in
        if key = HWINTERFACE then sr_add_interface (os env) (env_raw_if env i) sr value
        else if key = HWETHIP then sr_set_ether_ip sr (ld32 value 0)
        else if key = HWETHER then sr_set_ether_addr sr value
        else Inr sr)"

fun hwinfo_loop :: "vns_env \<Rightarrow> bytes \<Rightarrow> nat list \<Rightarrow> sr_instance \<Rightarrow> fault + sr_instance" where
  "hwinfo_loop env buf [] sr = Inr sr"
| "hwinfo_loop env buf (i # is) sr =
     (case hw_entry env buf i sr of Inl f \<Rightarrow> Inl f | Inr sr1 \<Rightarrow> hwinfo_loop env buf is sr1)"

definition sr_handle_hwinfo :: "vns_env \<Rightarrow> sr_instance \<Rightarrow> bytes \<Rightarrow> fault + (nat \<times> sr_instance)" where
  "sr_handle_hwinfo env sr buf =
     (let num_entries = (unat (ntohl (ld32 buf 0)) - 8) div sizeof_c_hw_entry in
      case hwinfo_loop env buf [0..<num_entries] sr of Inl f \<Rightarrow> Inl f
      | Inr sr1 \<Rightarrow> (case sr_print_if_list sr1 of Inl f \<Rightarrow> Inl f | Inr _ \<Rightarrow> Inr (num_entries, sr1)))"

section \<open>Routing table, authentication\<close>

text \<open>
  \<^verbatim>\<open>sr_handle_rtable\<close>: the file name is built in 40 bytes; the size of the table is the length of
  the message less the header, in unsigned arithmetic.
\<close>

definition sr_handle_rtable :: "vns_env \<Rightarrow> files \<Rightarrow> bytes \<Rightarrow> fault + (int \<times> files)" where
  "sr_handle_rtable env files buf =
     (case c_string (drop 8 buf) of Inl f \<Rightarrow> Inl f | Inr vhost \<Rightarrow>
        let fn = str_bytes ''rtable.'' @ vhost in
        if length fn + 1 > 7 + IDSIZE + 1 then Inl OutOfBounds
        else if \<not> env_fopen_w env fn then Inr (0, files)
        else case rd_bytes buf (8 + IDSIZE) (unat (ntohl (ld32 buf 0) - 8 - word_of_nat IDSIZE)) of Inl f \<Rightarrow> Inl f
          | Inr rtable \<Rightarrow> Inr (1, files(fn \<mapsto> rtable)))"

definition AUTH_KEY_LEN :: nat where "AUTH_KEY_LEN = 64"
definition SHA1_LEN :: nat where "SHA1_LEN = 20"

text \<open>The salted digest: salt of the request, then 64 bytes of the array the key was read into.\<close>

definition auth_digest :: "vns_env \<Rightarrow> bytes \<Rightarrow> bytes \<Rightarrow> fault + (int \<times> u32 list)" where
  "auth_digest env salt auth_key =
     (case SHA1Input (SHA1Reset (env_raw_sha env)) salt of Inl f \<Rightarrow> Inl f | Inr sha1_1 \<Rightarrow>
     (case rd_bytes auth_key 0 AUTH_KEY_LEN of Inl f \<Rightarrow> Inl f | Inr key \<Rightarrow>
     (case SHA1Input sha1_1 key of Inl f \<Rightarrow> Inl f | Inr sha1_2 \<Rightarrow>
     (case SHA1Result sha1_2 of Inl f \<Rightarrow> Inl f | Inr (rc, sha1_3) \<Rightarrow> Inr (rc, Message_Digest sha1_3)))))"

definition sr_handle_auth_request :: "vns_env \<Rightarrow> files \<Rightarrow> sr_instance \<Rightarrow> bytes \<Rightarrow> fault + (int \<times> sr_instance)" where
  "sr_handle_auth_request env files sr buf =
     (case files (str_bytes ''auth_key'') of None \<Rightarrow> Inr (0, sr) | Some content \<Rightarrow>
        if content = [] then Inr (0, sr)
        else case wr_bytes (env_raw_key env) 0 (fst (fgets AUTH_KEY_LEN content) @ [0]) of Inl f \<Rightarrow> Inl f | Inr auth_key \<Rightarrow>
          (case rd_bytes buf 8 (unat (ntohl (ld32 buf 0)) - 8) of Inl f \<Rightarrow> Inl f | Inr salt \<Rightarrow>
          (case auth_digest env salt auth_key of Inl f \<Rightarrow> Inl f | Inr (rc, digest) \<Rightarrow>
             if rc = 0 then Inr (0, sr)
             else case c_string (user sr) of Inl f \<Rightarrow> Inl f | Inr name \<Rightarrow>
               let len = 12 + length name + SHA1_LEN; reply = c_auth_reply name digest in
               if \<not> env_malloc (os env) len then Inr (0, sr)
               else Inr (if env_send env reply \<noteq> int len then 0 else 1, sr\<lparr>sock_out := sock_out sr @ [reply]\<rparr>))))"

definition sr_handle_auth_status :: "sr_instance \<Rightarrow> bytes \<Rightarrow> fault + (int \<times> bytes list)" where
  "sr_handle_auth_status sr buf =
     (case rd_bytes buf 8 1 of Inl f \<Rightarrow> Inl f | Inr ok \<Rightarrow>
        (case c_string (user sr) of Inl f \<Rightarrow> Inl f | Inr name \<Rightarrow>
           if ok ! 0 \<noteq> 0 then Inr (int (unat (ok ! 0)), [])
           else case c_string (drop 9 buf) of Inl f \<Rightarrow> Inl f | Inr msg \<Rightarrow> Inr (0, [msg])))"

section \<open>One message\<close>

definition dispatch_command :: "vns_env \<Rightarrow> nat \<Rightarrow> session \<Rightarrow> bytes \<Rightarrow> u32 \<Rightarrow> fault + (int \<times> session)" where
  "dispatch_command env depth s buf command =
     (if command = VNSPACKET then
        (case vns_packet env depth (router s) buf of Inl f \<Rightarrow> Inl f | Inr sr \<Rightarrow> Inr (1, s\<lparr>router := sr\<rparr>))
      else if command = VNSCLOSE then
        (case c_string (drop 8 buf) of Inl f \<Rightarrow> Inl f | Inr msg \<Rightarrow> Inr (0, s\<lparr>shown := shown s @ [msg]\<rparr>))
      else if command = VNSBANNER then
        (case c_string (drop 8 buf) of Inl f \<Rightarrow> Inl f | Inr msg \<Rightarrow> Inr (1, s\<lparr>shown := shown s @ [msg]\<rparr>))
      else if command = VNSHWINFO then
        (case sr_handle_hwinfo env (router s) buf of Inl f \<Rightarrow> Inl f | Inr (n, sr) \<Rightarrow>
           Inr (if sr_verify_routing_table sr \<noteq> 0 then - 1 else 1, s\<lparr>router := sr\<rparr>))
      else if command = VNS_RTABLE then
        (case sr_handle_rtable env (fs s) buf of Inl f \<Rightarrow> Inl f | Inr (rc, files) \<Rightarrow>
           Inr (if rc = 0 then - 1 else 1, s\<lparr>fs := files\<rparr>))
      else if command = VNS_AUTH_REQUEST then
        (case sr_handle_auth_request env (fs s) (router s) buf of Inl f \<Rightarrow> Inl f | Inr (rc, sr) \<Rightarrow>
           Inr (if rc = 0 then - 1 else 1, s\<lparr>router := sr\<rparr>))
      else if command = VNS_AUTH_STATUS then
        (case sr_handle_auth_status (router s) buf of Inl f \<Rightarrow> Inl f | Inr (rc, msgs) \<Rightarrow>
           Inr (if rc = 0 then - 1 else 1, s\<lparr>shown := shown s @ msgs\<rparr>))
      else Inr (1, s))"

text \<open>The type word is converted in place, and compared with the expected one if there is one.\<close>

definition handle_command :: "vns_env \<Rightarrow> nat \<Rightarrow> session \<Rightarrow> bytes \<Rightarrow> u32 \<Rightarrow> fault + (int \<times> session)" where
  "handle_command env depth s buf expected_cmd =
     (case rd_bytes buf 4 4 of Inl f \<Rightarrow> Inl f | Inr w \<Rightarrow>
        let command = ntohl (ld32 w 0) in
        if expected_cmd \<noteq> 0 \<and> command \<noteq> expected_cmd \<and> command \<noteq> VNSCLOSE then Inr (- 1, s)
        else dispatch_command env depth s (patch buf 4 (le32 command)) command)"

text \<open>
  \<^verbatim>\<open>sr_read_from_server_expect\<close>: the length is a signed 32-bit integer; the buffer has exactly this
  length, its first word is written before anything else is read.
\<close>

definition sr_read_from_server_expect ::
    "vns_env \<Rightarrow> nat \<Rightarrow> session \<Rightarrow> u32 \<Rightarrow> (fault + (int \<times> session)) option" where
  "sr_read_from_server_expect env depth s expected_cmd =
     Option.bind (read_len [] s) (\<lambda>(hdr, s1).
       case hdr of None \<Rightarrow> Some (Inr (- 1, s1)) | Some bs \<Rightarrow>
         let len = sint (ntohl (ld32 bs 0)) in
         if len > 10000 \<or> len < 0 then Some (Inr (- 1, s1\<lparr>closed := True\<rparr>))
         else if \<not> env_malloc (os env) (nat len) then Some (Inr (- 1, s1))
         else if len < 4 then Some (Inl OutOfBounds)
         else Option.bind (read_body (nat len - 4) [] s1) (\<lambda>(rest, s2).
           case rest of None \<Rightarrow> Some (Inr (- 1, s2)) | Some body \<Rightarrow>
             Some (handle_command env depth s2 (le32 (htonl (word_of_int len)) @ body) expected_cmd)))"

definition sr_read_from_server :: "vns_env \<Rightarrow> nat \<Rightarrow> session \<Rightarrow> (fault + (int \<times> session)) option" where
  "sr_read_from_server env depth s = sr_read_from_server_expect env depth s 0"

section \<open>Connecting\<close>

text \<open>
  The outcome of the calls that set the connection up.  \<open>envs\<close> are the environments of the messages
  read while connecting.
\<close>

record connection =
  host_known :: bool
  socket_ok :: bool
  connect_ok :: bool

definition sr_connect_to_server ::
    "(nat \<Rightarrow> vns_env) \<Rightarrow> nat \<Rightarrow> connection \<Rightarrow> session \<Rightarrow> (fault + (int \<times> session)) option" where
  "sr_connect_to_server envs depth con s =
     (if \<not> host_known con \<or> \<not> socket_ok con then Some (Inr (- 1, s))
      else if \<not> connect_ok con then Some (Inr (- 1, s\<lparr>closed := True\<rparr>))
      else Option.bind (sr_read_from_server_expect (envs 0) depth s VNS_AUTH_REQUEST) (\<lambda>r1.
        case r1 of Inl f \<Rightarrow> Some (Inl f) | Inr (rc1, s1) \<Rightarrow>
          if rc1 \<noteq> 1 then Some (Inr (- 1, s1))
          else Option.bind (sr_read_from_server_expect (envs 1) depth s1 VNS_AUTH_STATUS) (\<lambda>r2.
            case r2 of Inl f \<Rightarrow> Some (Inl f) | Inr (rc2, s2) \<Rightarrow>
              if rc2 \<noteq> 1 then Some (Inr (- 1, s2))
              else case c_string (template (router s2)) of Inl f \<Rightarrow> Some (Inl f) | Inr tmpl \<Rightarrow>
                let buf = (if tmpl \<noteq> [] then c_open_template (router s2) else c_open (router s2));
                    s3 = s2\<lparr>router := (router s2)\<lparr>sock_out := sock_out (router s2) @ [buf]\<rparr>\<rparr> in
                if env_send (envs 2) buf \<noteq> int (length buf) then Some (Inr (- 1, s3))
                else if tmpl \<noteq> [] then
                  Option.bind (sr_read_from_server_expect (envs 2) depth s3 VNS_RTABLE) (\<lambda>r3.
                    case r3 of Inl f \<Rightarrow> Some (Inl f)
                    | Inr (rc3, s4) \<Rightarrow> Some (Inr (if rc3 \<noteq> 1 then - 1 else 0, s4)))
                else Some (Inr (0, s3)))))"

end
