(* ===== verification/SR_Framing.thy ===== *)
theory SR_Framing
  imports SR_Vns_Recv
begin

text \<open>
  How messages are cut out of the byte stream.  The locale \<open>fill_loop\<close> states what the two read loops
  of \<^verbatim>\<open>sr_read_from_server_expect\<close> have in common; both are instances.  From it follow that the way
  the stream is cut into pieces, and the signals that interrupt a call, do not matter, and that the
  function never returns when the stream ends within a message.
\<close>

section \<open>The stream\<close>

text \<open>The bytes a sequence of events delivers, and the sequences that only deliver bytes and signals.\<close>

definition event_bytes :: "sock_event \<Rightarrow> bytes" where
  "event_bytes e = (case e of Data bs \<Rightarrow> bs | _ \<Rightarrow> [])"

definition payload :: "sock_event list \<Rightarrow> bytes" where
  "payload es = concat (map event_bytes es)"

definition clean :: "sock_event list \<Rightarrow> bool" where
  "clean es = list_all (\<lambda>e. e \<noteq> Eof \<and> e \<noteq> Err) es"

lemma payload_simps [simp]:
  "payload [] = []" "payload (Data bs # es) = bs @ payload es" "payload (Intr # es) = payload es"
  "payload (Eof # es) = payload es" "payload (Err # es) = payload es"
  by (simp_all add: payload_def event_bytes_def)

lemma clean_simps [simp]:
  "clean []" "clean (Data bs # es) \<longleftrightarrow> clean es" "clean (Intr # es) \<longleftrightarrow> clean es" "\<not> clean (Eof # es)" "\<not> clean (Err # es)"
  by (simp_all add: clean_def)

text \<open>The session with an open socket and a given input.\<close>

definition at_input :: "session \<Rightarrow> sock_event list \<Rightarrow> session" where
  "at_input s es = s\<lparr>inbox := es, closed := False\<rparr>"

lemma at_input_simps [simp]:
  "inbox (at_input s es) = es" "\<not> closed (at_input s es)" "at_input (at_input s es) es' = at_input s es'"
  "at_input s es\<lparr>inbox := es'\<rparr> = at_input s es'" "router (at_input s es) = router s" "fs (at_input s es) = fs s"
  "shown (at_input s es) = shown s"
  by (simp_all add: at_input_def)

text \<open>What one call does to a clean input that still has bytes, with whatever follows behind it.\<close>

lemma recv_clean:
  assumes "clean es" "payload es \<noteq> []" "0 < n"
  obtains (signal) es' where "recv n (at_input s (es @ tail)) = Some (Interrupted, at_input s (es' @ tail))"
      "clean es'" "payload es' = payload es" "length es' < length es"
    | (data) bs es' where "recv n (at_input s (es @ tail)) = Some (Got bs, at_input s (es' @ tail))"
      "clean es'" "payload es = bs @ payload es'" "bs \<noteq> []" "length bs \<le> n" "length es' \<le> length es"
  using assms
proof (induction es arbitrary: thesis)
  case (Cons e es)
  show ?case
  proof (cases e)
    case (Data d)
    show ?thesis
    proof (cases "d = []")
      case True
      note d = this
      have eq: "recv n (at_input s ((e # es) @ tail)) = recv n (at_input s (es @ tail))"
        using Data d by (simp add: recv_def)
      show ?thesis
      proof (rule Cons.IH)
        fix es' assume "recv n (at_input s (es @ tail)) = Some (Interrupted, at_input s (es' @ tail))"
          "clean es'" "payload es' = payload es" "length es' < length es"
        then show thesis using Cons.prems(1) [of es'] eq Data d by simp
      next
        fix bs es' assume "recv n (at_input s (es @ tail)) = Some (Got bs, at_input s (es' @ tail))"
          "clean es'" "payload es = bs @ payload es'" "bs \<noteq> []" "length bs \<le> n" "length es' \<le> length es"
        then show thesis using Cons.prems(2) [of bs es'] eq Data d by simp
      qed (use Cons.prems Data d in simp_all)
    next
      case False
      let ?es = "if length d \<le> n then es else Data (drop n d) # es"
      have "recv n (at_input s ((e # es) @ tail)) = Some (Got (take n d), at_input s (?es @ tail))"
        using Data False by (simp add: recv_def)
      moreover have "clean ?es" "payload (e # es) = take n d @ payload ?es" "take n d \<noteq> []" "length (take n d) \<le> n"
        "length ?es \<le> length (e # es)" using Cons.prems Data False by auto
      ultimately show thesis by (rule Cons.prems(2))
    qed
  next
    case Intr
    then have "recv n (at_input s ((e # es) @ tail)) = Some (Interrupted, at_input s (es @ tail))" by (simp add: recv_def)
    then show thesis by (rule Cons.prems(1)) (use Cons.prems Intr in simp_all)
  qed (use Cons.prems in simp_all)
qed simp

text \<open>In front of the end of the stream a call gets bytes, possibly none, or is interrupted.\<close>

lemma recv_to_eof:
  assumes "clean es" "0 < n"
  obtains (signal) es' where "recv n (at_input s (es @ Eof # tail)) = Some (Interrupted, at_input s (es' @ Eof # tail))"
      "clean es'" "payload es' = payload es"
    | (data) bs es' where "recv n (at_input s (es @ Eof # tail)) = Some (Got bs, at_input s (es' @ Eof # tail))"
      "clean es'" "payload es = bs @ payload es'"
proof (cases "payload es = []")
  case True
  have "recv n (at_input s (es @ Eof # tail)) = Some (Got [], at_input s ([] @ Eof # tail)) \<or>
    (\<exists>es'. recv n (at_input s (es @ Eof # tail)) = Some (Interrupted, at_input s (es' @ Eof # tail)) \<and> clean es' \<and> payload es' = [])"
    using assms(1) True
  proof (induction es)
    case (Cons e es)
    then show ?case by (cases e) (auto simp: recv_def)
  qed (simp add: recv_def)
  then show thesis using True signal data [of "[]" "[]"] by auto
next
  case False
  from assms(1) False assms(2) show thesis
    by (cases rule: recv_clean [where s = s and tail = "Eof # tail"]) (use signal data in blast)+
qed

section \<open>The read loops\<close>

definition fill_body ::
    "nat \<Rightarrow> (session \<Rightarrow> session) \<Rightarrow> (bytes \<Rightarrow> session \<Rightarrow> (bytes option \<times> session) option) \<Rightarrow>
     bytes \<Rightarrow> session \<Rightarrow> (bytes option \<times> session) option" where
  "fill_body n on_fail loop got s =
     (if length got < n then
        Option.bind (recv (n - length got) s) (\<lambda>(r, s1).
          case r of Interrupted \<Rightarrow> loop got s1
          | Failed \<Rightarrow> Some (None, on_fail s1)
          | Got bs \<Rightarrow> loop (got @ bs) s1)
      else Some (Some got, s))"

text \<open>
  A read loop: it does what its body says, and nothing is a result of it that does not follow from
  running its body.
\<close>

locale fill_loop =
  fixes n :: nat and on_fail :: "session \<Rightarrow> session"
    and loop :: "bytes \<Rightarrow> session \<Rightarrow> (bytes option \<times> session) option"
  assumes unfold: "loop got s = fill_body n on_fail loop got s"
    and induct: "(\<And>f. (\<And>got s y. f got s = Some y \<Longrightarrow> P got s y) \<Longrightarrow>
        (\<And>got s y. fill_body n on_fail f got s = Some y \<Longrightarrow> P got s y)) \<Longrightarrow> loop got s = Some y \<Longrightarrow> P got s y"
begin

lemma fills:
  assumes "clean es" "length got \<le> n" "n \<le> length got + length (payload es)"
  shows "\<exists>es'. loop got (at_input s (es @ tail)) = Some (Some (got @ take (n - length got) (payload es)), at_input s (es' @ tail)) \<and>
    clean es' \<and> payload es' = drop (n - length got) (payload es)"
  using assms
proof (induction "length es + length (payload es)" arbitrary: es got rule: less_induct)
  case less
  show ?case
  proof (cases "length got < n")
    case False
    then show ?thesis using less.prems by (auto simp: unfold fill_body_def)
  next
    case True
    then have ne: "payload es \<noteq> []" "0 < n - length got" using less.prems(3) by auto
    from less.prems(1) ne show ?thesis
    proof (cases rule: recv_clean [where s = s and tail = tail])
      case (signal es')
      from less.hyps [of es' got] signal less.prems True show ?thesis
        by (simp add: unfold [of got "at_input s (es @ tail)"] fill_body_def)
    next
      case (data bs es')
      have "length es' + length (payload es') < length es + length (payload es)"
        using data(3,4,6) by (cases bs) simp_all
      from less.hyps [OF this, of "got @ bs"] data less.prems True show ?thesis
        by (auto simp: unfold [of got "at_input s (es @ tail)"] fill_body_def)
    qed
  qed
qed

text \<open>A stream that ends too early keeps the loop from returning.\<close>

lemma spins:
  assumes "clean es" "length got + length (payload es) < n"
  shows "loop got (at_input s (es @ Eof # tail)) = None"
proof (rule ccontr)
  let ?P = "\<lambda>got t (y :: bytes option \<times> session).
    \<not> (\<exists>es s tail. t = at_input s (es @ Eof # tail) \<and> clean es \<and> length got + length (payload es) < n)"
  assume "loop got (at_input s (es @ Eof # tail)) \<noteq> None"
  then obtain y where "loop got (at_input s (es @ Eof # tail)) = Some y" by blast
  then have "?P got (at_input s (es @ Eof # tail)) y"
  proof (rule induct [where P = ?P, rotated])
    fix f :: "bytes \<Rightarrow> session \<Rightarrow> (bytes option \<times> session) option" and got t y
    assume IH: "\<And>got s y. f got s = Some y \<Longrightarrow> ?P got s y"
    assume body: "fill_body n on_fail f got t = Some y"
    show "?P got t y"
    proof (rule notI, elim exE conjE)
      fix es s tail
      assume t: "t = at_input s (es @ Eof # tail)" and es: "clean es" "length got + length (payload es) < n"
      then have "0 < n - length got" by simp
      from es(1) this show False
      proof (cases rule: recv_to_eof [where s = s and tail = tail])
        case (signal es')
        then have "f got (at_input s (es' @ Eof # tail)) = Some y" using body es t by (simp add: fill_body_def)
        from IH [OF this] signal es show False by metis
      next
        case (data bs es')
        then have "f (got @ bs) (at_input s (es' @ Eof # tail)) = Some y" using body es t by (simp add: fill_body_def)
        moreover have "length (got @ bs) + length (payload es') < n" using es data(3) by simp
        ultimately show False using IH data(2) by metis
      qed
    qed
  qed
  with assms show False by blast
qed

end

interpretation rl: fill_loop 4 "\<lambda>s. s" read_len
proof
  show "read_len got s = fill_body 4 (\<lambda>s. s) read_len got s" for got s
    by (subst read_len.simps) (simp add: fill_body_def)
  fix P got s y
  assume step: "\<And>f got s y. (\<And>got s y. f got s = Some y \<Longrightarrow> P got s y) \<Longrightarrow> fill_body 4 (\<lambda>s. s) f got s = Some y \<Longrightarrow> P got s y"
  assume "read_len got s = Some y"
  then show "P got s y"
    by (rule read_len.raw_induct [where P = P, rotated]) (rule step, auto simp: fill_body_def)
qed

interpretation rb: fill_loop n "\<lambda>s. s\<lparr>closed := True\<rparr>" "read_body n" for n
proof
  show "read_body n got s = fill_body n (\<lambda>s. s\<lparr>closed := True\<rparr>) (read_body n) got s" for got s
    by (subst read_body.simps) (simp add: fill_body_def)
  fix P got s y
  assume step: "\<And>f got s y. (\<And>got s y. f got s = Some y \<Longrightarrow> P got s y) \<Longrightarrow>
    fill_body n (\<lambda>s. s\<lparr>closed := True\<rparr>) f got s = Some y \<Longrightarrow> P got s y"
  assume ret: "read_body n got s = Some y"
  have "n = n \<longrightarrow> P got s y"
  proof (rule read_body.raw_induct [where P = "\<lambda>m got s y. m = n \<longrightarrow> P got s y", OF _ ret], rule impI)
    fix f m got s y
    assume IH: "\<And>m got s y. f m got s = Some y \<Longrightarrow> m = n \<longrightarrow> P got s y" and "m = n"
    assume "(if length got < m then
        Option.bind (recv (m - length got) s) (\<lambda>(r, s1).
          case r of Interrupted \<Rightarrow> f m got s1
          | Failed \<Rightarrow> Some (None, s1\<lparr>closed := True\<rparr>)
          | Got bs \<Rightarrow> f m (got @ bs) s1)
      else Some (Some got, s)) = Some y"
    then show "P got s y" using step [of "f n" got s y] IH \<open>m = n\<close> by (auto simp: fill_body_def)
  qed
  then show "P got s y" by simp
qed

section \<open>Messages\<close>

text \<open>A message as the protocol has it: its length in front, in network byte order, and a type.\<close>

definition framed :: "bytes \<Rightarrow> bool" where
  "framed msg \<longleftrightarrow> 8 \<le> length msg \<and> length msg \<le> 10000 \<and> take 4 msg = le32 (htonl (word_of_nat (length msg)))"

lemma ld32_le32 [simp]: "ld32 (le32 w) 0 = w" "ld32 (le32 w @ xs) 0 = w"
  by (simp_all add: ld32_def le32_def)

lemma len_word:
  assumes "L \<le> 10000"
  shows "sint (word_of_nat L :: u32) = int L" "unat (word_of_nat L :: u32) = L"
  using assms by (simp_all add: signed_of_nat signed_take_bit_int_eq_self unsigned_of_nat take_bit_eq_mod)

lemma framed_len: "framed msg \<Longrightarrow> ntohl (ld32 msg 0) = word_of_nat (length msg)"
  unfolding framed_def by (metis ld32_le32(2) append_take_drop_id htonl_htonl)

text \<open>The four bytes of the length are read whatever the pieces are.\<close>

lemma read_len_clean:
  assumes "clean es" "payload es = le32 w @ rest"
  obtains es' where "read_len [] (at_input s (es @ tail)) = Some (Some (le32 w), at_input s (es' @ tail))"
    "clean es'" "payload es' = rest"
  using rl.fills [OF assms(1), of "[]" s tail] assms(2) by auto

lemma read_framed:
  assumes "framed msg" "clean es" "payload es = msg @ rest" "env_malloc (os env) (length msg)"
  shows "\<exists>es'. clean es' \<and> payload es' = rest \<and>
    sr_read_from_server_expect env depth (at_input s (es @ tail)) expected =
      Some (handle_command env depth (at_input s (es' @ tail)) msg expected)"
proof -
  let ?L = "length msg"
  have L: "8 \<le> ?L" "?L \<le> 10000" and hd: "take 4 msg = le32 (htonl (word_of_nat ?L))" using assms(1) by (simp_all add: framed_def)
  have "payload es = le32 (htonl (word_of_nat ?L)) @ drop 4 msg @ rest"
    using assms(3) append_take_drop_id [of 4 msg] hd by (metis append_assoc)
  then obtain es1 where 1: "read_len [] (at_input s (es @ tail)) = Some (Some (le32 (htonl (word_of_nat ?L))), at_input s (es1 @ tail))"
    "clean es1" "payload es1 = drop 4 msg @ rest" using read_len_clean [OF assms(2)] by blast
  obtain es2 where 2: "read_body (?L - 4) [] (at_input s (es1 @ tail)) = Some (Some (drop 4 msg), at_input s (es2 @ tail))"
    "clean es2" "payload es2 = rest"
  proof -
    have "?L - 4 \<le> length [] + length (payload es1)" using 1(3) L by simp
    from rb.fills [OF 1(2) _ this, of s tail] 1(3) that show thesis by auto
  qed
  have "le32 (htonl (word_of_nat ?L)) @ drop 4 msg = msg" using hd by (metis append_take_drop_id)
  then show ?thesis
    using 1(1) 2 L assms(4) by (auto simp: sr_read_from_server_expect_def len_word Let_def)
qed

text \<open>Handling a message does not look at the socket.\<close>

lemma at_input_update [simp]:
  "at_input s es\<lparr>router := r\<rparr> = at_input (s\<lparr>router := r\<rparr>) es" "at_input s es\<lparr>fs := f\<rparr> = at_input (s\<lparr>fs := f\<rparr>) es"
  "at_input s es\<lparr>shown := l\<rparr> = at_input (s\<lparr>shown := l\<rparr>) es"
  by (simp_all add: at_input_def)

lemma map_sum_into:
  "map_sum f g (if b then x else y) = (if b then map_sum f g x else map_sum f g y)"
  "map_sum f g (case r of Inl a \<Rightarrow> Inl a | Inr c \<Rightarrow> h c) = (case r of Inl a \<Rightarrow> Inl (f a) | Inr c \<Rightarrow> map_sum f g (h c))"
  "map_sum f g (case p of (a, c) \<Rightarrow> k a c) = (case p of (a, c) \<Rightarrow> map_sum f g (k a c))"
  by (cases b, simp_all) (cases r, simp_all, cases p, simp)

lemma dispatch_at_input:
  "dispatch_command env depth (at_input s es) buf command =
     map_sum id (apsnd (\<lambda>t. at_input t es)) (dispatch_command env depth s buf command)"
  by (simp add: dispatch_command_def map_sum_into cong: if_cong sum.case_cong prod.case_cong split del: if_split)

lemma handle_command_at_input:
  "handle_command env depth (at_input s es) buf expected =
     map_sum id (apsnd (\<lambda>t. at_input t es)) (handle_command env depth s buf expected)"
  by (simp add: handle_command_def Let_def dispatch_at_input map_sum_into cong: if_cong sum.case_cong split del: if_split)

text \<open>A message with a type and a body, and the buffer its handler sees, the type in host byte order.\<close>

definition vns_message :: "u32 \<Rightarrow> bytes \<Rightarrow> bytes" where
  "vns_message type body = le32 (htonl (word_of_nat (8 + length body))) @ le32 (htonl type) @ body"

definition command_buffer :: "u32 \<Rightarrow> bytes \<Rightarrow> bytes" where
  "command_buffer type body = le32 (htonl (word_of_nat (8 + length body))) @ le32 type @ body"

lemma length_vns_message [simp]: "length (vns_message type body) = 8 + length body" "length (command_buffer type body) = 8 + length body"
  by (simp_all add: vns_message_def command_buffer_def)

lemma framed_vns_message: "length body \<le> 9992 \<Longrightarrow> framed (vns_message type body)"
  unfolding framed_def length_vns_message by (simp add: vns_message_def del: of_nat_add)

lemma drop_command_buffer [simp]: "drop 8 (command_buffer type body) = body" "8 \<le> k \<Longrightarrow> drop k (command_buffer type body) = drop (k - 8) body"
  by (simp_all add: command_buffer_def)

lemma len_command_buffer:
  "length body \<le> 9992 \<Longrightarrow> ntohl (ld32 (command_buffer type body) 0) = word_of_nat (8 + length body)"
  "length body \<le> 9992 \<Longrightarrow> unat (ntohl (ld32 (command_buffer type body) 0)) = 8 + length body"
  using len_word(2) [of "8 + length body"] by (simp_all add: command_buffer_def del: of_nat_add)

lemma handle_vns_message:
  "handle_command env depth s (vns_message type body) expected =
     (if expected \<noteq> 0 \<and> type \<noteq> expected \<and> type \<noteq> VNSCLOSE then Inr (- 1, s)
      else dispatch_command env depth s (command_buffer type body) type)"
proof -
  have "rd_bytes (vns_message type body) 4 4 = Inr (le32 (htonl type))" by (simp add: vns_message_def)
  moreover have "patch (vns_message type body) 4 (le32 type) = command_buffer type body"
    by (simp add: vns_message_def command_buffer_def patch_def)
  ultimately show ?thesis by (simp add: handle_command_def Let_def del: rd_bytes_Inr) fastforce
qed

text \<open>An environment in which everything succeeds, and a session with a user and an open socket.\<close>

definition good_vns_env :: vns_env where
  "good_vns_env = \<lparr>os = good_env 0, env_send = (\<lambda>m. int (length m)), env_fopen_w = (\<lambda>_. True),
     env_raw_if = (\<lambda>_. raw_if\<lparr>if_addr := replicate 6 0\<rparr>), env_raw_key = replicate 65 0, env_raw_sha = blank_context\<rparr>"

definition idle_session :: session where
  "idle_session = \<lparr>router = empty_instance\<lparr>user := strncpy (str_bytes ''ada'') 32, template := replicate 30 0\<rparr>,
     inbox = [], closed = False, fs = Map.empty, shown = []\<rparr>"

lemma good_vns_env_simps [simp]:
  "os good_vns_env = good_env 0" "env_send good_vns_env m = int (length m)" "env_fopen_w good_vns_env fn"
  by (simp_all add: good_vns_env_def)

lemma good_env_malloc [simp]: "env_malloc (good_env t) n"
  by (simp add: good_env_def)

definition banner :: bytes where
  "banner = vns_message VNSBANNER [104, 105, 0]"

lemma banner_props: "framed banner" "length banner = 11"
  "handle_command env depth s banner 0 = Inr (1, s\<lparr>shown := shown s @ [[104, 105]]\<rparr>)"
  by (simp_all add: banner_def framed_vns_message)
    (simp add: handle_vns_message dispatch_command_def vns_commands c_string_def cstr_def)

text \<open>
  C12.  A message is handled as it was sent, however the stream is cut into pieces and wherever a
  signal interrupts the reading: \<^verbatim>\<open>sr_read_from_server_expect\<close> returns, its result is that of
  handling exactly the bytes of the message, and what is left in the stream is what followed it.
\<close>

theorem message_framing:
  assumes "framed msg" "clean es" "payload es = msg @ rest" "env_malloc (os env) (length msg)"
  shows "\<exists>es'. clean es' \<and> payload es' = rest \<and>
    sr_read_from_server_expect env depth (at_input s es) expected =
      Some (map_sum id (apsnd (\<lambda>t. at_input t es')) (handle_command env depth s msg expected))"
  using read_framed [OF assms, of depth s "[]" expected] by (simp add: handle_command_at_input)

theorem message_framing_witness:
  "\<exists>es'. clean es' \<and> payload es' = [7] \<and>
    sr_read_from_server_expect good_vns_env 1
      (at_input idle_session [Data (take 3 banner), Intr, Data (drop 3 banner @ [7])]) 0 =
      Some (Inr (1, at_input (idle_session\<lparr>shown := [[104, 105]]\<rparr>) es'))"
  using message_framing [of banner "[Data (take 3 banner), Intr, Data (drop 3 banner @ [7])]" "[7]" good_vns_env 1 idle_session 0]
  by (simp add: banner_props) (simp add: idle_session_def)

text \<open>
  C20.  When the server closes the connection, between two messages or within one, the call never
  returns: \<^verbatim>\<open>recv\<close> answers \<open>0\<close> bytes for ever and the loops do not look for that answer.
\<close>

theorem end_of_stream_never_returns:
  assumes "framed msg" "k < length msg" "clean es" "payload es = take k msg" "env_malloc (os env) (length msg)"
  shows "sr_read_from_server_expect env depth (at_input s (es @ Eof # tail)) expected = None"
proof (cases "k < 4")
  case True
  then have "length (payload es) < 4" using assms(4) by simp
  then show ?thesis using rl.spins [OF assms(3), of "[]" s tail] by (simp add: sr_read_from_server_expect_def)
next
  case False
  let ?L = "length msg"
  have L: "8 \<le> ?L" "?L \<le> 10000" and hd: "take 4 msg = le32 (htonl (word_of_nat ?L))" using assms(1) by (simp_all add: framed_def)
  have "payload es = le32 (htonl (word_of_nat ?L)) @ take (k - 4) (drop 4 msg)"
    using assms(4) False hd take_add [of 4 "k - 4" msg] by simp
  then obtain es1 where 1: "read_len [] (at_input s (es @ Eof # tail)) = Some (Some (le32 (htonl (word_of_nat ?L))), at_input s (es1 @ Eof # tail))"
    "clean es1" "payload es1 = take (k - 4) (drop 4 msg)" using read_len_clean [OF assms(3)] by blast
  have "length [] + length (payload es1) < ?L - 4" using 1(3) assms(2) False by simp
  from rb.spins [OF 1(2) this] show ?thesis
    using 1(1) L assms(5) by (auto simp: sr_read_from_server_expect_def len_word Let_def)
qed

theorem end_of_stream_never_returns_witness:
  "sr_read_from_server_expect good_vns_env 1 (at_input idle_session [Data (take 6 banner), Eof]) 0 = None \<and>
   sr_read_from_server_expect good_vns_env 1 (at_input idle_session [Eof]) 0 = None"
  using end_of_stream_never_returns [of banner 6 "[Data (take 6 banner)]" good_vns_env 1 idle_session "[]" 0]
    end_of_stream_never_returns [of banner 0 "[]" good_vns_env 1 idle_session "[]" 0]
  by (simp add: banner_props)

text \<open>
  C37.  A length field outside the protocol: more than 10000 or negative closes the connection; less
  than 8 is accepted and the buffer of that size is accessed beyond its end.
\<close>

theorem bad_length_field:
  assumes "clean es" "payload es = le32 (htonl w) @ rest"
  shows "(sint w < 0 \<or> 10000 < sint w \<longrightarrow>
      (\<exists>t. sr_read_from_server_expect env depth (at_input s es) expected = Some (Inr (- 1, t)) \<and> closed t \<and> router t = router s)) \<and>
    (unat w < 8 \<and> unat w \<le> 4 + length rest \<and> env_malloc (os env) (unat w) \<longrightarrow>
      sr_read_from_server_expect env depth (at_input s es) expected = Some (Inl OutOfBounds))"
proof (intro conjI impI, goal_cases)
  obtain es1 where 1: "read_len [] (at_input s es) = Some (Some (le32 (htonl w)), at_input s es1)" "clean es1" "payload es1 = rest"
    using read_len_clean [OF assms, of s "[]"] by auto
  {
    case 1
    then show ?case using \<open>read_len [] (at_input s es) = _\<close> by (auto simp: sr_read_from_server_expect_def Let_def)
  next
    case 2
    define L where "L = unat w"
    have W: "w = word_of_nat L" "L < 8" "env_malloc (os env) L" "L \<le> 4 + length rest" using 2 by (simp_all add: L_def)
    show ?case
    proof (cases "L < 4")
      case True
      then show ?thesis using 1(1) W by (simp add: sr_read_from_server_expect_def Let_def len_word)
    next
      case False
      have "L - 4 \<le> length [] + length (payload es1)" using 1(3) W(4) False by simp
      from rb.fills [OF 1(2) _ this, of s "[]"] obtain es2 where
        "read_body (L - 4) [] (at_input s es1) = Some (Some (take (L - 4) rest), at_input s es2)" using 1(3) by auto
      moreover have "\<not> 8 \<le> length (le32 (htonl (word_of_nat L)) @ take (L - 4) rest)" using W(2) False by simp arith
      then have "handle_command env depth t (le32 (htonl (word_of_nat L)) @ take (L - 4) rest) expected = Inl OutOfBounds" for t
        by (auto simp: handle_command_def rd_bytes_def)
      ultimately show ?thesis
        using 1(1) W False by (simp add: sr_read_from_server_expect_def Let_def len_word)
    qed
  }
qed

theorem bad_length_field_witness:
  "(\<exists>t. sr_read_from_server_expect good_vns_env 1 (at_input idle_session [Data (le32 (htonl 10001))]) 0 = Some (Inr (- 1, t)) \<and> closed t) \<and>
   sr_read_from_server_expect good_vns_env 1 (at_input idle_session [Data (le32 (htonl 5) @ [1])]) 0 = Some (Inl OutOfBounds)"
  using bad_length_field [of "[Data (le32 (htonl 10001))]" 10001 "[]" good_vns_env 1 idle_session 0]
    bad_length_field [of "[Data (le32 (htonl 5) @ [1])]" 5 "[1]" good_vns_env 1 idle_session 0]
  by auto

end
