(* ===== verification/SR_Router_Inv.thy ===== *)
theory SR_Router_Inv
  imports SR_Router
begin

text \<open>
  The invariant of the router and its preservation by every handler.  The locale
  \<open>handler_contract\<close> states what the mutually recursive functions may assume about the nested
  \<^verbatim>\<open>handle_arpreq\<close>: it keeps the invariant and the configuration, only appends to the socket
  output, and, when every frame has at least the minimal length of 42 bytes, never reads or
  writes out of bounds.  The bodies keep the contract, so every nesting depth satisfies it.
\<close>

section \<open>Invariant\<close>

definition if_wf :: "sr_if \<Rightarrow> bool" where
  "if_wf i \<longleftrightarrow> length (if_addr i) = 6 \<and> length (if_name i) = 32"

definition queued_ge :: "nat \<Rightarrow> sr_arpcache \<Rightarrow> bool" where
  "queued_ge m c \<longleftrightarrow> (\<forall>(a, r)\<in>set (requests c). \<forall>p\<in>set (req_packets r). m \<le> length (pkt_buf p))"

definition sr_wf :: "nat \<Rightarrow> sr_instance \<Rightarrow> bool" where
  "sr_wf m sr \<longleftrightarrow> arpcache_wf (cache sr) \<and> list_all if_wf (if_list sr) \<and> queued_ge m (cache sr)"

text \<open>What an operation may change: everything but the configuration; output only grows.\<close>

definition evolves :: "sr_instance \<Rightarrow> sr_instance \<Rightarrow> bool" where
  "evolves sr sr' \<longleftrightarrow> same_config sr sr' \<and> (\<exists>new. sock_out sr' = sock_out sr @ new)"

definition good_fault :: "nat \<Rightarrow> fault \<Rightarrow> bool" where
  "good_fault m f \<longleftrightarrow> 42 \<le> m \<longrightarrow> f \<noteq> OutOfBounds"

definition keeps :: "nat \<Rightarrow> sr_instance \<Rightarrow> fault + sr_instance \<Rightarrow> bool" where
  "keeps m sr r \<longleftrightarrow> (case r of Inl f \<Rightarrow> good_fault m f | Inr sr' \<Rightarrow> sr_wf m sr' \<and> evolves sr sr')"

lemma evolves_refl [simp]: "evolves sr sr"
  by (simp add: evolves_def)

lemma evolves_trans: "evolves s t \<Longrightarrow> evolves t u \<Longrightarrow> evolves s u"
  by (auto simp: evolves_def intro: same_config_trans)

lemma evolves_cache [simp]: "evolves s (t\<lparr>cache := c\<rparr>) \<longleftrightarrow> evolves s t" "evolves (s\<lparr>cache := c\<rparr>) t \<longleftrightarrow> evolves s t"
  by (simp_all add: evolves_def same_config_def)

lemma keepsI: "sr_wf m sr' \<Longrightarrow> evolves sr sr' \<Longrightarrow> keeps m sr (Inr sr')"
  by (simp add: keeps_def)

lemma keeps_self [simp]: "sr_wf m sr \<Longrightarrow> keeps m sr (Inr sr)"
  by (simp add: keepsI)

lemma keeps_Inl [simp]: "keeps m sr (Inl f) \<longleftrightarrow> good_fault m f"
  by (simp add: keeps_def)

lemma keeps_Inr: "keeps m sr (Inr sr') \<longleftrightarrow> sr_wf m sr' \<and> evolves sr sr'"
  by (simp add: keeps_def)

lemma keeps_evolve: "evolves sr sr1 \<Longrightarrow> keeps m sr1 r \<Longrightarrow> keeps m sr r"
  by (auto simp: keeps_def split: sum.splits intro: evolves_trans)

lemma good_faults [simp]:
  "good_fault m AssertFailed" "good_fault m UseAfterFree" "good_fault m NullDeref" "good_fault m OutOfFuel"
  by (simp_all add: good_fault_def)

lemma keeps_bind:
  "keeps m sr r \<Longrightarrow> (\<And>sr'. sr_wf m sr' \<Longrightarrow> evolves sr sr' \<Longrightarrow> keeps m sr (g sr')) \<Longrightarrow>
     keeps m sr (case r of Inl f \<Rightarrow> Inl f | Inr sr' \<Rightarrow> g sr')"
  by (cases r) (auto simp: keeps_Inr)

lemma sr_wf_if: "sr_wf m sr \<Longrightarrow> i \<in> set (if_list sr) \<Longrightarrow> length (if_addr i) = 6 \<and> length (if_name i) = 32"
  by (auto simp: sr_wf_def if_wf_def list_all_iff)

lemma sr_wf_get_interface:
  "sr_wf m sr \<Longrightarrow> sr_get_interface sr name = Some i \<Longrightarrow> length (if_addr i) = 6 \<and> length (if_name i) = 32"
  using sr_wf_if sr_get_interface_Some by blast

lemma sr_wf_cache:
  "sr_wf m sr \<Longrightarrow> arpcache_wf c \<Longrightarrow> queued_ge m c \<Longrightarrow> sr_wf m (sr\<lparr>cache := c\<rparr>)"
  by (simp add: sr_wf_def)

lemma sr_wf_arpcache: "sr_wf m sr \<Longrightarrow> arpcache_wf (cache sr)"
  by (simp add: sr_wf_def)

section \<open>The cache operations keep the length bound\<close>

lemma queued_ge_queuereq:
  assumes "sr_arpcache_queuereq env c ip packet iface = Inr (a, c')" "queued_ge m c"
    "m \<le> length packet" "packet \<noteq> []"
  shows "queued_ge m c'"
  using assms(1,4)
proof (rule queuereq_cases)
  fix r
  assume "c' = c\<lparr>requests := update_req (requests c) a (push_packet (queued_packet packet iface))\<rparr>"
  then show ?thesis using assms(2,3) by (fastforce simp: queued_ge_def dest: set_update_req)
next
  assume "c' = c\<lparr>requests := (a, \<lparr>req_ip = ip, req_sent = 0, req_times_sent = 0,
                req_packets = [queued_packet packet iface]\<rparr>) # requests c, next_addr := Suc a\<rparr>"
  then show ?thesis using assms(2,3) by (auto simp: queued_ge_def)
qed

lemma queued_ge_subset: "set (requests c') \<subseteq> set (requests c) \<Longrightarrow> queued_ge m c \<Longrightarrow> queued_ge m c'"
  unfolding queued_ge_def by blast

lemma queued_ge_destroy: "queued_ge m c \<Longrightarrow> queued_ge m (sr_arpreq_destroy c a)"
  by (rule queued_ge_subset) (auto simp: sr_arpreq_destroy_def intro: set_unlink_subset [THEN subsetD])

lemma requests_insert_subset:
  "sr_arpcache_insert env c mac ip = (req, c') \<Longrightarrow>
     set (requests c') \<subseteq> set (requests c) \<and> (\<forall>x. req = Some x \<longrightarrow> x \<in> set (requests c))"
  using set_remove1_subset
  by (fastforce simp: sr_arpcache_insert_def detach_req_spec split: option.splits dest: find_req_Some)

lemma queued_ge_expire: "queued_ge m (expire_entries now c) \<longleftrightarrow> queued_ge m c"
  by (simp add: queued_ge_def expire_entries_def)

lemma queued_ge_touch:
  "(\<And>r. req_packets (f r) = req_packets r) \<Longrightarrow> queued_ge m c \<Longrightarrow>
     queued_ge m (c\<lparr>requests := update_req (requests c) a f\<rparr>)"
  by (fastforce simp: queued_ge_def dest: set_update_req)

lemma deref_req_Inr: "deref_req c a = Inr r \<longleftrightarrow> map_of (requests c) a = Some r"
  by (auto simp: deref_req_def split: option.splits)

lemma deref_req_Inl: "deref_req c a = Inl f \<longleftrightarrow> f = UseAfterFree \<and> map_of (requests c) a = None"
  by (auto simp: deref_req_def split: option.splits)

lemma deref_wf: "sr_wf m sr \<Longrightarrow> deref_req (cache sr) a = Inr r \<Longrightarrow> req_wf r"
  by (auto simp: deref_req_Inr sr_wf_def arpcache_wf_def dest: map_of_SomeD)

lemma deref_ge: "sr_wf m sr \<Longrightarrow> deref_req (cache sr) a = Inr r \<Longrightarrow> p \<in> set (req_packets r) \<Longrightarrow>
    m \<le> length (pkt_buf p) \<and> 34 \<le> length (pkt_buf p)"
  by (fastforce simp: deref_req_Inr sr_wf_def arpcache_wf_def req_wf_def queued_ge_def layout
      dest!: map_of_SomeD)

section \<open>Sending\<close>

lemma sr_send_packet_evolves:
  assumes "sr_send_packet env sr buf iface = Inr (rc, sr')" "sr_wf m sr"
  shows "sr_wf m sr'" "evolves sr sr'"
proof -
  have "same_config sr sr'" "cache sr' = cache sr" using sr_send_packet_frame [OF assms(1)] by auto
  moreover have "\<exists>new. sock_out sr' = sock_out sr @ new"
    using assms(1)
    by (auto simp: sr_send_packet_def Let_def sr_log_packet_frame split: if_splits sum.splits)
  ultimately show "sr_wf m sr'" "evolves sr sr'"
    using assms(2) by (auto simp: sr_wf_def evolves_def dest: same_configD)
qed

lemma send_keeps:
  "sr_wf m sr \<Longrightarrow> keeps m sr (case sr_send_packet env sr buf iface of Inl f \<Rightarrow> Inl f | Inr (rc, sr') \<Rightarrow> Inr sr')"
  by (auto simp: keeps_Inr sr_send_packet_evolves split: sum.splits dest: sr_send_packet_fault)

text \<open>The frame of an ARP message: the Ethernet header followed by the ARP header.\<close>

lemma arp_frame_eq:
  assumes "length dhost = 6" "arp_hdr_wf arp"
  shows "arp_frame dhost arp =
    Inr (eth_hdr_bytes \<lparr>ether_dhost = dhost, ether_shost = ar_sha arp, ether_type = htons ethertype_arp\<rparr> @
         arp_hdr_bytes arp)"
proof -
  let ?e = "\<lparr>ether_dhost = dhost, ether_shost = ar_sha arp, ether_type = htons ethertype_arp\<rparr>"
  have e: "eth_hdr_wf ?e" using assms by (simp add: eth_hdr_wf_def arp_hdr_wf_def)
  have "length (eth_hdr_bytes ?e) = 14" "length (arp_hdr_bytes arp) = 28"
    using eth.length_to_bytes [OF e] arp.length_to_bytes [OF assms(2)] by (simp_all add: layout)
  then show ?thesis
    by (simp add: arp_frame_def put_struct_def layout Let_def patch_def)
qed

lemma arp_send_keeps:
  assumes "sr_wf m sr" "length dhost = 6" "arp_hdr_wf arp"
  shows "keeps m sr (case arp_frame dhost arp of Inl f \<Rightarrow> Inl f
    | Inr buf \<Rightarrow> (case sr_send_packet env sr buf name of Inl f \<Rightarrow> Inl f | Inr (rc, sr') \<Rightarrow> Inr sr'))"
  using send_keeps [OF assms(1)] by (simp add: arp_frame_eq [OF assms(2,3)])

lemma send_arp_reply_keeps:
  "sr_wf m sr \<Longrightarrow> length (ar_sha req) = 6 \<Longrightarrow> length (if_addr iface) = 6 \<Longrightarrow>
     keeps m sr (send_arp_reply env sr req iface)"
  by (auto simp: send_arp_reply_def arp_hdr_wf_def intro!: arp_send_keeps)

lemma send_arp_request_keeps:
  "sr_wf m sr \<Longrightarrow> keeps m sr (send_arp_request env sr ip name)"
  by (auto simp: send_arp_request_def arp_hdr_wf_def dest: sr_wf_get_interface
      intro!: arp_send_keeps split: option.splits)

section \<open>The frame of an ICMP error\<close>

definition error_ip_hdr :: "u32 \<Rightarrow> u32 \<Rightarrow> sr_ip_hdr" where
  "error_ip_hdr src dst = \<lparr>ip_hl = 5, ip_v = 4, ip_tos = 0, ip_len = htons 56, ip_id = 0, ip_off = htons IP_DF,
     ip_ttl = INIT_TTL, ip_p = ip_protocol_icmp, ip_sum = 0, ip_src = src, ip_dst = dst\<rparr>"

definition stamp_ip :: "sr_ip_hdr \<Rightarrow> sr_ip_hdr" where
  "stamp_ip ip = ip\<lparr>ip_sum := cksum (ip_hdr_bytes (ip\<lparr>ip_sum := 0\<rparr>))\<rparr>"

definition stamp_t11 :: "sr_icmp_t11_hdr \<Rightarrow> sr_icmp_t11_hdr" where
  "stamp_t11 icmp = icmp\<lparr>icmp11_sum := cksum (t11_hdr_bytes (icmp\<lparr>icmp11_sum := 0\<rparr>))\<rparr>"

definition error_image :: "u8 \<Rightarrow> u8 \<Rightarrow> u32 \<Rightarrow> u32 \<Rightarrow> bytes \<Rightarrow> bytes" where
  "error_image type code src dst data =
     replicate 14 0 @ ip_hdr_bytes (stamp_ip (error_ip_hdr src dst)) @
     t11_hdr_bytes (stamp_t11 \<lparr>icmp11_type = type, icmp11_code = code, icmp11_sum = 0, icmp11_unused = 0,
       icmp11_data = data\<rparr>)"

lemma length_ip_hdr_bytes [simp]: "length (ip_hdr_bytes h) = 20"
  by (simp add: ip_hdr_bytes_def)

lemma length_t08_hdr_bytes [simp]: "length (t08_hdr_bytes h) = 8"
  by (simp add: t08_hdr_bytes_def)

lemma length_t11_hdr_bytes: "length (t11_hdr_bytes h) = 8 + length (icmp11_data h)"
  by (simp add: t11_hdr_bytes_def)

lemma length_eth_hdr_bytes: "eth_hdr_wf h \<Longrightarrow> length (eth_hdr_bytes h) = 14"
  by (simp add: eth_hdr_bytes_def eth_hdr_wf_def)

lemma length_error_image: "length data = 28 \<Longrightarrow> length (error_image type code src dst data) = 70"
  by (simp add: error_image_def length_t11_hdr_bytes stamp_t11_def)

lemma put_ip_with_sum_eq:
  assumes "off + 20 \<le> length buf" "off + n \<le> length buf"
  shows "put_ip_with_sum buf off n ip = Inr (patch buf off (ip_hdr_bytes
    (ip\<lparr>ip_sum := cksum (take n (drop off (patch buf off (ip_hdr_bytes (ip\<lparr>ip_sum := 0\<rparr>)))))\<rparr>)))"
proof -
  let ?z = "patch buf off (ip_hdr_bytes (ip\<lparr>ip_sum := 0\<rparr>))"
  have z: "length ?z = length buf" using assms(1) by simp
  then have "put_ip_with_sum buf off n ip =
      Inr (patch ?z off (ip_hdr_bytes (ip\<lparr>ip_sum := cksum (take n (drop off ?z))\<rparr>)))"
    using assms by (simp add: put_ip_with_sum_def put_struct_def)
  then show ?thesis
    using iph.put_put [where h = "ip\<lparr>ip_sum := 0\<rparr>" and off = off and buf = buf] assms(1) by (simp add: layout)
qed

lemma icmp_error_frame_eq:
  assumes "34 \<le> length orig"
  shows "icmp_error_frame orig_ip orig type code src =
    (if length orig < 42 then Inl OutOfBounds
     else Inr (error_image type code src (ip_src orig_ip) (take 28 (drop 14 orig))))"
proof -
  let ?h = "error_ip_hdr src (ip_src orig_ip)"
  let ?b1 = "replicate 14 0 @ ip_hdr_bytes (stamp_ip ?h) @ replicate 36 0"
  have "take 20 (drop 14 (patch (replicate 70 0) 14 (ip_hdr_bytes h))) = ip_hdr_bytes h" for h
    by (simp add: patch_def)
  then have b1: "put_ip_with_sum (replicate 70 0) 14 20 ?h = Inr ?b1"
    by (simp add: put_ip_with_sum_eq stamp_ip_def patch_def)
  have oob: "rd_bytes orig 14 28 = (if length orig < 42 then Inl OutOfBounds else Inr (take 28 (drop 14 orig)))"
    by (simp add: rd_bytes_def)
  have "icmp_error_frame orig_ip orig type code src =
     (case put_ip_with_sum (replicate 70 0) 14 20 ?h of Inl f \<Rightarrow> Inl f | Inr buf1 \<Rightarrow>
        (case rd_bytes orig 14 28 of Inl f \<Rightarrow> Inl f | Inr data \<Rightarrow>
           let icmp = \<lparr>icmp11_type = type, icmp11_code = code, icmp11_sum = 0, icmp11_unused = 0, icmp11_data = data\<rparr> in
           case put_t11 buf1 34 icmp of Inl f \<Rightarrow> Inl f | Inr buf2 \<Rightarrow>
             (case rd_bytes buf2 34 36 of Inl f \<Rightarrow> Inl f | Inr icmp_bytes \<Rightarrow>
                put_t11 buf2 34 (icmp\<lparr>icmp11_sum := cksum icmp_bytes\<rparr>))))"
    unfolding icmp_error_frame_def error_ip_hdr_def layout by (simp add: Let_def cong: sum.case_cong)
  then show ?thesis
    by (simp add: b1 oob put_struct_def length_t11_hdr_bytes patch_def error_image_def stamp_t11_def Let_def)
qed

section \<open>Routing in closed form\<close>

definition frame_ip :: "bytes \<Rightarrow> sr_ip_hdr" where
  "frame_ip frame = ip_hdr_of (take 20 (drop 14 frame))"

definition next_hop_of :: "sr_rt \<Rightarrow> u32 \<Rightarrow> u32" where
  "next_hop_of rt dst = (if rt_gw rt = 0 then dst else rt_gw rt)"

text \<open>The frame as it is queued: source address and type of the Ethernet header rewritten.\<close>

definition rewrite_l2 :: "bytes \<Rightarrow> bytes \<Rightarrow> bytes" where
  "rewrite_l2 mac frame = take 6 frame @ mac @ le16 (htons ethertype_ip) @ drop 14 frame"

text \<open>The decision of the routing table for a destination: next hop and outgoing interface.\<close>

definition route_for :: "sr_instance \<Rightarrow> u32 \<Rightarrow> (u32 \<times> sr_if) option" where
  "route_for sr dst =
     (case rt_exact_match sr dst of None \<Rightarrow> None | Some rt \<Rightarrow>
        (case sr_get_interface sr (rt_interface rt) of None \<Rightarrow> None | Some i \<Rightarrow> Some (next_hop_of rt dst, i)))"

lemma get_ip_frame:
  assumes "34 \<le> length frame"
  shows "get_ip frame sizeof_eth = Inr (frame_ip frame)" "get_struct 20 ip_hdr_of frame 14 = Inr (frame_ip frame)"
  using assms iph.get_in [of sizeof_eth frame] by (simp_all add: layout frame_ip_def)

lemma length_rewrite_l2: "34 \<le> length frame \<Longrightarrow> length mac = 6 \<Longrightarrow> length (rewrite_l2 mac frame) = length frame"
  by (simp add: rewrite_l2_def)

lemma put_eth_rewrite:
  assumes "34 \<le> length frame" "length mac = 6"
  shows "(case get_eth frame 0 of Inl f \<Rightarrow> Inl f
    | Inr eth \<Rightarrow> put_eth frame 0 (eth\<lparr>ether_shost := mac, ether_type := htons ethertype_ip\<rparr>)) =
      Inr (rewrite_l2 mac frame)"
  using assms eth.get_in [of 0 frame]
  by (simp add: layout put_struct_def eth_hdr_bytes_def eth_hdr_of_def patch_def rewrite_l2_def)

lemma route_and_send_eq:
  assumes "34 \<le> length frame" "list_all if_wf (if_list sr)"
  shows "route_and_send_with handle env sr frame =
    (case route_for sr (ip_dst (frame_ip frame)) of None \<Rightarrow> Inr (- 1, sr) | Some (hop, i) \<Rightarrow>
       (case sr_arpcache_queuereq env (cache sr) hop (rewrite_l2 (if_addr i) frame) (if_name i) of Inl f \<Rightarrow> Inl f
        | Inr (req, c) \<Rightarrow> (case handle (sr\<lparr>cache := c\<rparr>) req of Inl f \<Rightarrow> Inl f | Inr sr' \<Rightarrow> Inr (0, sr'))))"
proof -
  have mac: "length (if_addr i) = 6" if "sr_get_interface sr name = Some i" for name i
    using assms(2) sr_get_interface_Some [OF that] by (auto simp: list_all_iff if_wf_def)
  have len: "\<not> length frame < sizeof_eth + sizeof_ip" using assms(1) by (simp add: layout)
  have eth: "\<exists>e. get_eth frame 0 = Inr e" using assms(1) eth.get_in [of 0 frame] by (simp add: layout)
  show ?thesis
    using eth len put_eth_rewrite [OF assms(1) mac]
    by (auto simp: route_and_send_with_def get_ip_frame [OF assms(1)] route_for_def next_hop_of_def Let_def
        split: option.splits)
qed

section \<open>The contract of the nested handler\<close>

locale handler_contract =
  fixes m :: nat and handle :: arpreq_handler
  assumes min_len: "34 \<le> m" "m \<le> 70"
    and handle_keeps: "sr_wf m sr \<Longrightarrow> keeps m sr (handle sr a)"
begin

lemma route_keeps:
  assumes "sr_wf m sr" "m \<le> length frame"
  shows "keeps m sr (case route_and_send_with handle env sr frame of Inl f \<Rightarrow> Inl f | Inr (rc, sr') \<Rightarrow> Inr sr')"
proof -
  have len: "34 \<le> length frame" using min_len assms(2) by simp
  have ifs: "list_all if_wf (if_list sr)" using assms(1) by (simp add: sr_wf_def)
  have queue: "keeps m sr (case sr_arpcache_queuereq env (cache sr) hop (rewrite_l2 (if_addr i) frame) (if_name i) of
        Inl f \<Rightarrow> Inl f | Inr (req, c) \<Rightarrow> handle (sr\<lparr>cache := c\<rparr>) req)"
    if i: "route_for sr dst = Some (hop, i)" for dst hop i
  proof (cases "sr_arpcache_queuereq env (cache sr) hop (rewrite_l2 (if_addr i) frame) (if_name i)")
    case (Inl f)
    then have "f = NullDeref"
      by (auto simp: sr_arpcache_queuereq_def add_req_def Let_def split: if_splits option.splits sum.splits prod.splits)
    with Inl show ?thesis by simp
  next
    case (Inr x)
    obtain req c where x: "x = (req, c)" by fastforce
    have "length (if_addr i) = 6"
      using i sr_wf_get_interface [OF assms(1)] by (auto simp: route_for_def split: option.splits)
    then have lf: "length (rewrite_l2 (if_addr i) frame) = length frame" using len by (simp add: length_rewrite_l2)
    then have "rewrite_l2 (if_addr i) frame \<noteq> []" using len by auto
    then have "arpcache_wf c" "queued_ge m c"
      using queuereq_wf [OF Inr [unfolded x]] queued_ge_queuereq [OF Inr [unfolded x], of m] assms len lf
      by (simp_all add: sr_wf_def)
    then have "sr_wf m (sr\<lparr>cache := c\<rparr>)" using assms(1) by (simp add: sr_wf_cache)
    then have "keeps m (sr\<lparr>cache := c\<rparr>) (handle (sr\<lparr>cache := c\<rparr>) req)" by (rule handle_keeps)
    then have "keeps m sr (handle (sr\<lparr>cache := c\<rparr>) req)" by (rule keeps_evolve [rotated]) simp
    then show ?thesis using Inr x by simp
  qed
  show ?thesis
    unfolding route_and_send_eq [OF len ifs]
    using queue assms(1) by (fastforce split: option.splits sum.splits)
qed

lemma error_keeps:
  assumes "sr_wf m sr" "m \<le> length orig"
  shows "keeps m sr (send_icmp_error_with handle env sr type code orig src)"
proof -
  have len: "34 \<le> length orig" using min_len assms(2) by simp
  have "keeps m sr (case icmp_error_frame ip orig type code s of Inl f \<Rightarrow> Inl f | Inr buf \<Rightarrow>
      (case route_and_send_with handle env sr buf of Inl f \<Rightarrow> Inl f | Inr (rc, sr') \<Rightarrow> Inr sr'))" for ip s
  proof (cases "length orig < 42")
    case True
    with assms(2) show ?thesis by (simp add: icmp_error_frame_eq [OF len] good_fault_def)
  next
    case False
    then have "m \<le> length (error_image type code s (ip_src ip) (take 28 (drop 14 orig)))"
      using min_len by (simp add: length_error_image)
    with False show ?thesis using route_keeps [OF assms(1)] by (simp add: icmp_error_frame_eq [OF len])
  qed
  then show ?thesis
    using assms(1) len
    by (simp add: send_icmp_error_with_def get_ip_frame Let_def)
qed

lemma loop_keeps:
  "sr_wf m sr \<Longrightarrow> \<forall>p\<in>set pkts. m \<le> length (pkt_buf p) \<Longrightarrow> keeps m sr (unreachable_loop handle env sr a pkts)"
proof (induction pkts arbitrary: sr)
  case (Cons p pkts)
  have "keeps m sr (case send_icmp_error_with handle env sr 3 1 (pkt_buf p) 0 of Inl f \<Rightarrow> Inl f
      | Inr sr' \<Rightarrow> unreachable_loop handle env sr' a pkts)"
    using Cons error_keeps by (intro keeps_bind) (auto intro: keeps_evolve)
  then show ?case using Cons by (auto simp: deref_req_Inl split: sum.splits)
qed simp

lemma body_keeps:
  assumes "sr_wf m sr"
  shows "keeps m sr (handle_arpreq_body handle env sr a)"
proof (cases "deref_req (cache sr) a")
  case (Inl f)
  then have "f = UseAfterFree" by (simp add: deref_req_Inl)
  with Inl show ?thesis by (simp add: handle_arpreq_body_def)
next
  case (Inr req)
  have give_up: "keeps m sr (case unreachable_loop handle env sr a (req_packets req) of Inl f \<Rightarrow> Inl f | Inr sr1 \<Rightarrow>
      (case deref_req (cache sr1) a of Inl f \<Rightarrow> Inl f
       | Inr _ \<Rightarrow> Inr (sr1\<lparr>cache := sr_arpreq_destroy (cache sr1) a\<rparr>)))"
    using assms loop_keeps [OF assms] deref_ge [OF assms Inr]
    by (intro keeps_bind) (auto simp: keeps_Inr deref_req_Inl destroy_wf queued_ge_destroy sr_wf_def split: sum.splits)
  have send: "keeps m sr (case req_packets req of [] \<Rightarrow> Inr sr
      | pkt # _ \<Rightarrow> send_arp_request env sr (req_ip req) (pkt_iface pkt))"
    using assms by (auto simp: send_arp_request_keeps split: list.splits)
  have touch: "sr_wf m (sr1\<lparr>cache := (cache sr1)\<lparr>requests := update_req (requests (cache sr1)) a
      (\<lambda>r. r\<lparr>req_sent := now, req_times_sent := req_times_sent r + 1\<rparr>)\<rparr>\<rparr>)" if "sr_wf m sr1" for sr1 now
    using that by (auto simp: sr_wf_def req_wf_def intro!: arpcache_wf_update queued_ge_touch)
  have "keeps m sr (case (case req_packets req of [] \<Rightarrow> Inr sr
      | pkt # _ \<Rightarrow> send_arp_request env sr (req_ip req) (pkt_iface pkt)) of Inl f \<Rightarrow> Inl f
      | Inr sr1 \<Rightarrow> Inr (sr1\<lparr>cache := (cache sr1)\<lparr>requests := update_req (requests (cache sr1)) a
          (\<lambda>r. r\<lparr>req_sent := env_time env, req_times_sent := req_times_sent r + 1\<rparr>)\<rparr>\<rparr>))"
    using send by (rule keeps_bind) (simp add: keeps_Inr touch)
  then show ?thesis
    using give_up assms Inr by (simp add: handle_arpreq_body_def)
qed

end

lemma handle_arpreq_contract:
  assumes "34 \<le> m" "m \<le> 70"
  shows "handler_contract m (handle_arpreq env depth)"
proof (induction depth)
  case 0
  show ?case using assms by unfold_locales simp_all
next
  case (Suc depth)
  show ?case using assms handler_contract.body_keeps [OF Suc] by unfold_locales simp_all
qed

interpretation hc: handler_contract 34 "handle_arpreq env depth" for env depth
  by (rule handle_arpreq_contract) simp_all

interpretation hc42: handler_contract 42 "handle_arpreq env depth" for env depth
  by (rule handle_arpreq_contract) simp_all

section \<open>The handlers keep the invariant\<close>

lemma drain_keeps:
  "sr_wf m sr \<Longrightarrow> length sha = 6 \<Longrightarrow> keeps m sr (drain_packets env sr sha pkts)"
proof (induction pkts arbitrary: sr)
  case (Cons p pkts)
  show ?case
  proof (cases "length (pkt_buf p) < sizeof_eth")
    case True
    with Cons show ?thesis by simp
  next
    case False
    then obtain eth where eth: "get_eth (pkt_buf p) 0 = Inr eth" "eth_hdr_wf eth"
      using eth.get_in [of 0 "pkt_buf p"] eth.get_wf [of "pkt_buf p" 0] by auto
    define eth1 where "eth1 = (case sr_get_interface sr (pkt_iface p) of None \<Rightarrow> eth
      | Some out_iface \<Rightarrow> eth\<lparr>ether_shost := if_addr out_iface\<rparr>)"
    have "eth_hdr_wf (eth1\<lparr>ether_dhost := sha\<rparr>)"
      using eth(2) Cons.prems sr_wf_get_interface [OF Cons.prems(1)]
      by (auto simp: eth1_def eth_hdr_wf_def split: option.splits)
    then obtain buf where "put_eth (pkt_buf p) 0 (eth1\<lparr>ether_dhost := sha\<rparr>) = Inr buf"
      using eth.put_in [of "eth1\<lparr>ether_dhost := sha\<rparr>" 0 "pkt_buf p"] False by auto
    moreover have "keeps m sr (case sr_send_packet env sr buf (pkt_iface p) of Inl f \<Rightarrow> Inl f
        | Inr (rc, sr') \<Rightarrow> drain_packets env sr' sha pkts)"
    proof (cases "sr_send_packet env sr buf (pkt_iface p)")
      case (Inr x)
      then obtain rc sr' where x: "sr_send_packet env sr buf (pkt_iface p) = Inr (rc, sr')" by (cases x) simp
      then have "keeps m sr' (drain_packets env sr' sha pkts)" "evolves sr sr'"
        using Cons sr_send_packet_evolves [OF x Cons.prems(1)] by simp_all
      with x show ?thesis by (simp add: keeps_evolve)
    qed (auto dest: sr_send_packet_fault)
    ultimately show ?thesis using False eth(1) by (simp add: Let_def flip: eth1_def)
  qed
qed simp

lemma get_arp_wf: "get_arp packet off = Inr arp \<Longrightarrow> length (ar_sha arp) = 6"
  using arp.get_wf [of packet off arp] by (simp add: arp_hdr_wf_def)

lemma handle_arp_keeps:
  assumes "sr_wf m sr"
  shows "keeps m sr (handle_arp_packet env sr packet interface)"
proof (cases "length packet < sizeof_eth + sizeof_arp")
  case True
  with assms show ?thesis by (simp add: handle_arp_packet_def)
next
  case False
  then obtain arp where arp: "get_arp packet sizeof_eth = Inr arp"
    using arp.get_in [of sizeof_eth packet] by auto
  have reply: "keeps m sr (case req of None \<Rightarrow> Inr (sr\<lparr>cache := c\<rparr>) | Some (a, r) \<Rightarrow>
      (case drain_packets env (sr\<lparr>cache := c\<rparr>) (ar_sha arp) (req_packets r) of Inl f \<Rightarrow> Inl f
       | Inr sr2 \<Rightarrow> Inr (sr2\<lparr>cache := sr_arpreq_destroy (cache sr2) a\<rparr>)))"
    if ins: "sr_arpcache_insert env (cache sr) (ar_sha arp) (ar_sip arp) = (req, c)" for req c
  proof -
    have wf1: "sr_wf m (sr\<lparr>cache := c\<rparr>)"
      using assms insert_wf [OF ins] requests_insert_subset [OF ins] queued_ge_subset [of c "cache sr" m]
      by (simp add: sr_wf_def)
    have "keeps m (sr\<lparr>cache := c\<rparr>) (case drain_packets env (sr\<lparr>cache := c\<rparr>) (ar_sha arp) ps of Inl f \<Rightarrow> Inl f
       | Inr sr2 \<Rightarrow> Inr (sr2\<lparr>cache := sr_arpreq_destroy (cache sr2) a\<rparr>))" for ps a
      using drain_keeps [OF wf1 get_arp_wf [OF arp]]
      by (rule keeps_bind) (auto simp: keeps_Inr sr_wf_def destroy_wf queued_ge_destroy)
    then have "keeps m sr (case drain_packets env (sr\<lparr>cache := c\<rparr>) (ar_sha arp) ps of Inl f \<Rightarrow> Inl f
       | Inr sr2 \<Rightarrow> Inr (sr2\<lparr>cache := sr_arpreq_destroy (cache sr2) a\<rparr>))" for ps a
      by (rule keeps_evolve [rotated]) simp
    then show ?thesis
      using wf1 by (auto simp: keeps_Inr split: option.splits)
  qed
  show ?thesis
    using False arp assms reply get_arp_wf [OF arp] sr_wf_get_interface [OF assms]
    by (auto simp: handle_arp_packet_def Let_def split: option.splits prod.splits
        intro!: send_arp_reply_keeps)
qed

text \<open>The mutually recursive functions, at any depth and for both length bounds.\<close>

lemma route_and_send_keeps:
  assumes "34 \<le> m" "m \<le> 70" "sr_wf m sr" "m \<le> length frame"
  shows "keeps m sr (case route_and_send env depth sr frame of Inl f \<Rightarrow> Inl f | Inr (rc, sr') \<Rightarrow> Inr sr')"
  unfolding route_and_send_def
  by (rule handler_contract.route_keeps [OF handle_arpreq_contract [OF assms(1,2)] assms(3,4)])

lemma send_icmp_error_keeps:
  assumes "34 \<le> m" "m \<le> 70" "sr_wf m sr" "m \<le> length orig"
  shows "keeps m sr (send_icmp_error env depth sr type code orig src)"
  unfolding send_icmp_error_def
  by (rule handler_contract.error_keeps [OF handle_arpreq_contract [OF assms(1,2)] assms(3,4)])

lemma handle_arpreq_keeps:
  "34 \<le> m \<Longrightarrow> m \<le> 70 \<Longrightarrow> sr_wf m sr \<Longrightarrow> keeps m sr (handle_arpreq env depth sr a)"
  by (rule handler_contract.handle_keeps [OF handle_arpreq_contract])

text \<open>The frames built on a received packet have its length.\<close>

definition stamped :: "bytes \<Rightarrow> nat \<Rightarrow> sr_ip_hdr \<Rightarrow> bytes" where
  "stamped buf n ip = patch buf 14 (ip_hdr_bytes
    (ip\<lparr>ip_sum := cksum (take n (drop 14 (patch buf 14 (ip_hdr_bytes (ip\<lparr>ip_sum := 0\<rparr>)))))\<rparr>))"

lemma put_stamped:
  "34 \<le> length buf \<Longrightarrow> 14 + n \<le> length buf \<Longrightarrow> put_ip_with_sum buf sizeof_eth n ip = Inr (stamped buf n ip)"
  by (simp add: put_ip_with_sum_eq stamped_def layout)

lemma length_stamped [simp]: "34 \<le> length buf \<Longrightarrow> length (stamped buf n ip) = length buf"
  by (simp add: stamped_def)

lemma put_t08_with_sum_eq:
  assumes "off + 8 \<le> length buf"
  shows "put_t08_with_sum buf off icmp = Inr (patch buf off (t08_hdr_bytes
    (icmp\<lparr>icmp_sum := cksum (drop off (patch buf off (t08_hdr_bytes (icmp\<lparr>icmp_sum := 0\<rparr>))))\<rparr>)))"
proof -
  let ?z = "patch buf off (t08_hdr_bytes (icmp\<lparr>icmp_sum := 0\<rparr>))"
  have z: "length ?z = length buf" using assms by simp
  then have "put_t08_with_sum buf off icmp =
      Inr (patch ?z off (t08_hdr_bytes (icmp\<lparr>icmp_sum := cksum (drop off ?z)\<rparr>)))"
    using assms by (simp add: put_t08_with_sum_def put_struct_def)
  then show ?thesis
    using t08.put_put [where h = "icmp\<lparr>icmp_sum := 0\<rparr>" and off = off and buf = buf] assms by (simp add: layout)
qed

lemma echo_reply_frame_length:
  assumes "34 \<le> length orig" "14 + unat (ip_hl (frame_ip orig)) * 4 + 8 \<le> length orig"
  obtains buf where "echo_reply_frame orig = Inr buf" "length buf = length orig"
proof -
  let ?n = "unat (ip_hl (frame_ip orig)) * 4"
  let ?ip = "(frame_ip orig)\<lparr>ip_src := ip_dst (frame_ip orig), ip_dst := ip_src (frame_ip orig), ip_ttl := INIT_TTL\<rparr>"
  have len: "length (stamped orig ?n ?ip) = length orig" using assms(1) by simp
  then obtain icmp where "get_t08 (stamped orig ?n ?ip) (sizeof_eth + ?n) = Inr icmp"
    using t08.get_in [of "sizeof_eth + ?n" "stamped orig ?n ?ip"] assms(2) by (simp add: layout)
  moreover have "put_ip_with_sum orig sizeof_eth ?n ?ip = Inr (stamped orig ?n ?ip)"
    using assms by (simp add: put_stamped)
  ultimately show thesis
    using that assms len by (simp add: echo_reply_frame_def get_ip_frame Let_def put_t08_with_sum_eq layout)
qed

lemma echo_reply_keeps:
  assumes "34 \<le> m" "m \<le> 70" "sr_wf m sr" "m \<le> length orig" "14 + unat (ip_hl (frame_ip orig)) * 4 + 8 \<le> length orig"
  shows "keeps m sr (send_icmp_echo_reply env depth sr orig)"
proof -
  obtain buf where buf: "echo_reply_frame orig = Inr buf" "length buf = length orig"
    using echo_reply_frame_length [of orig] assms by auto
  with assms show ?thesis
    using route_and_send_keeps [OF assms(1-3), of buf env depth] by (simp add: send_icmp_echo_reply_def)
qed

lemma local_ip_keeps:
  assumes "34 \<le> m" "m \<le> 70" "sr_wf m sr" "m \<le> length packet" "ip = frame_ip packet"
  shows "keeps m sr (handle_local_ip env depth sr packet ip (unat (ip_hl ip) * 4))"
proof (cases "length packet < sizeof_eth + unat (ip_hl ip) * 4 + sizeof_t08")
  case True
  with assms(3) show ?thesis by (simp add: handle_local_ip_def Let_def)
next
  case False
  let ?off = "sizeof_eth + unat (ip_hl ip) * 4"
  obtain icmp where icmp: "get_t08 packet ?off = Inr icmp"
    using False t08.get_in [of ?off packet] by auto
  have "keeps m sr (send_icmp_echo_reply env depth sr packet)"
    using assms False by (intro echo_reply_keeps) (simp_all add: layout)
  with False icmp assms(3) show ?thesis
    by (simp add: handle_local_ip_def Let_def put_struct_def layout)
qed

lemma forward_ip_keeps:
  assumes "34 \<le> m" "m \<le> 70" "sr_wf m sr" "m \<le> length packet" "14 + n \<le> length packet"
  shows "keeps m sr (forward_ip env depth sr packet interface ip n)"
proof -
  let ?f = "stamped packet n (ip\<lparr>ip_ttl := ip_ttl ip - 1\<rparr>)"
  have "keeps m sr (case route_and_send env depth sr ?f of Inl f \<Rightarrow> Inl f | Inr (rc, sr') \<Rightarrow>
      if rc < 0 then send_icmp_error env depth sr' 3 0 packet (in_iface_ip sr' interface) else Inr sr')"
  proof (cases "route_and_send env depth sr ?f")
    case (Inl f)
    then show ?thesis using route_and_send_keeps [OF assms(1-3), of ?f env depth] assms by simp
  next
    case (Inr x)
    obtain rc sr' where x: "x = (rc, sr')" by fastforce
    then have "sr_wf m sr'" "evolves sr sr'"
      using route_and_send_keeps [OF assms(1-3), of ?f env depth] assms Inr by (simp_all add: keeps_Inr)
    then show ?thesis
      using Inr x send_icmp_error_keeps [OF assms(1,2) \<open>sr_wf m sr'\<close> assms(4)]
      by (simp add: keeps_Inr keeps_evolve)
  qed
  then show ?thesis
    using assms send_icmp_error_keeps [OF assms(1-4)] by (simp add: forward_ip_def put_stamped)
qed

lemma handle_ip_keeps:
  assumes "34 \<le> m" "m \<le> 70" "sr_wf m sr" "m \<le> length packet \<or> length packet < 34"
  shows "keeps m sr (handle_ip_packet env depth sr packet interface)"
proof (cases "length packet < 34")
  case True
  with assms(3) show ?thesis by (simp add: handle_ip_packet_def layout)
next
  case False
  then have len: "34 \<le> length packet" "m \<le> length packet" using assms(4) by auto
  let ?ip = "frame_ip packet" and ?n = "unat (ip_hl (frame_ip packet)) * 4"
  have "14 + ?n \<le> length packet \<Longrightarrow> keeps m sr (forward_ip env depth sr packet interface ?ip ?n)"
    using assms len by (intro forward_ip_keeps)
  moreover have "keeps m sr (handle_local_ip env depth sr packet ?ip ?n)"
    using assms len by (intro local_ip_keeps) auto
  ultimately show ?thesis
    using len assms(3)
    by (auto simp: handle_ip_packet_def get_ip_frame Let_def put_struct_def layout split: option.splits)
qed

lemma sr_handlepacket_keeps:
  assumes "34 \<le> m" "m \<le> 70" "sr_wf m sr" "m \<le> length packet \<or> length packet < 34"
  shows "keeps m sr (sr_handlepacket env depth sr packet interface)"
proof (cases "length packet < sizeof_eth")
  case True
  with assms(3) show ?thesis by (simp add: sr_handlepacket_def)
next
  case False
  then obtain et where "ethertype packet = Inr et"
    using eth.get_in [of 0 packet] by (simp add: ethertype_def)
  then show ?thesis
    using False assms handle_ip_keeps [OF assms] handle_arp_keeps [OF assms(3)] by (simp add: sr_handlepacket_def)
qed

lemma sweep_walk_keeps:
  "34 \<le> m \<Longrightarrow> m \<le> 70 \<Longrightarrow> sr_wf m sr \<Longrightarrow> keeps m sr (sweep_walk env depth visits sr p)"
proof (induction env depth visits sr p rule: sweep_walk.induct)
  case (3 env depth visits sr req)
  show ?case
  proof (cases "deref_req (cache sr) req")
    case (Inl f)
    then have "f = UseAfterFree" by (simp add: deref_req_Inl)
    with Inl show ?thesis by simp
  next
    case (Inr r)
    have "keeps m sr (case handle_arpreq env depth sr req of Inl f \<Rightarrow> Inl f
        | Inr sr' \<Rightarrow> sweep_walk env depth visits sr' (next_req (requests (cache sr)) req))"
    proof (cases "handle_arpreq env depth sr req")
      case (Inl f)
      then show ?thesis using handle_arpreq_keeps [OF "3.prems", of env depth req] by simp
    next
      case h: (Inr sr')
      then have "sr_wf m sr'" "evolves sr sr'"
        using handle_arpreq_keeps [OF "3.prems", of env depth req] by (simp_all add: keeps_Inr)
      then show ?thesis using "3.IH" [OF Inr refl h] "3.prems" h by (simp add: keeps_evolve)
    qed
    with Inr show ?thesis by (simp add: Let_def)
  qed
qed simp_all

lemma timeout_round_keeps:
  assumes "34 \<le> m" "m \<le> 70" "sr_wf m sr"
  shows "keeps m sr (sr_arpcache_timeout_round env depth sr)"
proof -
  let ?s = "sr\<lparr>cache := expire_entries (env_time env) (cache sr)\<rparr>"
  have "sr_wf m ?s" using assms(3) by (simp add: sr_wf_def expire_wf queued_ge_expire)
  then have "keeps m ?s (sr_arpcache_timeout_round env depth sr)"
    using sweep_walk_keeps [OF assms(1,2)] by (simp add: sr_arpcache_timeout_round_def sr_arpcache_sweepreqs_def)
  then show ?thesis by (rule keeps_evolve [rotated]) simp
qed

end
