(* ===== verification/SR_Frames.thy ===== *)
theory SR_Frames
  imports SR_Router_Inv
begin

text \<open>
  What the handlers do to the bytes of a frame, free of buffers and overlays: the checksum test of a
  receiver as a statement about the sum of the header words, and the frames that are forwarded,
  answered and delivered, each with the property that makes the next receiver accept it.
\<close>

section \<open>Patches inside an overlay\<close>

lemma patch_inside:
  assumes "i + length bs \<le> n" "off + n \<le> length buf"
  shows "patch buf off (patch (take n (drop off buf)) i bs) = patch buf (off + i) bs"
  using assms by (intro nth_equalityI) (auto simp: nth_patch)

lemma region_patch:
  assumes "i + length bs \<le> n" "off + n \<le> length buf"
  shows "take n (drop off (patch buf (off + i) bs)) = patch (take n (drop off buf)) i bs"
  using assms by (intro nth_equalityI) (auto simp: nth_patch)

lemma ip_hdr_fields:
  "ip_hdr_bytes (ip\<lparr>ip_sum := s\<rparr>) = patch (ip_hdr_bytes ip) 10 (le16 s)"
  "ip_hdr_bytes (ip\<lparr>ip_ttl := t\<rparr>) = patch (ip_hdr_bytes ip) 8 [t]"
  "ip_hdr_bytes (ip\<lparr>ip_src := a\<rparr>) = patch (ip_hdr_bytes ip) 12 (le32 a)"
  "ip_hdr_bytes (ip\<lparr>ip_dst := a\<rparr>) = patch (ip_hdr_bytes ip) 16 (le32 a)"
  by (simp_all add: ip_hdr_bytes_def patch_def le16_def le32_def)

lemma t08_hdr_fields:
  "t08_hdr_bytes (h\<lparr>icmp_sum := s\<rparr>) = patch (t08_hdr_bytes h) 2 (le16 s)"
  by (simp add: t08_hdr_bytes_def patch_def le16_def)

lemma ip_hdr_bytes_frame: "34 \<le> length frame \<Longrightarrow> ip_hdr_bytes (frame_ip frame) = take 20 (drop 14 frame)"
  by (simp add: frame_ip_def iph.to_of layout)

lemma patch_ip_sum:
  assumes "34 \<le> length frame"
  shows "patch frame 14 (ip_hdr_bytes ((frame_ip frame)\<lparr>ip_sum := s\<rparr>)) = patch frame 24 (le16 s)"
  using patch_inside [of 10 "le16 s" 20 14 frame] assms by (simp add: ip_hdr_fields ip_hdr_bytes_frame)

lemma frame_ip_patch:
  "34 \<le> length buf \<Longrightarrow> frame_ip (patch buf 14 (ip_hdr_bytes ip)) = ip"
  using rd_patch_same [of 14 "ip_hdr_bytes ip" buf] by (simp add: frame_ip_def iph.of_to)

section \<open>The checksum test of a receiver\<close>

definition field16 :: "bytes \<Rightarrow> nat \<Rightarrow> u16" where
  "field16 region off = of_le16 (region ! off) (region ! Suc off)"

definition sum_valid :: "bytes \<Rightarrow> nat \<Rightarrow> bool" where
  "sum_valid region off \<longleftrightarrow> be16_sum region mod 65535 = 0 \<and> field16 region off \<noteq> 0"

lemma take2_field16: "off + 2 \<le> length region \<Longrightarrow> take 2 (drop off region) = le16 (field16 region off)"
  by (auto simp: field16_def le16_def take_drop_nth upt_rec)

lemma complement_iff:
  fixes f s :: nat
  assumes "0 < f" "f \<le> n" "0 < n"
  shows "f = n - s mod n \<longleftrightarrow> (s + f) mod n = 0"
proof
  assume "(s + f) mod n = 0"
  then have "(s mod n + f) mod n = 0" by (simp add: mod_add_left_eq)
  then obtain k where k: "s mod n + f = n * k" by (metis mod_0_imp_dvd dvdE)
  have "s mod n < n" using assms by simp
  with assms k have "0 < n * k" "n * k < n * 2" by linarith+
  then have "k = 1" using assms(3) by (cases k) (auto simp: less_Suc_eq)
  with k show "f = n - s mod n" by simp
next
  assume "f = n - s mod n"
  with assms(3) show "(s + f) mod n = 0" using add_complement_mod [of n s] by (simp only:)
qed

lemma checksum_test:
  assumes "length region \<le> 131072" "even off" "off + 2 \<le> length region"
  shows "field16 region off = cksum (patch region off [0, 0]) \<longleftrightarrow> sum_valid region off"
proof -
  let ?f = "field16 region off" and ?z = "patch region off [0, 0]"
  have sum: "be16_sum region = be16_sum ?z + unat (ntohs ?f)"
    using be16_sum_patch [of off "[0, 0]" region] take2_field16 [OF assms(3)] assms
    by (simp add: be16_sum_le16 numeral_2_eq_2)
  have len: "length ?z \<le> 131072" using assms by simp
  have "?f = cksum ?z \<longleftrightarrow> unat (ntohs ?f) = unat (ntohs (cksum ?z))"
    by (metis htons_eq_iff word_unat_eq_iff)
  also have "\<dots> \<longleftrightarrow> unat (ntohs ?f) = 65535 - be16_sum ?z mod 65535" using cksum_value [OF len] by simp
  also have "\<dots> \<longleftrightarrow> be16_sum region mod 65535 = 0 \<and> ?f \<noteq> 0"
  proof (cases "?f = 0")
    case True
    have "be16_sum ?z mod 65535 < 65535" by simp
    with True show ?thesis by simp
  next
    case False
    then have "0 < unat (ntohs ?f)" "unat (ntohs ?f) \<le> 65535"
      using unat_u16_less [of "ntohs ?f"] by (auto simp: unat_gt_0)
    then show ?thesis using complement_iff [of "unat (ntohs ?f)" 65535 "be16_sum ?z"] False by (simp add: sum)
  qed
  finally show ?thesis by (simp add: sum_valid_def)
qed

lemma sum_valid_stamped:
  assumes "length region \<le> 131072" "even off" "off + 2 \<le> length region"
  shows "sum_valid (patch region off (le16 (cksum (patch region off [0, 0])))) off"
proof -
  let ?z = "patch region off [0, 0]"
  have 2: "patch ?z off (le16 (cksum ?z)) = patch region off (le16 (cksum ?z))"
    using assms by (simp add: patch_def)
  have "be16_sum (patch ?z off (le16 (cksum ?z))) mod 65535 = 0"
    using assms rd_patch_same [of off "[0, 0]" region]
    by (intro cksum_insert_valid) (simp_all add: numeral_2_eq_2)
  moreover have "field16 (patch region off (le16 (cksum ?z))) off = cksum ?z"
    using assms by (simp add: field16_def nth_patch le16_def)
  ultimately show ?thesis using 2 by (simp add: sum_valid_def cksum_not_zero)
qed

section \<open>Well-formed IP frames\<close>

definition header_len :: "bytes \<Rightarrow> nat" where
  "header_len packet = unat (ip_hl (frame_ip packet)) * 4"

definition header_region :: "bytes \<Rightarrow> bytes" where
  "header_region packet = take (header_len packet) (drop 14 packet)"

definition ip_valid :: "bytes \<Rightarrow> bool" where
  "ip_valid packet \<longleftrightarrow> 34 \<le> length packet \<and> 20 \<le> header_len packet \<and> 14 + header_len packet \<le> length packet \<and>
     header_len packet \<le> unat (ntohs (ip_len (frame_ip packet))) \<and> sum_valid (header_region packet) 10"

lemma header_len_le: "header_len packet \<le> 60"
  using unat_4_less [of "ip_hl (frame_ip packet)"] by (simp add: header_len_def)

lemma header_sum_test:
  assumes "20 \<le> header_len packet" "14 + header_len packet \<le> length packet"
  shows "ip_sum (frame_ip packet) = cksum (take (header_len packet) (drop 14 (patch packet 24 [0, 0]))) \<longleftrightarrow>
    sum_valid (header_region packet) 10"
proof -
  have "ip_sum (frame_ip packet) = field16 (header_region packet) 10"
    using assms by (simp add: frame_ip_def ip_hdr_of_def ld16_def field16_def header_region_def)
  moreover have "take (header_len packet) (drop 14 (patch packet 24 [0, 0])) = patch (header_region packet) 10 [0, 0]"
    using region_patch [of 10 "[0, 0]" "header_len packet" 14 packet] assms by (simp add: header_region_def)
  moreover have "length (header_region packet) \<le> 131072" "10 + 2 \<le> length (header_region packet)"
    using assms header_len_le [of packet] by (simp_all add: header_region_def)
  ultimately show ?thesis by (simp add: checksum_test)
qed

lemma ip_test:
  assumes "34 \<le> length packet" "20 \<le> header_len packet" "14 + header_len packet \<le> length packet"
  shows "(case put_ip packet sizeof_eth ((frame_ip packet)\<lparr>ip_sum := 0\<rparr>) of Inl f \<Rightarrow> Inl f | Inr zeroed \<Rightarrow>
      (case rd_bytes zeroed sizeof_eth (header_len packet) of Inl f \<Rightarrow> Inl f | Inr hdr \<Rightarrow>
         if ip_sum (frame_ip packet) \<noteq> cksum hdr then x else y)) =
    (if sum_valid (header_region packet) 10 then y else x)"
proof -
  have z: "le16 0 = [0, 0]" by (simp add: le16_def)
  have "put_ip packet sizeof_eth ((frame_ip packet)\<lparr>ip_sum := 0\<rparr>) = Inr (patch packet 24 [0, 0])"
    using assms iph.put_in [where h = "(frame_ip packet)\<lparr>ip_sum := 0\<rparr>" and off = sizeof_eth and buf = packet] patch_ip_sum [of packet 0]
    by (simp add: layout z)
  then show ?thesis using assms header_sum_test [OF assms(2,3)] by (simp add: layout)
qed

section \<open>Frames with a recomputed header checksum\<close>

lemma patch_patch_same: "length as = length bs \<Longrightarrow> off + length as \<le> length buf \<Longrightarrow> patch (patch buf off as) off bs = patch buf off bs"
  by (simp add: patch_def)

lemma stamped_patch:
  assumes "34 \<le> length buf"
  shows "patch buf 14 (ip_hdr_bytes (ip\<lparr>ip_sum := s\<rparr>)) = patch (patch buf 14 (ip_hdr_bytes ip)) 24 (le16 s)"
  using patch_ip_sum [of "patch buf 14 (ip_hdr_bytes ip)" s] assms
  by (simp add: frame_ip_patch patch_patch_same)

lemma stamped_frame_ip:
  "34 \<le> length buf \<Longrightarrow> \<exists>s. frame_ip (stamped buf n ip) = ip\<lparr>ip_sum := s\<rparr>"
  unfolding stamped_def by (metis frame_ip_patch)

lemma stamped_outside:
  "34 \<le> length buf \<Longrightarrow> take 14 (stamped buf n ip) = take 14 buf" "34 \<le> length buf \<Longrightarrow> drop 34 (stamped buf n ip) = drop 34 buf"
  by (simp_all add: stamped_def patch_def)

lemma stamped_valid:
  assumes "34 \<le> length buf" "20 \<le> n" "14 + n \<le> length buf" "n \<le> 60"
  shows "sum_valid (take n (drop 14 (stamped buf n ip))) 10"
proof -
  let ?w = "patch buf 14 (ip_hdr_bytes ip)"
  have w: "14 + n \<le> length ?w" using assms by simp
  have reg: "take n (drop 14 (patch ?w 24 (le16 s))) = patch (take n (drop 14 ?w)) 10 (le16 s)" for s
    using region_patch [of 10 "le16 s" n 14 ?w] assms w by simp
  have "take n (drop 14 (stamped buf n ip)) =
      patch (take n (drop 14 ?w)) 10 (le16 (cksum (patch (take n (drop 14 ?w)) 10 (le16 0))))"
    unfolding stamped_def stamped_patch [OF assms(1)] reg ..
  moreover have "le16 0 = [0, 0]" by (simp add: le16_def)
  ultimately show ?thesis using assms w sum_valid_stamped [of "take n (drop 14 ?w)" 10] by simp
qed

text \<open>The frame that is forwarded: the TTL is one less, the checksum is valid, all else is the same.\<close>

definition ttl_decremented :: "bytes \<Rightarrow> bytes" where
  "ttl_decremented packet =
     stamped packet (header_len packet) ((frame_ip packet)\<lparr>ip_ttl := ip_ttl (frame_ip packet) - 1\<rparr>)"

lemma ttl_decremented_spec:
  assumes "ip_valid packet"
  shows "length (ttl_decremented packet) = length packet"
    "take 14 (ttl_decremented packet) = take 14 packet" "drop 34 (ttl_decremented packet) = drop 34 packet"
    "\<exists>s. frame_ip (ttl_decremented packet) =
      (frame_ip packet)\<lparr>ip_ttl := ip_ttl (frame_ip packet) - 1, ip_sum := s\<rparr>"
    "ip_valid (ttl_decremented packet)"
proof -
  have v: "34 \<le> length packet" "20 \<le> header_len packet" "14 + header_len packet \<le> length packet"
    "header_len packet \<le> unat (ntohs (ip_len (frame_ip packet)))" using assms by (simp_all add: ip_valid_def)
  show len: "length (ttl_decremented packet) = length packet" using v by (simp add: ttl_decremented_def)
  show "take 14 (ttl_decremented packet) = take 14 packet" "drop 34 (ttl_decremented packet) = drop 34 packet"
    using v by (simp_all add: ttl_decremented_def stamped_outside)
  show ip: "\<exists>s. frame_ip (ttl_decremented packet) =
      (frame_ip packet)\<lparr>ip_ttl := ip_ttl (frame_ip packet) - 1, ip_sum := s\<rparr>"
    using stamped_frame_ip [OF v(1)] by (simp add: ttl_decremented_def)
  then have hl: "header_len (ttl_decremented packet) = header_len packet"
    "ip_len (frame_ip (ttl_decremented packet)) = ip_len (frame_ip packet)" by (auto simp: header_len_def)
  have "sum_valid (take (header_len packet) (drop 14 (ttl_decremented packet))) 10"
    using stamped_valid [OF v(1-3) header_len_le] by (simp add: ttl_decremented_def)
  then show "ip_valid (ttl_decremented packet)" using v len hl by (simp add: ip_valid_def header_region_def)
qed

section \<open>Echo replies\<close>

definition icmp_at :: "bytes \<Rightarrow> nat \<Rightarrow> sr_icmp_t08_hdr" where
  "icmp_at frame off = t08_hdr_of (take 8 (drop off frame))"

definition icmp_stamped :: "bytes \<Rightarrow> nat \<Rightarrow> sr_icmp_t08_hdr \<Rightarrow> bytes" where
  "icmp_stamped buf off icmp = patch buf off (t08_hdr_bytes
     (icmp\<lparr>icmp_sum := cksum (drop off (patch buf off (t08_hdr_bytes (icmp\<lparr>icmp_sum := 0\<rparr>))))\<rparr>))"

definition echo_request_valid :: "bytes \<Rightarrow> bool" where
  "echo_request_valid packet \<longleftrightarrow> ip_p (frame_ip packet) = ip_protocol_icmp \<and>
     14 + header_len packet + 8 \<le> length packet \<and> icmp_type (icmp_at packet (14 + header_len packet)) = 8 \<and>
     sum_valid (drop (14 + header_len packet) packet) 2"

definition echo_reply :: "bytes \<Rightarrow> bytes" where
  "echo_reply packet =
     (let n = header_len packet; ip = frame_ip packet
      in icmp_stamped (stamped packet n (ip\<lparr>ip_src := ip_dst ip, ip_dst := ip_src ip, ip_ttl := INIT_TTL\<rparr>)) (14 + n)
           ((icmp_at packet (14 + n))\<lparr>icmp_type := 0, icmp_code := 0\<rparr>))"

lemma drop_patch:
  assumes "off + i + length bs \<le> length buf"
  shows "drop off (patch buf (off + i) bs) = patch (drop off buf) i bs"
  using assms by (intro nth_equalityI) (auto simp: nth_patch)

lemma patch_t08:
  assumes "off + 8 \<le> length buf"
  shows "patch buf off (t08_hdr_bytes (icmp\<lparr>icmp_sum := s\<rparr>)) = patch (patch buf off (t08_hdr_bytes icmp)) (off + 2) (le16 s)"
proof -
  let ?w = "patch buf off (t08_hdr_bytes icmp)"
  have "take 8 (drop off ?w) = t08_hdr_bytes icmp" using rd_patch_same [of off "t08_hdr_bytes icmp" buf] assms by simp
  then have "patch ?w (off + 2) (le16 s) = patch ?w off (patch (t08_hdr_bytes icmp) 2 (le16 s))"
    using patch_inside [of 2 "le16 s" 8 off ?w] assms by simp
  then show ?thesis using assms by (simp add: t08_hdr_fields patch_patch_same)
qed

lemma icmp_stamped_valid:
  assumes "off + 8 \<le> length buf" "length buf \<le> 131072"
  shows "sum_valid (drop off (icmp_stamped buf off icmp)) 2"
proof -
  let ?w = "patch buf off (t08_hdr_bytes icmp)"
  have d: "drop off (patch ?w (off + 2) (le16 s)) = patch (drop off ?w) 2 (le16 s)" for s
    using assms by (intro drop_patch) simp
  have "drop off (icmp_stamped buf off icmp) =
      patch (drop off ?w) 2 (le16 (cksum (patch (drop off ?w) 2 (le16 0))))"
    unfolding icmp_stamped_def patch_t08 [OF assms(1)] d ..
  moreover have "le16 0 = [0, 0]" by (simp add: le16_def)
  ultimately show ?thesis using assms sum_valid_stamped [of "drop off ?w" 2] by simp
qed

lemma icmp_stamped_simps:
  assumes "off + 8 \<le> length buf"
  shows "length (icmp_stamped buf off icmp) = length buf" "take off (icmp_stamped buf off icmp) = take off buf"
    "drop (off + 8) (icmp_stamped buf off icmp) = drop (off + 8) buf"
    "\<exists>s. icmp_at (icmp_stamped buf off icmp) off = icmp\<lparr>icmp_sum := s\<rparr>"
proof -
  have same: "take 8 (drop off (patch buf off (t08_hdr_bytes h))) = t08_hdr_bytes h" for h
    using assms rd_patch_same [of off "t08_hdr_bytes h" buf] by simp
  show "length (icmp_stamped buf off icmp) = length buf" "take off (icmp_stamped buf off icmp) = take off buf"
    "drop (off + 8) (icmp_stamped buf off icmp) = drop (off + 8) buf"
    using assms by (simp_all add: icmp_stamped_def patch_def)
  show "\<exists>s. icmp_at (icmp_stamped buf off icmp) off = icmp\<lparr>icmp_sum := s\<rparr>"
    unfolding icmp_stamped_def icmp_at_def same t08.of_to [OF TrueI] by blast
qed

lemma echo_reply_frame_eq:
  assumes "34 \<le> length packet" "20 \<le> header_len packet" "14 + header_len packet + 8 \<le> length packet"
  shows "echo_reply_frame packet = Inr (echo_reply packet)"
proof -
  let ?n = "header_len packet"
  let ?ip = "(frame_ip packet)\<lparr>ip_src := ip_dst (frame_ip packet), ip_dst := ip_src (frame_ip packet), ip_ttl := INIT_TTL\<rparr>"
  let ?b = "stamped packet ?n ?ip"
  have "drop (14 + ?n) ?b = drop (?n - 20) (drop 34 ?b)" using assms(2) by (simp add: add.commute)
  also have "\<dots> = drop (14 + ?n) packet" using assms(1,2) by (simp only: stamped_outside drop_drop) (simp add: add.commute)
  finally have same: "drop (14 + ?n) ?b = drop (14 + ?n) packet" .
  have "get_t08 ?b (sizeof_eth + ?n) = Inr (icmp_at packet (14 + ?n))"
    using t08.get_in [of "sizeof_eth + ?n" ?b] assms by (simp add: icmp_at_def layout same)
  moreover have "put_ip_with_sum packet sizeof_eth ?n ?ip = Inr ?b" using assms by (simp add: put_stamped)
  ultimately show ?thesis
    using assms by (simp add: echo_reply_frame_def get_ip_frame Let_def put_t08_with_sum_eq echo_reply_def icmp_stamped_def
        header_len_def [symmetric] layout)
qed

lemma region_take: "take n (drop m x) = drop m (take (m + n) x)" for x :: bytes
  by (simp add: drop_take)

lemma frame_ip_prefix: "take off x = take off y \<Longrightarrow> 34 \<le> off \<Longrightarrow> frame_ip x = frame_ip y"
proof -
  assume "take off x = take off y" "34 \<le> off"
  then have "take 34 x = take 34 y" by (metis take_take min.absorb1)
  then show ?thesis by (simp add: frame_ip_def region_take)
qed

lemma ip_valid_prefix:
  assumes "take (14 + header_len y) x = take (14 + header_len y) y" "length x = length y" "ip_valid y"
  shows "frame_ip x = frame_ip y" "ip_valid x"
proof -
  show ip: "frame_ip x = frame_ip y" using assms by (intro frame_ip_prefix [OF assms(1)]) (simp add: ip_valid_def)
  then have "header_len x = header_len y" by (simp add: header_len_def)
  moreover from this have "header_region x = header_region y"
    unfolding header_region_def region_take using assms(1) by (simp only:)
  ultimately show "ip_valid x" using assms(2,3) ip by (simp add: ip_valid_def)
qed

lemma echo_reply_spec:
  assumes v: "ip_valid packet" and e: "14 + header_len packet + 8 \<le> length packet" and len: "length packet \<le> 131072"
  defines "off \<equiv> 14 + header_len packet"
  shows "length (echo_reply packet) = length packet" "take 14 (echo_reply packet) = take 14 packet"
    "drop (off + 8) (echo_reply packet) = drop (off + 8) packet"
    "\<exists>s. frame_ip (echo_reply packet) = (frame_ip packet)\<lparr>ip_src := ip_dst (frame_ip packet),
       ip_dst := ip_src (frame_ip packet), ip_ttl := INIT_TTL, ip_sum := s\<rparr>"
    "ip_valid (echo_reply packet)"
    "\<exists>s. icmp_at (echo_reply packet) off = (icmp_at packet off)\<lparr>icmp_type := 0, icmp_code := 0, icmp_sum := s\<rparr>"
    "sum_valid (drop off (echo_reply packet)) 2"
proof -
  let ?n = "header_len packet"
  let ?ip = "(frame_ip packet)\<lparr>ip_src := ip_dst (frame_ip packet), ip_dst := ip_src (frame_ip packet), ip_ttl := INIT_TTL\<rparr>"
  let ?b = "stamped packet ?n ?ip" and ?icmp = "(icmp_at packet off)\<lparr>icmp_type := 0, icmp_code := 0\<rparr>"
  have n: "34 \<le> length packet" "20 \<le> ?n" "14 + ?n \<le> length packet" "?n \<le> unat (ntohs (ip_len (frame_ip packet)))"
    using v by (simp_all add: ip_valid_def)
  have b: "length ?b = length packet" using n(1) by simp
  have r: "echo_reply packet = icmp_stamped ?b off ?icmp" by (simp add: echo_reply_def off_def Let_def)
  have o: "off + 8 \<le> length ?b" using e b by (simp add: off_def)
  show lr: "length (echo_reply packet) = length packet" using icmp_stamped_simps(1) [OF o] b by (simp add: r)
  have pre: "take off (echo_reply packet) = take off ?b" using icmp_stamped_simps(2) [OF o] by (simp add: r)
  have "14 \<le> off" by (simp add: off_def)
  then have "take 14 (echo_reply packet) = take 14 ?b"
    using arg_cong [OF pre, of "take 14"] by (simp add: min_absorb1)
  then show "take 14 (echo_reply packet) = take 14 packet" using stamped_outside(1) [OF n(1)] by simp
  have "drop (off + 8) ?b = drop (off + 8 - 34) (drop 34 ?b)" using n(2) by (simp add: off_def add.commute)
  also have "\<dots> = drop (off + 8) packet" using n(1,2) by (simp only: stamped_outside drop_drop) (simp add: off_def)
  finally show "drop (off + 8) (echo_reply packet) = drop (off + 8) packet"
    using icmp_stamped_simps(3) [OF o] by (simp add: r)
  obtain s where bip: "frame_ip ?b = ?ip\<lparr>ip_sum := s\<rparr>" using stamped_frame_ip [OF n(1)] by blast
  then have bhl: "header_len ?b = ?n" by (simp add: header_len_def)
  have "ip_valid ?b" using stamped_valid [OF n(1-3) header_len_le] n b bhl bip by (simp add: ip_valid_def header_region_def)
  then show ip: "ip_valid (echo_reply packet)" and "\<exists>s. frame_ip (echo_reply packet) = (frame_ip packet)\<lparr>
      ip_src := ip_dst (frame_ip packet), ip_dst := ip_src (frame_ip packet), ip_ttl := INIT_TTL, ip_sum := s\<rparr>"
    using ip_valid_prefix [of ?b "echo_reply packet"] pre lr b bhl bip by (auto simp: off_def)
  show "\<exists>s. icmp_at (echo_reply packet) off = (icmp_at packet off)\<lparr>icmp_type := 0, icmp_code := 0, icmp_sum := s\<rparr>"
    using icmp_stamped_simps(4) [OF o, of ?icmp] by (simp add: r)
  show "sum_valid (drop off (echo_reply packet)) 2"
    using icmp_stamped_valid [OF o] len b by (simp add: r)
qed

section \<open>ICMP errors\<close>

lemma stamp_ip_valid: "sum_valid (ip_hdr_bytes (stamp_ip ip)) 10"
proof -
  have "le16 0 = [0, 0]" by (simp add: le16_def)
  then show ?thesis using sum_valid_stamped [of "ip_hdr_bytes ip" 10] by (simp add: stamp_ip_def ip_hdr_fields)
qed

lemma stamp_t11_valid:
  assumes "length (icmp11_data icmp) = 28"
  shows "sum_valid (t11_hdr_bytes (stamp_t11 icmp)) 2"
proof -
  have f: "t11_hdr_bytes (icmp\<lparr>icmp11_sum := s\<rparr>) = patch (t11_hdr_bytes icmp) 2 (le16 s)" for s
    by (simp add: t11_hdr_bytes_def patch_def le16_def)
  have "le16 0 = [0, 0]" by (simp add: le16_def)
  then show ?thesis
    using sum_valid_stamped [of "t11_hdr_bytes icmp" 2] assms by (simp add: stamp_t11_def f length_t11_hdr_bytes)
qed

lemma ip_valid_image:
  assumes "length l2 = 14" "ip_hl h = 5" "20 \<le> unat (ntohs (ip_len h))"
  shows "ip_valid (l2 @ ip_hdr_bytes (stamp_ip h) @ rest)" "frame_ip (l2 @ ip_hdr_bytes (stamp_ip h) @ rest) = stamp_ip h"
proof -
  show ip: "frame_ip (l2 @ ip_hdr_bytes (stamp_ip h) @ rest) = stamp_ip h"
    using assms(1) by (simp add: frame_ip_def iph.of_to)
  have "ip_hl (stamp_ip h) = 5" using assms(2) by (simp add: stamp_ip_def)
  then have "header_len (l2 @ ip_hdr_bytes (stamp_ip h) @ rest) = 20" by (simp add: header_len_def ip)
  then show "ip_valid (l2 @ ip_hdr_bytes (stamp_ip h) @ rest)"
    using assms(1,3) stamp_ip_valid [of h] by (simp add: ip_valid_def header_region_def ip) (simp add: stamp_ip_def)
qed

lemma error_image_spec:
  fixes type code src dst data
  assumes "length data = 28"
  defines "e \<equiv> error_image type code src dst data"
  shows "length e = 70" "ip_valid e" "frame_ip e = stamp_ip (error_ip_hdr src dst)"
    "drop 34 e = t11_hdr_bytes (stamp_t11 \<lparr>icmp11_type = type, icmp11_code = code, icmp11_sum = 0, icmp11_unused = 0,
       icmp11_data = data\<rparr>)"
    "sum_valid (drop 34 e) 2"
proof -
  have "unat (ntohs (ip_len (error_ip_hdr src dst))) = 56" "ip_hl (error_ip_hdr src dst) = 5"
    by (simp_all add: error_ip_hdr_def)
  then show "ip_valid e" "frame_ip e = stamp_ip (error_ip_hdr src dst)"
    using ip_valid_image [of "replicate 14 0" "error_ip_hdr src dst"] by (simp_all add: e_def error_image_def)
  show "length e = 70" using assms by (simp add: length_error_image)
  show d: "drop 34 e = t11_hdr_bytes (stamp_t11 \<lparr>icmp11_type = type, icmp11_code = code, icmp11_sum = 0, icmp11_unused = 0,
       icmp11_data = data\<rparr>)"
    by (simp add: e_def error_image_def)
  show "sum_valid (drop 34 e) 2" unfolding d using assms(1) by (intro stamp_t11_valid) simp
qed

end
