(* ===== verification/SR_Retry.thy ===== *)
theory SR_Retry
  imports SR_Router_Inv
begin

text \<open>
  The retry handler \<^verbatim>\<open>handle_arpreq\<close> and the sweeper: when the nested calls return, what a give-up
  does, and when they do not return.  A request is expired when it has been sent five times and its
  last transmission is at least a second old.  Giving up on a request sends ICMP errors towards the
  senders of its frames; such an error is queued for the next hop of the sender, and if that next
  hop is expired as well, the handler recurses.  The recursion ends when the expired requests can
  be ranked so that errors only go to lower ranks.
\<close>

section \<open>Expired requests and the way of an error\<close>

definition expired :: "int \<Rightarrow> sr_arpreq \<Rightarrow> bool" where
  "expired now r \<longleftrightarrow> 1 \<le> now - req_sent r \<and> 5 \<le> req_times_sent r"

definition mem_ok :: "sr_env \<Rightarrow> bool" where
  "mem_ok env \<longleftrightarrow> (\<forall>n. env_malloc env n)"

text \<open>
  The next hop for which the host-unreachable error about a frame is queued: none if there is no
  route back or the interface of the route back has no address.
\<close>

definition error_hop :: "sr_instance \<Rightarrow> bytes \<Rightarrow> u32 option" where
  "error_hop sr frame =
     (case route_for sr (ip_src (frame_ip frame)) of None \<Rightarrow> None
      | Some (hop, i) \<Rightarrow> if if_ip i = 0 then None else Some hop)"

text \<open>The addresses of the router's own interfaces are not destinations of the routing table.\<close>

definition own_unrouted :: "sr_instance \<Rightarrow> bool" where
  "own_unrouted sr \<longleftrightarrow> list_all (\<lambda>i. rt_exact_match sr (if_ip i) = None) (if_list sr)"

definition ranked :: "int \<Rightarrow> (u32 \<Rightarrow> nat) \<Rightarrow> sr_instance \<Rightarrow> bool" where
  "ranked now rank sr \<longleftrightarrow>
     (\<forall>(a, r)\<in>set (requests (cache sr)). expired now r \<longrightarrow>
        (\<forall>p\<in>set (req_packets r). \<forall>(b, q)\<in>set (requests (cache sr)).
           expired now q \<and> error_hop sr (pkt_buf p) = Some (req_ip q) \<longrightarrow> rank (req_ip q) < rank (req_ip r)))"

lemma route_for_config: "same_config s t \<Longrightarrow> route_for t = route_for s"
proof -
  assume "same_config s t"
  then have "sr_get_interface t = sr_get_interface s" "rt_exact_match t = rt_exact_match s"
    using sr_get_interface_cong [of t s] rt_exact_match_cong [of t s] by (simp_all add: same_config_def)
  then show ?thesis by (intro ext) (simp add: route_for_def cong: option.case_cong)
qed

lemma error_hop_config: "same_config s t \<Longrightarrow> error_hop t = error_hop s"
  using route_for_config [of s t] by (simp add: fun_eq_iff error_hop_def)

lemma own_unrouted_config: "same_config s t \<Longrightarrow> own_unrouted t = own_unrouted s"
  using rt_exact_match_cong [of t s] by (simp add: own_unrouted_def same_config_def)

lemma frame_ip_error_image:
  "length data = 28 \<Longrightarrow> frame_ip (error_image type code src dst data) = stamp_ip (error_ip_hdr src dst)"
  by (simp add: frame_ip_def error_image_def iph.of_to)

lemma frame_ip_rewrite_l2:
  "34 \<le> length frame \<Longrightarrow> length mac = 6 \<Longrightarrow> frame_ip (rewrite_l2 mac frame) = frame_ip frame"
  by (simp add: frame_ip_def rewrite_l2_def)

lemma error_hop_own:
  assumes "own_unrouted sr" "i \<in> set (if_list sr)" "ip_src (frame_ip frame) = if_ip i"
  shows "error_hop sr frame = None"
  using assms by (simp add: error_hop_def route_for_def own_unrouted_def list_all_iff)

section \<open>Progress of the queue\<close>

text \<open>
  \<open>progress now rank K H c c'\<close>: between \<open>c\<close> and \<open>c'\<close> only expired requests of rank below \<open>K\<close> have
  been freed, new requests are linked before the old ones and not expired, requests that remain
  keep their address and, if expired, their state, and gain only frames of \<open>H\<close>.
\<close>

definition may_free :: "int \<Rightarrow> (u32 \<Rightarrow> nat) \<Rightarrow> nat \<Rightarrow> sr_arpcache \<Rightarrow> addr \<Rightarrow> bool" where
  "may_free now rank K c k \<longleftrightarrow> (\<exists>r. map_of (requests c) k = Some r \<and> expired now r \<and> rank (req_ip r) < K)"

definition links_progress :: "int \<Rightarrow> (u32 \<Rightarrow> nat) \<Rightarrow> nat \<Rightarrow> sr_arpcache \<Rightarrow> sr_arpcache \<Rightarrow> bool" where
  "links_progress now rank K c c' \<longleftrightarrow> next_addr c \<le> next_addr c' \<and>
     (\<exists>new D. map fst (requests c') = new @ filter (\<lambda>k. k \<notin> D) (map fst (requests c)) \<and>
        (\<forall>k\<in>set new. next_addr c \<le> k) \<and> (\<forall>k\<in>D. may_free now rank K c k))"

definition state_progress :: "int \<Rightarrow> sr_packet set \<Rightarrow> sr_arpcache \<Rightarrow> sr_arpcache \<Rightarrow> bool" where
  "state_progress now H c c' \<longleftrightarrow>
     (\<forall>k r r'. map_of (requests c) k = Some r \<longrightarrow> map_of (requests c') k = Some r' \<longrightarrow>
        req_ip r' = req_ip r \<and> (expired now r \<longrightarrow> expired now r')) \<and>
     (\<forall>k r'. map_of (requests c') k = Some r' \<longrightarrow> expired now r' \<longrightarrow>
        (\<exists>r. map_of (requests c) k = Some r \<and> expired now r \<and>
             set (req_packets r') \<subseteq> set (req_packets r) \<union> H))"

definition progress ::
    "int \<Rightarrow> (u32 \<Rightarrow> nat) \<Rightarrow> nat \<Rightarrow> sr_packet set \<Rightarrow> sr_arpcache \<Rightarrow> sr_arpcache \<Rightarrow> bool" where
  "progress now rank K H c c' \<longleftrightarrow> links_progress now rank K c c' \<and> state_progress now H c c'"

lemma links_progressI:
  "next_addr c \<le> next_addr c' \<Longrightarrow>
   map fst (requests c') = new @ filter (\<lambda>k. k \<notin> D) (map fst (requests c)) \<Longrightarrow>
   (\<And>k. k \<in> set new \<Longrightarrow> next_addr c \<le> k) \<Longrightarrow> (\<And>k. k \<in> D \<Longrightarrow> may_free now rank K c k) \<Longrightarrow>
   links_progress now rank K c c'"
  unfolding links_progress_def by blast

lemma links_progressE:
  assumes "links_progress now rank K c c'"
  obtains new D where "next_addr c \<le> next_addr c'"
    "map fst (requests c') = new @ filter (\<lambda>k. k \<notin> D) (map fst (requests c))"
    "\<And>k. k \<in> set new \<Longrightarrow> next_addr c \<le> k" "\<And>k. k \<in> D \<Longrightarrow> may_free now rank K c k"
  using assms unfolding links_progress_def by blast

lemma state_progressD:
  assumes "state_progress now H c c'"
  shows "map_of (requests c) k = Some r \<Longrightarrow> map_of (requests c') k = Some r' \<Longrightarrow>
      req_ip r' = req_ip r \<and> (expired now r \<longrightarrow> expired now r')"
    and "map_of (requests c') k = Some r' \<Longrightarrow> expired now r' \<Longrightarrow>
      \<exists>r. map_of (requests c) k = Some r \<and> expired now r \<and> set (req_packets r') \<subseteq> set (req_packets r) \<union> H"
  using assms unfolding state_progress_def by blast+

lemma links_progress_refl: "links_progress now rank K c c"
  by (rule links_progressI [of _ _ "[]" "{}"]) auto

lemma state_progress_refl: "state_progress now H c c"
  by (auto simp: state_progress_def)

lemma progress_refl [simp]: "progress now rank K H c c"
  by (simp add: progress_def links_progress_refl state_progress_refl)

lemma may_free_mono: "may_free now rank K c k \<Longrightarrow> K \<le> K' \<Longrightarrow> may_free now rank K' c k"
  unfolding may_free_def using less_le_trans by blast

lemma progress_mono: "progress now rank K H c c' \<Longrightarrow> K \<le> K' \<Longrightarrow> progress now rank K' H c c'"
  unfolding progress_def by (auto elim!: links_progressE intro!: links_progressI intro: may_free_mono)

lemma map_of_keys: "k \<in> set (map fst xs) \<longleftrightarrow> (\<exists>v. map_of xs k = Some v)"
  by (induction xs) auto

lemma wf_key_less: "arpcache_wf c \<Longrightarrow> map_of (requests c) k = Some r \<Longrightarrow> k < next_addr c"
  by (auto simp: arpcache_wf_def dest: map_of_SomeD)

lemma progress_survivor:
  assumes "progress now rank K H c c'" "map_of (requests c) k = Some r" "\<not> (expired now r \<and> rank (req_ip r) < K)"
  obtains r' where "map_of (requests c') k = Some r'" "req_ip r' = req_ip r" "expired now r \<Longrightarrow> expired now r'"
proof -
  from assms(1) have links: "links_progress now rank K c c'" and st: "state_progress now H c c'"
    by (simp_all add: progress_def)
  from links obtain new D where k: "map fst (requests c') = new @ filter (\<lambda>k. k \<notin> D) (map fst (requests c))"
    and D: "\<And>k. k \<in> D \<Longrightarrow> may_free now rank K c k" by (rule links_progressE) blast
  have "k \<notin> D" using D [of k] assms(2,3) by (auto simp: may_free_def)
  moreover have "k \<in> set (map fst (requests c))" using assms(2) unfolding map_of_keys by blast
  ultimately have "k \<in> set (map fst (requests c'))" unfolding k by simp
  then obtain r' where r': "map_of (requests c') k = Some r'" unfolding map_of_keys by blast
  with state_progressD(1) [OF st assms(2)] that show thesis by blast
qed

lemma links_progress_trans:
  assumes 1: "links_progress now rank K c c'" and 2: "links_progress now rank K c' c''"
    and st: "state_progress now H c c'"
  shows "links_progress now rank K c c''"
proof -
  from 1 obtain n1 D1 where k1: "next_addr c \<le> next_addr c'"
    "map fst (requests c') = n1 @ filter (\<lambda>k. k \<notin> D1) (map fst (requests c))"
    "\<And>k. k \<in> set n1 \<Longrightarrow> next_addr c \<le> k" "\<And>k. k \<in> D1 \<Longrightarrow> may_free now rank K c k"
    by (rule links_progressE) blast
  from 2 obtain n2 D2 where k2: "next_addr c' \<le> next_addr c''"
    "map fst (requests c'') = n2 @ filter (\<lambda>k. k \<notin> D2) (map fst (requests c'))"
    "\<And>k. k \<in> set n2 \<Longrightarrow> next_addr c' \<le> k" "\<And>k. k \<in> D2 \<Longrightarrow> may_free now rank K c' k"
    by (rule links_progressE) blast
  show ?thesis
  proof (rule links_progressI)
    show "next_addr c \<le> next_addr c''" using k1(1) k2(1) by simp
    show "map fst (requests c'') =
        (n2 @ filter (\<lambda>k. k \<notin> D2) n1) @ filter (\<lambda>k. k \<notin> D1 \<union> D2) (map fst (requests c))"
      unfolding k2(2) k1(2) by (simp add: conj_commute)
    show "next_addr c \<le> k" if "k \<in> set (n2 @ filter (\<lambda>k. k \<notin> D2) n1)" for k
      using that k1(1,3) k2(3) by fastforce
    show "may_free now rank K c k" if "k \<in> D1 \<union> D2" for k
    proof (cases "k \<in> D1")
      case False
      with that k2(4) obtain r' where r': "map_of (requests c') k = Some r'" "expired now r'" "rank (req_ip r') < K"
        by (auto simp: may_free_def)
      then obtain r where r: "map_of (requests c) k = Some r" "expired now r"
        using state_progressD(2) [OF st r'(1,2)] by blast
      with r' state_progressD(1) [OF st r(1) r'(1)] show ?thesis by (simp add: may_free_def)
    qed (rule k1(4))
  qed
qed

lemma progress_trans:
  assumes "progress now rank K H c c'" "progress now rank K H c' c''" "arpcache_wf c"
  shows "progress now rank K H c c''"
proof -
  from assms have l1: "links_progress now rank K c c'" and s1: "state_progress now H c c'"
    and l2: "links_progress now rank K c' c''" and s2: "state_progress now H c' c''"
    by (simp_all add: progress_def)
  have mid: "\<exists>r'. map_of (requests c') k = Some r'"
    if "map_of (requests c) k = Some r" "map_of (requests c'') k = Some r''" for k r r''
  proof -
    from l2 obtain n2 D2 where k2: "map fst (requests c'') = n2 @ filter (\<lambda>k. k \<notin> D2) (map fst (requests c'))"
      "\<And>k. k \<in> set n2 \<Longrightarrow> next_addr c' \<le> k" by (rule links_progressE) blast
    have "next_addr c \<le> next_addr c'" using l1 by (simp add: links_progress_def)
    then have "k \<notin> set n2" using wf_key_less [OF assms(3) that(1)] k2(2) [of k] by auto
    moreover have "k \<in> set (map fst (requests c''))" using that(2) unfolding map_of_keys by blast
    ultimately have "k \<in> set (map fst (requests c'))" unfolding k2(1) by auto
    then show ?thesis unfolding map_of_keys .
  qed
  have "state_progress now H c c''"
    unfolding state_progress_def
  proof (intro conjI allI impI)
    fix k r r''
    assume a: "map_of (requests c) k = Some r" "map_of (requests c'') k = Some r''"
    then obtain r' where r': "map_of (requests c') k = Some r'" using mid by blast
    show "req_ip r'' = req_ip r" "expired now r \<Longrightarrow> expired now r''"
      using state_progressD(1) [OF s1 a(1) r'] state_progressD(1) [OF s2 r' a(2)] by auto
  next
    fix k r''
    assume "map_of (requests c'') k = Some r''" "expired now r''"
    from state_progressD(2) [OF s2 this] obtain r' where r': "map_of (requests c') k = Some r'" "expired now r'"
      "set (req_packets r'') \<subseteq> set (req_packets r') \<union> H" by blast
    from state_progressD(2) [OF s1 r'(1,2)] obtain r where "map_of (requests c) k = Some r" "expired now r"
      "set (req_packets r') \<subseteq> set (req_packets r) \<union> H" by blast
    with r'(3) have "map_of (requests c) k = Some r \<and> expired now r \<and> set (req_packets r'') \<subseteq> set (req_packets r) \<union> H"
      by auto
    then show "\<exists>r. map_of (requests c) k = Some r \<and> expired now r \<and> set (req_packets r'') \<subseteq> set (req_packets r) \<union> H" ..
  qed
  then show ?thesis using links_progress_trans [OF l1 l2 s1] by (simp add: progress_def)
qed

section \<open>The queue operations make progress\<close>

lemma wf_distinct: "arpcache_wf c \<Longrightarrow> distinct (map fst (requests c))"
  by (simp add: arpcache_wf_def)

lemma update_progress:
  assumes "arpcache_wf c" "\<And>r. req_ip (f r) = req_ip r"
    and "\<And>r. map_of (requests c) a = Some r \<Longrightarrow> expired now (f r) = expired now r"
    and "\<And>r. set (req_packets (f r)) \<subseteq> set (req_packets r) \<union> H"
  shows "progress now rank K H c (c\<lparr>requests := update_req (requests c) a f\<rparr>)"
proof -
  note d = wf_distinct [OF assms(1)]
  have "links_progress now rank K c (c\<lparr>requests := update_req (requests c) a f\<rparr>)"
    by (rule links_progressI [of _ _ "[]" "{}"]) auto
  moreover have "state_progress now H c (c\<lparr>requests := update_req (requests c) a f\<rparr>)"
    using assms(2-4) by (auto simp: state_progress_def map_of_update_req [OF d] split: if_splits)
  ultimately show ?thesis by (simp add: progress_def)
qed

lemma queuereq_progress:
  assumes "sr_arpcache_queuereq env c ip packet iface = Inr (a, c')" "arpcache_wf c" "packet \<noteq> []"
    and "queued_packet packet iface \<in> H"
  shows "progress now rank K H c c' \<and> (\<exists>r'. map_of (requests c') a = Some r' \<and> req_ip r' = ip)"
  using assms(1,3)
proof (rule queuereq_cases)
  fix r
  assume r: "find_req (requests c) ip = Some (a, r)"
    and c': "c' = c\<lparr>requests := update_req (requests c) a (push_packet (queued_packet packet iface))\<rparr>"
  have "progress now rank K H c c'"
    unfolding c' using assms(2,4) by (intro update_progress) (auto simp: expired_def)
  moreover have "map_of (requests c) a = Some r" "req_ip r = ip"
    using find_req_Some [OF r] wf_distinct [OF assms(2)] by auto
  then have "map_of (requests c') a = Some (push_packet (queued_packet packet iface) r)"
    by (simp add: c' map_of_update_req [OF wf_distinct [OF assms(2)]])
  ultimately show ?thesis using \<open>req_ip r = ip\<close> by simp
next
  let ?n = "\<lparr>req_ip = ip, req_sent = 0, req_times_sent = 0, req_packets = [queued_packet packet iface]\<rparr>"
  assume a: "a = next_addr c" and c': "c' = c\<lparr>requests := (a, ?n) # requests c, next_addr := Suc a\<rparr>"
  have "links_progress now rank K c c'"
    unfolding c' by (rule links_progressI [of _ _ "[a]" "{}"]) (auto simp: a)
  moreover have "state_progress now H c c'"
    using wf_key_less [OF assms(2)] a c' by (fastforce simp: state_progress_def expired_def split: if_splits)
  ultimately show ?thesis by (simp add: progress_def c')
qed

lemma touch_progress:
  assumes "arpcache_wf c" "map_of (requests c) a = Some r" "\<not> expired now r"
  shows "progress now rank K H c (c\<lparr>requests := update_req (requests c) a
    (\<lambda>r. r\<lparr>req_sent := now, req_times_sent := req_times_sent r + 1\<rparr>)\<rparr>)"
  using assms by (intro update_progress) (auto simp: expired_def)

lemma destroy_progress:
  assumes "arpcache_wf c" "map_of (requests c) a = Some r" "expired now r" "rank (req_ip r) < K"
  shows "progress now rank K H c (sr_arpreq_destroy c a)"
proof -
  note d = wf_distinct [OF assms(1)]
  have "links_progress now rank K c (sr_arpreq_destroy c a)"
    by (rule links_progressI [of _ _ "[]" "{a}"])
      (use assms(2-4) in \<open>auto simp: sr_arpreq_destroy_def unlink_req_filter [OF d] filter_map comp_def
        case_prod_unfold may_free_def\<close>)
  moreover have "state_progress now H c (sr_arpreq_destroy c a)"
    by (auto simp: state_progress_def sr_arpreq_destroy_def map_of_unlink [OF d] split: if_splits)
  ultimately show ?thesis by (simp add: progress_def)
qed

section \<open>Steps that always return when memory suffices\<close>

lemma sr_send_packet_total:
  assumes "mem_ok env"
  obtains rc sr' where "sr_send_packet env sr buf iface = Inr (rc, sr')" "cache sr' = cache sr"
proof (cases "sr_send_packet env sr buf iface")
  case (Inl f)
  moreover have "sizeof_eth \<le> length buf \<Longrightarrow> \<exists>x. sr_send_packet env sr buf iface = Inr x"
    using assms by (auto simp: sr_send_packet_eq mem_ok_def split: option.splits)
  ultimately have False by (cases "sizeof_eth \<le> length buf") (auto simp: sr_send_packet_def Let_def)
  then show thesis ..
next
  case (Inr x)
  with that show thesis by (cases x) (auto dest: sr_send_packet_frame)
qed

lemma send_arp_request_total:
  assumes "mem_ok env" "sr_wf m sr"
  obtains sr' where "send_arp_request env sr ip name = Inr sr'" "cache sr' = cache sr"
proof (cases "sr_get_interface sr name")
  case None
  with that show thesis by (simp add: send_arp_request_def)
next
  case (Some i)
  let ?arp = "\<lparr>ar_hrd = htons arp_hrd_ethernet, ar_pro = htons ethertype_ip, ar_hln = 6, ar_pln = 4,
             ar_op = htons arp_op_request, ar_sha = if_addr i, ar_sip = if_ip i,
             ar_tha = replicate 6 0, ar_tip = ip\<rparr>"
  have "arp_hdr_wf ?arp" using sr_wf_get_interface [OF assms(2) Some] by (simp add: arp_hdr_wf_def)
  then obtain buf where buf: "arp_frame (replicate 6 0xff) ?arp = Inr buf" by (simp add: arp_frame_eq)
  obtain rc sr' where "sr_send_packet env sr buf (if_name i) = Inr (rc, sr')" "cache sr' = cache sr"
    using sr_send_packet_total [OF assms(1)] .
  with that show thesis
    using assms(1) Some buf by (simp add: send_arp_request_def mem_ok_def)
qed

lemma queuereq_total:
  assumes "mem_ok env"
  obtains a c' where "sr_arpcache_queuereq env c ip packet iface = Inr (a, c')"
proof (cases "sr_arpcache_queuereq env c ip packet iface")
  case (Inl f)
  with assms have False
    by (auto simp: sr_arpcache_queuereq_def add_req_def Let_def mem_ok_def
        split: if_splits option.splits sum.splits prod.splits)
  then show thesis ..
next
  case (Inr x)
  with that show thesis by (cases x) auto
qed

lemma icmp_error_source_hop:
  "error_hop sr orig = None \<Longrightarrow> icmp_error_source sr (frame_ip orig) 0 = 0"
  "error_hop sr orig = Some hop \<Longrightarrow> \<exists>i. route_for sr (ip_src (frame_ip orig)) = Some (hop, i) \<and> if_ip i \<noteq> 0 \<and>
     icmp_error_source sr (frame_ip orig) 0 = if_ip i"
  by (auto simp: error_hop_def route_for_def icmp_error_source_def split: option.splits if_splits)

lemma route_for_iface: "route_for sr dst = Some (hop, i) \<Longrightarrow> i \<in> set (if_list sr)"
  by (auto simp: route_for_def split: option.splits dest: sr_get_interface_Some)

text \<open>An error towards a sender without a route back vanishes; otherwise it is queued for its next hop.\<close>

lemma unreachable_none:
  "34 \<le> length orig \<Longrightarrow> error_hop sr orig = None \<Longrightarrow> send_icmp_error_with handle env sr type code orig 0 = Inr sr"
  by (simp add: send_icmp_error_with_def get_ip_frame icmp_error_source_hop)

definition unreachable_frame :: "u8 \<Rightarrow> u8 \<Rightarrow> sr_if \<Rightarrow> bytes \<Rightarrow> bytes" where
  "unreachable_frame type code i orig =
     rewrite_l2 (if_addr i) (error_image type code (if_ip i) (ip_src (frame_ip orig)) (take 28 (drop 14 orig)))"

lemma unreachable_exact:
  assumes "mem_ok env" "sr_wf 42 sr" "42 \<le> length orig" "own_unrouted sr" "error_hop sr orig = Some hop"
  obtains i a c where
    "send_icmp_error_with handle env sr type code orig 0 = handle (sr\<lparr>cache := c\<rparr>) a"
    "sr_arpcache_queuereq env (cache sr) hop (unreachable_frame type code i orig) (if_name i) = Inr (a, c)"
    "length (unreachable_frame type code i orig) = 70" "error_hop sr (unreachable_frame type code i orig) = None"
    "route_for sr (ip_src (frame_ip orig)) = Some (hop, i)" "if_ip i \<noteq> 0"
proof -
  obtain i where i: "route_for sr (ip_src (frame_ip orig)) = Some (hop, i)" "if_ip i \<noteq> 0"
    "icmp_error_source sr (frame_ip orig) 0 = if_ip i"
    using icmp_error_source_hop(2) [OF assms(5)] by blast
  let ?img = "error_image type code (if_ip i) (ip_src (frame_ip orig)) (take 28 (drop 14 orig))"
  let ?f = "unreachable_frame type code i orig"
  have mac: "length (if_addr i) = 6" using route_for_iface [OF i(1)] sr_wf_if [OF assms(2)] by blast
  have img: "length ?img = 70" using assms(3) by (simp add: length_error_image)
  have f: "length ?f = 70" using img mac by (simp add: unreachable_frame_def length_rewrite_l2)
  have ip: "frame_ip ?img = stamp_ip (error_ip_hdr (if_ip i) (ip_src (frame_ip orig)))"
    using assms(3) by (simp add: frame_ip_error_image)
  have "ip_src (frame_ip ?f) = if_ip i"
    using img mac by (simp add: unreachable_frame_def frame_ip_rewrite_l2 ip stamp_ip_def error_ip_hdr_def)
  then have "error_hop sr ?f = None" using error_hop_own [OF assms(4) route_for_iface [OF i(1)]] by simp
  moreover obtain a c where q: "sr_arpcache_queuereq env (cache sr) hop ?f (if_name i) = Inr (a, c)"
    using queuereq_total [OF assms(1)] .
  moreover have "send_icmp_error_with handle env sr type code orig 0 = handle (sr\<lparr>cache := c\<rparr>) a"
  proof -
    have "route_and_send_with handle env sr ?img =
        (case handle (sr\<lparr>cache := c\<rparr>) a of Inl f \<Rightarrow> Inl f | Inr sr' \<Rightarrow> Inr (0, sr'))"
      using img assms(2) i(1) q
      by (simp add: route_and_send_eq sr_wf_def ip stamp_ip_def error_ip_hdr_def unreachable_frame_def)
    then show ?thesis
      using assms(1,3) i by (simp add: send_icmp_error_with_def get_ip_frame icmp_error_frame_eq mem_ok_def layout
          split: sum.splits)
  qed
  ultimately show thesis using that f i by blast
qed

lemma unreachable_queues:
  assumes "mem_ok env" "sr_wf 42 sr" "42 \<le> length orig" "own_unrouted sr" "error_hop sr orig = Some hop"
  obtains f name a c where
    "send_icmp_error_with handle env sr type code orig 0 = handle (sr\<lparr>cache := c\<rparr>) a"
    "sr_arpcache_queuereq env (cache sr) hop f name = Inr (a, c)" "42 \<le> length f" "error_hop sr f = None"
  by (rule unreachable_exact [OF assms, of handle type code]) (use that in auto)

lemma unreachable_some:
  assumes "mem_ok env" "sr_wf 42 sr" "42 \<le> length orig" "own_unrouted sr" "error_hop sr orig = Some hop"
  obtains a c where
    "send_icmp_error_with handle env sr type code orig 0 = handle (sr\<lparr>cache := c\<rparr>) a"
    "progress now rank K {p. error_hop sr (pkt_buf p) = None} (cache sr) c" "sr_wf 42 (sr\<lparr>cache := c\<rparr>)"
    "\<exists>r. map_of (requests c) a = Some r \<and> req_ip r = hop"
proof -
  obtain f name a c where send: "send_icmp_error_with handle env sr type code orig 0 = handle (sr\<lparr>cache := c\<rparr>) a"
    and q: "sr_arpcache_queuereq env (cache sr) hop f name = Inr (a, c)"
    and f: "42 \<le> length f" "error_hop sr f = None"
    by (rule unreachable_queues [OF assms])
  have ne: "f \<noteq> []" using f(1) by auto
  have "progress now rank K {p. error_hop sr (pkt_buf p) = None} (cache sr) c"
    "\<exists>r. map_of (requests c) a = Some r \<and> req_ip r = hop"
    using queuereq_progress [OF q _ ne, of "{p. error_hop sr (pkt_buf p) = None}"] f(2) assms(2)
    by (auto simp: sr_wf_def)
  moreover have "sr_wf 42 (sr\<lparr>cache := c\<rparr>)"
    using queuereq_wf [OF q] queued_ge_queuereq [OF q, of 42] ne assms(2) f(1) by (auto simp: sr_wf_def)
  ultimately show thesis using that send by blast
qed

section \<open>Termination of the nested calls\<close>

abbreviation silent :: "sr_instance \<Rightarrow> sr_packet set" where
  "silent sr \<equiv> {p. error_hop sr (pkt_buf p) = None}"

lemma wf_map_of: "arpcache_wf c \<Longrightarrow> (a, r) \<in> set (requests c) \<longleftrightarrow> map_of (requests c) a = Some r"
  by (meson map_of_SomeD map_of_is_SomeI wf_distinct)

lemma rankedD:
  assumes "ranked now rank sr" "arpcache_wf (cache sr)"
    and "map_of (requests (cache sr)) a = Some r" "expired now r" "p \<in> set (req_packets r)"
    and "map_of (requests (cache sr)) b = Some q" "expired now q" "error_hop sr (pkt_buf p) = Some (req_ip q)"
  shows "rank (req_ip q) < rank (req_ip r)"
proof -
  have "\<forall>(b, q)\<in>set (requests (cache sr)).
      expired now q \<and> error_hop sr (pkt_buf p) = Some (req_ip q) \<longrightarrow> rank (req_ip q) < rank (req_ip r)"
    using assms(1,4,5) map_of_SomeD [OF assms(3)] unfolding ranked_def by fastforce
  from bspec [OF this map_of_SomeD [OF assms(6)]] show ?thesis using assms(7,8) by simp
qed

lemma ranked_progress:
  assumes "ranked now rank sr" "sr_wf m sr" "sr_wf m sr'" "same_config sr sr'"
    and "progress now rank K (silent sr) (cache sr) (cache sr')"
  shows "ranked now rank sr'"
proof -
  have wf: "arpcache_wf (cache sr)" and wf': "arpcache_wf (cache sr')" using assms(2,3) by (simp_all add: sr_wf_def)
  have st: "state_progress now (silent sr) (cache sr) (cache sr')" using assms(5) by (simp add: progress_def)
  have "rank (req_ip q') < rank (req_ip r')"
    if r': "map_of (requests (cache sr')) a = Some r'" "expired now r'" "p \<in> set (req_packets r')"
      and q': "map_of (requests (cache sr')) b = Some q'" "expired now q'" "error_hop sr (pkt_buf p) = Some (req_ip q')"
    for a r' p b q'
  proof -
    from state_progressD(2) [OF st r'(1,2)] obtain r where r: "map_of (requests (cache sr)) a = Some r" "expired now r"
      "set (req_packets r') \<subseteq> set (req_packets r) \<union> silent sr" by blast
    from state_progressD(2) [OF st q'(1,2)] obtain q where q: "map_of (requests (cache sr)) b = Some q" "expired now q"
      by blast
    have ips: "req_ip r' = req_ip r" "req_ip q' = req_ip q"
      using state_progressD(1) [OF st r(1) r'(1)] state_progressD(1) [OF st q(1) q'(1)] by simp_all
    have "p \<in> set (req_packets r)" using r(3) r'(3) q'(3) by auto
    then have "rank (req_ip q) < rank (req_ip r)" using rankedD [OF assms(1) wf r(1,2) _ q] q'(3) ips by simp
    then show ?thesis using ips by simp
  qed
  then show ?thesis
    unfolding ranked_def error_hop_config [OF assms(4)] by (auto simp: wf_map_of [OF wf'])
qed

lemma handle_fresh_returns:
  assumes "mem_ok env" "sr_wf m sr" "map_of (requests (cache sr)) a = Some r" "\<not> expired (env_time env) r"
  obtains sr' where "handle_arpreq env (Suc d) sr a = Inr sr'"
    "progress (env_time env) rank K H (cache sr) (cache sr')"
proof (cases "env_time env - req_sent r < 1")
  case True
  with assms(3) that show thesis by (simp add: handle_arpreq_body_def deref_req_def)
next
  case False
  then have few: "\<not> 5 \<le> req_times_sent r" using assms(4) by (simp add: expired_def)
  have wf: "arpcache_wf (cache sr)" using assms(2) by (simp add: sr_wf_def)
  obtain sr1 where sr1: "(case req_packets r of [] \<Rightarrow> Inr sr
      | pkt # _ \<Rightarrow> send_arp_request env sr (req_ip r) (pkt_iface pkt)) = Inr sr1" "cache sr1 = cache sr"
  proof (cases "req_packets r")
    case (Cons p ps)
    with that show ?thesis
      using send_arp_request_total [OF assms(1,2), of "req_ip r" "pkt_iface p"] by auto
  qed simp
  with that show thesis
    using False few assms(3) touch_progress [OF wf assms(3,4)]
    by (simp add: handle_arpreq_body_def deref_req_def)
qed

text \<open>The request an error about a frame of an expired request joins has a lower rank if it is expired.\<close>

lemma error_target_lower:
  assumes "progress now rank K (silent sr) (cache sr) c" "ranked now rank sr" "arpcache_wf (cache sr)"
    and "map_of (requests (cache sr)) a = Some r" "expired now r" "p \<in> set (req_packets r)"
    and "map_of (requests c) b = Some q" "error_hop sr (pkt_buf p) = Some (req_ip q)" "expired now q"
  shows "rank (req_ip q) < rank (req_ip r)"
proof -
  have st: "state_progress now (silent sr) (cache sr) c" using assms(1) by (simp add: progress_def)
  obtain q0 where q0: "map_of (requests (cache sr)) b = Some q0" "expired now q0"
    using state_progressD(2) [OF st assms(7,9)] by blast
  then have "req_ip q = req_ip q0" using state_progressD(1) [OF st q0(1) assms(7)] by simp
  then show ?thesis using rankedD [OF assms(2,3,4,5,6) q0] assms(8) by simp
qed

text \<open>The give-up loop returns if every nested call on a lower-ranked expired request does.\<close>

lemma nested_error_returns:
  assumes mem: "mem_ok env" and wf: "sr_wf 42 sr" and own: "own_unrouted sr"
    and rk: "ranked (env_time env) rank sr"
    and r: "map_of (requests (cache sr)) a = Some r" "expired (env_time env) r"
    and IH: "\<And>sr1 b q. sr_wf 42 sr1 \<Longrightarrow> own_unrouted sr1 \<Longrightarrow> ranked (env_time env) rank sr1 \<Longrightarrow>
      map_of (requests (cache sr1)) b = Some q \<Longrightarrow> (expired (env_time env) q \<Longrightarrow> rank (req_ip q) < rank (req_ip r)) \<Longrightarrow>
      \<exists>sr2. handle_arpreq env d sr1 b = Inr sr2 \<and>
        progress (env_time env) rank (rank (req_ip r)) (silent sr1) (cache sr1) (cache sr2)"
    and p: "p \<in> set (req_packets r)" "42 \<le> length (pkt_buf p)"
    and wf1: "sr_wf 42 sr1" and cfg: "same_config sr sr1"
    and pr: "progress (env_time env) rank (rank (req_ip r)) (silent sr) (cache sr) (cache sr1)"
  shows "\<exists>sr2. send_icmp_error_with (handle_arpreq env d) env sr1 3 1 (pkt_buf p) 0 = Inr sr2 \<and> sr_wf 42 sr2 \<and> same_config sr sr2 \<and>
    progress (env_time env) rank (rank (req_ip r)) (silent sr) (cache sr) (cache sr2)"
proof (cases "error_hop sr1 (pkt_buf p)")
  case None
  then show ?thesis using p(2) wf1 cfg pr by (simp add: unreachable_none)
next
  case (Some h)
  have hop: "error_hop sr1 = error_hop sr" using error_hop_config [OF cfg] .
  have cwf: "arpcache_wf (cache sr)" using wf by (simp add: sr_wf_def)
  have own1: "own_unrouted sr1" using own own_unrouted_config [OF cfg] by simp
  obtain b c where send: "send_icmp_error_with (handle_arpreq env d) env sr1 3 1 (pkt_buf p) 0 =
      handle_arpreq env d (sr1\<lparr>cache := c\<rparr>) b"
    and prc: "progress (env_time env) rank (rank (req_ip r)) (silent sr1) (cache sr1) c"
    and wfc: "sr_wf 42 (sr1\<lparr>cache := c\<rparr>)" and b: "\<exists>q. map_of (requests c) b = Some q \<and> req_ip q = h"
    by (rule unreachable_some [OF mem wf1 p(2) own1 Some])
  let ?s = "sr1\<lparr>cache := c\<rparr>"
  have cfgs: "same_config sr ?s" using cfg by (simp add: same_config_def)
  have prs: "progress (env_time env) rank (rank (req_ip r)) (silent sr) (cache sr) (cache ?s)"
    using progress_trans [OF pr, of c] prc hop cwf by simp
  then have rks: "ranked (env_time env) rank ?s" using ranked_progress [OF rk wf wfc cfgs] by blast
  obtain q where q: "map_of (requests (cache ?s)) b = Some q" "req_ip q = h" using b by auto
  have low: "rank (req_ip q) < rank (req_ip r)" if "expired (env_time env) q"
    by (rule error_target_lower [OF prs rk cwf r p(1) q(1) _ that]) (use Some hop q(2) in simp)
  obtain sr2 where h: "handle_arpreq env d ?s b = Inr sr2"
    and pr2: "progress (env_time env) rank (rank (req_ip r)) (silent ?s) (cache ?s) (cache sr2)"
    using IH [OF wfc _ rks q(1) low] own own_unrouted_config [OF cfgs] by blast
  have keep: "sr_wf 42 sr2" "evolves ?s sr2"
    using handle_arpreq_keeps [of 42 ?s env d b] wfc h by (simp_all add: keeps_Inr)
  have "same_config ?s sr2" using keep(2) unfolding evolves_def by blast
  then have "same_config sr sr2" using cfgs same_config_trans by blast
  moreover have "progress (env_time env) rank (rank (req_ip r)) (silent sr) (cache sr) (cache sr2)"
    using progress_trans [OF prs] pr2 error_hop_config [OF cfgs] cwf by simp
  ultimately show ?thesis using send h keep(1) by auto
qed

lemma unreachable_loop_returns:
  assumes mem: "mem_ok env" and wf: "sr_wf 42 sr" and own: "own_unrouted sr"
    and rk: "ranked (env_time env) rank sr"
    and r: "map_of (requests (cache sr)) a = Some r" "expired (env_time env) r"
    and IH: "\<And>sr1 b q. sr_wf 42 sr1 \<Longrightarrow> own_unrouted sr1 \<Longrightarrow> ranked (env_time env) rank sr1 \<Longrightarrow>
      map_of (requests (cache sr1)) b = Some q \<Longrightarrow> (expired (env_time env) q \<Longrightarrow> rank (req_ip q) < rank (req_ip r)) \<Longrightarrow>
      \<exists>sr2. handle_arpreq env d sr1 b = Inr sr2 \<and>
        progress (env_time env) rank (rank (req_ip r)) (silent sr1) (cache sr1) (cache sr2)"
  shows "set pkts \<subseteq> set (req_packets r) \<Longrightarrow> sr_wf 42 sr1 \<Longrightarrow> same_config sr sr1 \<Longrightarrow>
    progress (env_time env) rank (rank (req_ip r)) (silent sr) (cache sr) (cache sr1) \<Longrightarrow>
    \<exists>sr2. unreachable_loop (handle_arpreq env d) env sr1 a pkts = Inr sr2 \<and> sr_wf 42 sr2 \<and> same_config sr sr2 \<and>
      progress (env_time env) rank (rank (req_ip r)) (silent sr) (cache sr) (cache sr2)"
proof (induction pkts arbitrary: sr1)
  case (Cons p pkts)
  obtain r1 where live: "map_of (requests (cache sr1)) a = Some r1"
    by (rule progress_survivor [OF Cons.prems(4) r(1)]) auto
  have p: "p \<in> set (req_packets r)" "set pkts \<subseteq> set (req_packets r)" using Cons.prems(1) by auto
  have len: "42 \<le> length (pkt_buf p)" using deref_ge [OF wf, of a r p] r(1) p(1) by (simp add: deref_req_Inr)
  have "\<exists>sr2. send_icmp_error_with (handle_arpreq env d) env sr1 3 1 (pkt_buf p) 0 = Inr sr2 \<and> sr_wf 42 sr2 \<and> same_config sr sr2 \<and>
      progress (env_time env) rank (rank (req_ip r)) (silent sr) (cache sr) (cache sr2)"
    by (rule nested_error_returns [OF mem wf own rk r _ p(1) len Cons.prems(2-4)]) (fact IH)
  then obtain sr2 where s2: "send_icmp_error_with (handle_arpreq env d) env sr1 3 1 (pkt_buf p) 0 = Inr sr2" "sr_wf 42 sr2"
    "same_config sr sr2" "progress (env_time env) rank (rank (req_ip r)) (silent sr) (cache sr) (cache sr2)" by blast
  then show ?case using Cons.IH [OF p(2) s2(2-4)] live len by (simp add: deref_req_def layout)
qed auto

text \<open>A nesting depth of two more than the rank is enough; a request that is not expired needs one.\<close>

definition depth_for :: "int \<Rightarrow> (u32 \<Rightarrow> nat) \<Rightarrow> sr_arpreq \<Rightarrow> nat" where
  "depth_for now rank r = (if expired now r then rank (req_ip r) + 2 else 1)"

lemma giveup_returns:
  assumes mem: "mem_ok env" and wf: "sr_wf 42 sr" and own: "own_unrouted sr"
    and rk: "ranked (env_time env) rank sr"
    and r: "map_of (requests (cache sr)) a = Some r" "expired (env_time env) r"
    and IH: "\<And>sr1 b q. sr_wf 42 sr1 \<Longrightarrow> own_unrouted sr1 \<Longrightarrow> ranked (env_time env) rank sr1 \<Longrightarrow>
      map_of (requests (cache sr1)) b = Some q \<Longrightarrow> (expired (env_time env) q \<Longrightarrow> rank (req_ip q) < rank (req_ip r)) \<Longrightarrow>
      \<exists>sr2. handle_arpreq env d sr1 b = Inr sr2 \<and>
        progress (env_time env) rank (rank (req_ip r)) (silent sr1) (cache sr1) (cache sr2)"
  obtains sr2 r2 where
    "handle_arpreq env (Suc d) sr a = Inr (sr2\<lparr>cache := sr_arpreq_destroy (cache sr2) a\<rparr>)" "sr_wf 42 sr2"
    "progress (env_time env) rank (rank (req_ip r)) (silent sr) (cache sr) (cache sr2)"
    "map_of (requests (cache sr2)) a = Some r2" "req_ip r2 = req_ip r" "expired (env_time env) r2"
proof -
  let ?now = "env_time env"
  have "\<exists>sr2. unreachable_loop (handle_arpreq env d) env sr a (req_packets r) = Inr sr2 \<and> sr_wf 42 sr2 \<and>
      same_config sr sr2 \<and> progress ?now rank (rank (req_ip r)) (silent sr) (cache sr) (cache sr2)"
    by (rule unreachable_loop_returns [OF mem wf own rk r]) (simp_all add: IH wf same_config_def)
  then obtain sr2 where s2: "unreachable_loop (handle_arpreq env d) env sr a (req_packets r) = Inr sr2"
    "sr_wf 42 sr2" "progress ?now rank (rank (req_ip r)) (silent sr) (cache sr) (cache sr2)" by blast
  obtain r2 where r2: "map_of (requests (cache sr2)) a = Some r2" "req_ip r2 = req_ip r" "expired ?now r2"
    using progress_survivor [OF s2(3) r(1)] r(2) by blast
  have "handle_arpreq env (Suc d) sr a = Inr (sr2\<lparr>cache := sr_arpreq_destroy (cache sr2) a\<rparr>)"
    using r s2(1) r2(1) by (simp add: handle_arpreq_body_def deref_req_def expired_def)
  from that [OF this s2(2,3) r2] show thesis .
qed

lemma handle_arpreq_progress:
  assumes mem: "mem_ok env"
  shows "sr_wf 42 sr \<Longrightarrow> own_unrouted sr \<Longrightarrow> ranked (env_time env) rank sr \<Longrightarrow>
    map_of (requests (cache sr)) a = Some r \<Longrightarrow> depth_for (env_time env) rank r \<le> d \<Longrightarrow>
    (expired (env_time env) r \<Longrightarrow> rank (req_ip r) < K) \<Longrightarrow>
    \<exists>sr'. handle_arpreq env d sr a = Inr sr' \<and> progress (env_time env) rank K (silent sr) (cache sr) (cache sr')"
proof (induction d arbitrary: sr a r K)
  case 0
  then show ?case by (simp add: depth_for_def split: if_splits)
next
  case (Suc d)
  let ?now = "env_time env"
  show ?case
  proof (cases "expired ?now r")
    case False
    show ?thesis by (rule handle_fresh_returns [OF mem Suc.prems(1,4) False]) blast
  next
    case True
    let ?K = "rank (req_ip r)"
    have nested: "\<exists>sr2. handle_arpreq env d sr1 b = Inr sr2 \<and> progress ?now rank ?K (silent sr1) (cache sr1) (cache sr2)"
      if "sr_wf 42 sr1" "own_unrouted sr1" "ranked ?now rank sr1" "map_of (requests (cache sr1)) b = Some q"
        "expired ?now q \<Longrightarrow> rank (req_ip q) < ?K" for sr1 b q
    proof (rule Suc.IH [OF that(1-4)])
      show "depth_for ?now rank q \<le> d"
        using Suc.prems(5) True that(5) by (auto simp: depth_for_def)
    qed (rule that(5))
    obtain sr2 r2 where h: "handle_arpreq env (Suc d) sr a = Inr (sr2\<lparr>cache := sr_arpreq_destroy (cache sr2) a\<rparr>)"
      and s2: "sr_wf 42 sr2" "progress ?now rank ?K (silent sr) (cache sr) (cache sr2)"
      and r2: "map_of (requests (cache sr2)) a = Some r2" "req_ip r2 = req_ip r" "expired ?now r2"
      by (rule giveup_returns [OF mem Suc.prems(1-4) True nested])
    have "progress ?now rank K (silent sr) (cache sr2) (sr_arpreq_destroy (cache sr2) a)"
      using destroy_progress [OF _ r2(1,3)] s2(1) r2(2) Suc.prems(6) [OF True] by (simp add: sr_wf_def)
    moreover have "progress ?now rank K (silent sr) (cache sr) (cache sr2)"
      using progress_mono [OF s2(2)] Suc.prems(6) [OF True] by simp
    moreover have "arpcache_wf (cache sr)" using Suc.prems(1) by (simp add: sr_wf_def)
    ultimately have "progress ?now rank K (silent sr) (cache sr) (sr_arpreq_destroy (cache sr2) a)"
      using progress_trans by blast
    with h show ?thesis by simp
  qed
qed

end
