(* ===== verification/SR_Example.thy ===== *)
theory SR_Example
  imports SR_Retry
begin

text \<open>
  The topology of \<^verbatim>\<open>INSTRUCTIONS\<close> and \<^verbatim>\<open>rtable\<close> as a concrete instance: three interfaces, one host
  behind each.  It serves as the input at which the properties of the handlers are exhibited.
  Addresses are written as the words the code holds them in (network byte order, read little endian).
\<close>

definition eth1_ip :: u32 where "eth1_ip = 0x0102a8c0"
definition eth2_ip :: u32 where "eth2_ip = 0x010340ac"
definition eth3_ip :: u32 where "eth3_ip = 0x0101000a"
definition server1 :: u32 where "server1 = 0x0202a8c0"
definition server2 :: u32 where "server2 = 0x0a0340ac"
definition client :: u32 where "client = 0x6401000a"

lemmas example_addrs = eth1_ip_def eth2_ip_def eth3_ip_def server1_def server2_def client_def

definition if_named :: "string \<Rightarrow> bytes" where
  "if_named s = strncpy (str_bytes s) 32"

definition eth1 :: sr_if where
  "eth1 = \<lparr>if_name = if_named ''eth1'', if_addr = [0xc2, 0xe3, 0x78, 0xbf, 0x71, 1], if_ip = eth1_ip, if_speed = 0\<rparr>"
definition eth2 :: sr_if where
  "eth2 = \<lparr>if_name = if_named ''eth2'', if_addr = [0xc2, 0xe3, 0x78, 0xbf, 0x71, 2], if_ip = eth2_ip, if_speed = 0\<rparr>"
definition eth3 :: sr_if where
  "eth3 = \<lparr>if_name = if_named ''eth3'', if_addr = [0xc2, 0xe3, 0x78, 0xbf, 0x71, 0xf9], if_ip = eth3_ip, if_speed = 0\<rparr>"

definition host_route :: "u32 \<Rightarrow> string \<Rightarrow> sr_rt" where
  "host_route ip s = \<lparr>rt_dest = ip, rt_gw = ip, rt_mask = 0xffffffff, rt_interface = if_named s\<rparr>"

definition example_router :: "(addr \<times> sr_arpreq) list \<Rightarrow> sr_instance" where
  "example_router rs = empty_instance\<lparr>if_list := [eth1, eth2, eth3],
     routing_table := [host_route server1 ''eth1'', host_route server2 ''eth2'', host_route client ''eth3''],
     cache := \<lparr>entries = replicate 100 empty_entry, requests = rs, next_addr = length rs\<rparr>\<rparr>"

definition sample_frame :: "u32 \<Rightarrow> u32 \<Rightarrow> u8 \<Rightarrow> bytes" where
  "sample_frame src dst ttl = replicate 12 0 @ le16 (htons ethertype_ip) @
     ip_hdr_bytes (stamp_ip \<lparr>ip_hl = 5, ip_v = 4, ip_tos = 0, ip_len = htons 28, ip_id = 0, ip_off = 0, ip_ttl = ttl,
       ip_p = 17, ip_sum = 0, ip_src = src, ip_dst = dst\<rparr>) @ replicate 8 0"

definition sample_req :: "u32 \<Rightarrow> int \<Rightarrow> u32 \<Rightarrow> sr_packet list \<Rightarrow> sr_arpreq" where
  "sample_req ip sent tries pkts = \<lparr>req_ip = ip, req_sent = sent, req_times_sent = tries, req_packets = pkts\<rparr>"

section \<open>Facts about the instance\<close>

lemma mem_ok_good_env [simp]: "mem_ok (good_env t)"
  by (simp add: mem_ok_def good_env_def)

lemma env_time_good_env [simp]: "env_time (good_env t) = t"
  by (simp add: good_env_def)

lemma length_sample_frame [simp]: "length (sample_frame src dst ttl) = 42"
  by (simp add: sample_frame_def)

lemma length_if_named [simp]: "length (if_named s) = 32"
  by (simp add: if_named_def)

lemma strncmp_if_named [simp]: "strncmp_eq (if_named s) b 32 = strncmp_eq (str_bytes s) b 32"
    "strncmp_eq b (if_named s) 32 = strncmp_eq b (str_bytes s) 32"
  by (simp_all add: if_named_def)

lemma example_names [simp]:
  "\<not> strncmp_eq (str_bytes ''eth1'') (str_bytes ''eth2'') 32" "\<not> strncmp_eq (str_bytes ''eth1'') (str_bytes ''eth3'') 32"
  "\<not> strncmp_eq (str_bytes ''eth2'') (str_bytes ''eth3'') 32"
  by (simp_all add: strncmp_eq_def str_bytes_def cstr_def)

lemma example_router_simps [simp]:
  "requests (cache (example_router rs)) = rs" "next_addr (cache (example_router rs)) = length rs"
  "sock_out (example_router rs) = []" "if_list (example_router rs) = [eth1, eth2, eth3]"
  by (simp_all add: example_router_def empty_instance_def)

lemma example_interfaces [simp]:
  "sr_get_interface (example_router rs) (if_named ''eth1'') = Some eth1"
  "sr_get_interface (example_router rs) (if_named ''eth2'') = Some eth2"
  "sr_get_interface (example_router rs) (if_named ''eth3'') = Some eth3"
  by (simp_all add: sr_get_interface_def example_router_def eth1_def eth2_def eth3_def layout)

lemma example_match:
  "rt_exact_match (example_router rs) ip =
     (if ip = server1 then Some (host_route server1 ''eth1'') else if ip = server2 then Some (host_route server2 ''eth2'')
      else if ip = client then Some (host_route client ''eth3'') else None)"
  by (auto simp: rt_exact_match_def example_router_def host_route_def)

lemma host_addrs [simp]:
  "server1 \<noteq> server2" "server1 \<noteq> client" "server2 \<noteq> client" "server2 \<noteq> server1" "client \<noteq> server1" "client \<noteq> server2"
  "server1 \<noteq> 0" "server2 \<noteq> 0" "client \<noteq> 0" "eth1_ip \<noteq> 0" "eth2_ip \<noteq> 0" "eth3_ip \<noteq> 0"
  by (simp_all add: example_addrs)

lemma example_route [simp]:
  "route_for (example_router rs) server1 = Some (server1, eth1)"
  "route_for (example_router rs) server2 = Some (server2, eth2)"
  "route_for (example_router rs) client = Some (client, eth3)"
  by (simp_all add: route_for_def example_match host_route_def next_hop_of_def)

lemma example_own_unrouted [simp]: "own_unrouted (example_router rs)"
  by (simp add: own_unrouted_def example_match eth1_def eth2_def eth3_def example_addrs)

lemma example_wf:
  "sr_wf m (example_router rs) \<longleftrightarrow>
     distinct (map fst rs) \<and> distinct (map (req_ip \<circ> snd) rs) \<and>
     (\<forall>(a, r)\<in>set rs. a < length rs \<and> req_wf r \<and> (\<forall>p\<in>set (req_packets r). m \<le> length (pkt_buf p)))"
  by (auto simp: sr_wf_def arpcache_wf_def queued_ge_def example_router_def empty_instance_def SR_ARPCACHE_SZ_def
      if_wf_def eth1_def eth2_def eth3_def)

lemma sample_frame_ip:
  "ip_src (frame_ip (sample_frame src dst ttl)) = src" "ip_dst (frame_ip (sample_frame src dst ttl)) = dst"
  "ip_ttl (frame_ip (sample_frame src dst ttl)) = ttl" "ip_hl (frame_ip (sample_frame src dst ttl)) = 5"
  by (simp_all add: frame_ip_def sample_frame_def iph.of_to stamp_ip_def)

lemma sample_error_hop [simp]:
  "error_hop (example_router rs) (sample_frame server1 dst ttl) = Some server1"
  "error_hop (example_router rs) (sample_frame server2 dst ttl) = Some server2"
  "error_hop (example_router rs) (sample_frame client dst ttl) = Some client"
  by (simp_all add: error_hop_def sample_frame_ip eth1_def eth2_def eth3_def)

end
