(* ===== verification/SR_Sweep.thy ===== *)
theory SR_Sweep
  imports SR_Example
begin

text \<open>
  Consequences of the termination argument for the retry handler and the sweeper: the nesting bound
  of the model does not influence a result once it is large enough, the sweeper visits every request
  and disposes of the expired ones, and the two ways in which the nested calls go wrong, endless
  recursion and a stale pointer.
\<close>

section \<open>The nesting bound\<close>

text \<open>The flat order in which running out of the bound is below every result.\<close>

definition fuel_le :: "fault + 'a \<Rightarrow> fault + 'a \<Rightarrow> bool" where
  "fuel_le x y \<longleftrightarrow> x = Inl OutOfFuel \<or> x = y"

lemma fuel_le_refl [simp, intro]: "fuel_le x x"
  by (simp add: fuel_le_def)

lemma fuel_le_trans: "fuel_le x y \<Longrightarrow> fuel_le y z \<Longrightarrow> fuel_le x z"
  by (auto simp: fuel_le_def)

lemma fuel_le_bind:
  "fuel_le x y \<Longrightarrow> (\<And>v. fuel_le (g v) (g' v)) \<Longrightarrow>
     fuel_le (case x of Inl f \<Rightarrow> Inl f | Inr v \<Rightarrow> g v) (case y of Inl f \<Rightarrow> Inl f | Inr v \<Rightarrow> g' v)"
  by (auto simp: fuel_le_def split: sum.splits)

lemma fuel_le_if: "fuel_le x x' \<Longrightarrow> fuel_le y y' \<Longrightarrow> fuel_le (if b then x else y) (if b then x' else y')"
  by simp

lemma fuel_le_option:
  "fuel_le x x' \<Longrightarrow> (\<And>v. fuel_le (g v) (g' v)) \<Longrightarrow>
     fuel_le (case z of None \<Rightarrow> x | Some v \<Rightarrow> g v) (case z of None \<Rightarrow> x' | Some v \<Rightarrow> g' v)"
  by (cases z) simp_all

lemma fuel_le_prod:
  "(\<And>a b. fuel_le (g a b) (g' a b)) \<Longrightarrow> fuel_le (case z of (a, b) \<Rightarrow> g a b) (case z of (a, b) \<Rightarrow> g' a b)"
  by (cases z) simp

lemmas fuel_le_intros = fuel_le_bind fuel_le_if fuel_le_option fuel_le_prod

lemma route_and_send_fuel:
  "(\<And>sr a. fuel_le (h sr a) (h' sr a)) \<Longrightarrow>
     fuel_le (route_and_send_with h env sr frame) (route_and_send_with h' env sr frame)"
  unfolding route_and_send_with_def Let_def by (intro fuel_le_intros fuel_le_refl) auto

lemma send_icmp_error_fuel:
  "(\<And>sr a. fuel_le (h sr a) (h' sr a)) \<Longrightarrow>
     fuel_le (send_icmp_error_with h env sr type code orig src) (send_icmp_error_with h' env sr type code orig src)"
  unfolding send_icmp_error_with_def Let_def by (intro fuel_le_intros fuel_le_refl route_and_send_fuel) auto

lemma unreachable_loop_fuel:
  assumes "\<And>sr a. fuel_le (h sr a) (h' sr a)"
  shows "fuel_le (unreachable_loop h env sr req pkts) (unreachable_loop h' env sr req pkts)"
proof (induction pkts arbitrary: sr)
  case (Cons p pkts)
  show ?case
    unfolding unreachable_loop.simps
    by (intro fuel_le_intros fuel_le_refl send_icmp_error_fuel assms Cons.IH)
qed simp

lemma handle_body_fuel:
  "(\<And>sr a. fuel_le (h sr a) (h' sr a)) \<Longrightarrow>
     fuel_le (handle_arpreq_body h env sr a) (handle_arpreq_body h' env sr a)"
  unfolding handle_arpreq_body_def by (intro fuel_le_intros fuel_le_refl unreachable_loop_fuel) auto

lemma handle_arpreq_fuel_Suc: "fuel_le (handle_arpreq env d sr a) (handle_arpreq env (Suc d) sr a)"
proof (induction d arbitrary: sr a)
  case 0
  show ?case by (simp add: fuel_le_def)
next
  case (Suc d)
  then show ?case unfolding handle_arpreq.simps by (intro handle_body_fuel) simp
qed

lemma handle_arpreq_fuel: "d \<le> d' \<Longrightarrow> fuel_le (handle_arpreq env d sr a) (handle_arpreq env d' sr a)"
proof (induction d' rule: dec_induct)
  case (step n)
  from fuel_le_trans [OF step.IH handle_arpreq_fuel_Suc] show ?case .
qed (rule fuel_le_refl)

lemma sr_handlepacket_fuel:
  assumes "d \<le> d'"
  shows "fuel_le (sr_handlepacket env d sr packet iface) (sr_handlepacket env d' sr packet iface)"
proof -
  note h = handle_arpreq_fuel [OF assms]
  show ?thesis
    unfolding sr_handlepacket_def handle_ip_packet_def handle_local_ip_def forward_ip_def send_icmp_echo_reply_def
      route_and_send_def send_icmp_error_def Let_def
    by (intro fuel_le_intros fuel_le_refl send_icmp_error_fuel route_and_send_fuel h)
qed

section \<open>The walk of the sweeper\<close>

definition expired_at :: "int \<Rightarrow> sr_arpcache \<Rightarrow> addr \<Rightarrow> bool" where
  "expired_at now c a = (case map_of (requests c) a of None \<Rightarrow> False | Some r \<Rightarrow> expired now r)"

text \<open>No error about a frame of an expired request goes to an expired request.\<close>

abbreviation flat :: "int \<Rightarrow> sr_instance \<Rightarrow> bool" where
  "flat now sr \<equiv> ranked now (\<lambda>_. 0) sr"

lemma filter_not_in: "a \<notin> set xs \<Longrightarrow> filter (\<lambda>k. k \<noteq> a) xs = xs"
  by (induction xs) auto

lemma next_req_links:
  "map fst rs = xs @ a # ys \<Longrightarrow> distinct (map fst rs) \<Longrightarrow>
     next_req rs a = (case ys of [] \<Rightarrow> None | y # _ \<Rightarrow> Some y)"
proof (induction rs a arbitrary: xs rule: next_req.induct)
  case (2 b r rest a)
  show ?case
  proof (cases xs)
    case Nil
    with 2 show ?thesis by (cases rest) auto
  next
    case (Cons x xs')
    with 2 show ?thesis by auto
  qed
qed simp

lemma first_req_links: "first_req c = (case map fst (requests c) of [] \<Rightarrow> None | y # _ \<Rightarrow> Some y)"
  by (cases "requests c") (auto simp: first_req_def)

lemma expired_at_progress:
  assumes "progress now rank K H c c'" "k \<in> set (map fst (requests c))" "k \<in> set (map fst (requests c'))"
  shows "expired_at now c' k = expired_at now c k"
proof -
  obtain r r' where r: "map_of (requests c) k = Some r" "map_of (requests c') k = Some r'"
    using assms(2,3) unfolding map_of_keys by blast
  have st: "state_progress now H c c'" using assms(1) by (simp add: progress_def)
  show ?thesis using state_progressD(1) [OF st r] state_progressD(2) [OF st r(2)] r by (auto simp: expired_at_def)
qed

lemma progress_links_0:
  assumes "progress now (\<lambda>_. 0) 0 H c c'"
  obtains new where "map fst (requests c') = new @ map fst (requests c)" "\<forall>k\<in>set new. next_addr c \<le> k"
    "next_addr c \<le> next_addr c'"
  using assms by (auto simp: progress_def may_free_def elim!: links_progressE)

text \<open>
  Handling one request while the expired requests are flat: an expired request is removed and
  nothing else, a request that is not expired stays, new requests are linked before the others.
\<close>

lemma handle_flat:
  assumes mem: "mem_ok env" and wf: "sr_wf 42 sr" and own: "own_unrouted sr" and flat: "flat (env_time env) sr"
    and a: "map fst (requests (cache sr)) = xs @ a # ys"
  obtains sr' new where "handle_arpreq env (Suc (Suc d)) sr a = Inr sr'"
    "map fst (requests (cache sr')) = new @ xs @ (if expired_at (env_time env) (cache sr) a then [] else [a]) @ ys"
    "\<forall>k\<in>set new. next_addr (cache sr) \<le> k" "next_addr (cache sr) \<le> next_addr (cache sr')"
    "progress (env_time env) (\<lambda>_. 0) 1 (silent sr) (cache sr) (cache sr')"
proof -
  let ?now = "env_time env"
  have "a \<in> set (map fst (requests (cache sr)))" using a by simp
  then obtain r where r: "map_of (requests (cache sr)) a = Some r" unfolding map_of_keys by blast
  show thesis
  proof (cases "expired ?now r")
    case False
    obtain sr' where h: "handle_arpreq env (Suc (Suc d)) sr a = Inr sr'"
      and p: "progress ?now (\<lambda>_. 0) 0 (silent sr) (cache sr) (cache sr')"
      by (rule handle_fresh_returns [OF mem wf r False])
    obtain new where "map fst (requests (cache sr')) = new @ map fst (requests (cache sr))"
      "\<forall>k\<in>set new. next_addr (cache sr) \<le> k" "next_addr (cache sr) \<le> next_addr (cache sr')"
      by (rule progress_links_0 [OF p])
    then show thesis
      using that [OF h _ _ _ progress_mono [OF p]] a False r by (simp add: expired_at_def)
  next
    case True
    have nested: "\<exists>sr2. handle_arpreq env (Suc d) sr1 b = Inr sr2 \<and>
        progress ?now (\<lambda>_. 0) ((\<lambda>_. 0) (req_ip r)) (silent sr1) (cache sr1) (cache sr2)"
      if "sr_wf 42 sr1" "map_of (requests (cache sr1)) b = Some q"
        "expired ?now q \<Longrightarrow> (\<lambda>_. 0) (req_ip q) < (\<lambda>_. 0 :: nat) (req_ip r)" for sr1 b q
      using handle_fresh_returns [OF mem that(1,2)] that(3) by (metis less_irrefl)
    obtain sr2 r2 where h: "handle_arpreq env (Suc (Suc d)) sr a = Inr (sr2\<lparr>cache := sr_arpreq_destroy (cache sr2) a\<rparr>)"
      and s2: "sr_wf 42 sr2" "progress ?now (\<lambda>_. 0) ((\<lambda>_. 0) (req_ip r)) (silent sr) (cache sr) (cache sr2)"
      and r2: "map_of (requests (cache sr2)) a = Some r2" "req_ip r2 = req_ip r" "expired ?now r2"
      by (rule giveup_returns [OF mem wf own flat r True nested])
    have cwf: "arpcache_wf (cache sr)" "arpcache_wf (cache sr2)" using wf s2(1) by (simp_all add: sr_wf_def)
    note d2 = wf_distinct [OF cwf(2)]
    obtain new where new: "map fst (requests (cache sr2)) = new @ map fst (requests (cache sr))"
      "\<forall>k\<in>set new. next_addr (cache sr) \<le> k" "next_addr (cache sr) \<le> next_addr (cache sr2)"
      by (rule progress_links_0 [OF s2(2)])
    have "map fst (requests (sr_arpreq_destroy (cache sr2) a)) = filter (\<lambda>k. k \<noteq> a) (map fst (requests (cache sr2)))"
      by (simp add: sr_arpreq_destroy_def unlink_req_filter [OF d2] filter_map comp_def case_prod_unfold)
    also have "\<dots> = new @ xs @ ys"
      using d2 unfolding new(1) a by (simp add: filter_not_in)
    finally have links: "map fst (requests (sr_arpreq_destroy (cache sr2) a)) = new @ xs @ ys" .
    have "progress ?now (\<lambda>_. 0) 1 (silent sr) (cache sr2) (sr_arpreq_destroy (cache sr2) a)"
      using destroy_progress [OF cwf(2) r2(1,3), of "\<lambda>_. 0"] by simp
    then have pr: "progress ?now (\<lambda>_. 0) 1 (silent sr) (cache sr) (sr_arpreq_destroy (cache sr2) a)"
      using progress_trans [OF progress_mono [OF s2(2)]] cwf(1) by simp
    show thesis
      by (rule that [OF h, of new]) (use links new pr True r in \<open>simp_all add: expired_at_def sr_arpreq_destroy_def\<close>)
  qed
qed

lemma sweep_walk_returns:
  assumes "mem_ok env"
  shows "sr_wf 42 sr \<Longrightarrow> own_unrouted sr \<Longrightarrow> flat (env_time env) sr \<Longrightarrow>
    map fst (requests (cache sr)) = xs @ ys \<Longrightarrow> length ys \<le> visits \<Longrightarrow>
    \<exists>sr' new. sweep_walk env (Suc (Suc d)) visits sr (case ys of [] \<Rightarrow> None | y # _ \<Rightarrow> Some y) = Inr sr' \<and>
      sr_wf 42 sr' \<and> same_config sr sr' \<and>
      map fst (requests (cache sr')) = new @ xs @ filter (\<lambda>k. \<not> expired_at (env_time env) (cache sr) k) ys \<and>
      (\<forall>k\<in>set new. next_addr (cache sr) \<le> k) \<and>
      progress (env_time env) (\<lambda>_. 0) 1 (silent sr) (cache sr) (cache sr')"
proof (induction ys arbitrary: sr xs visits)
  case Nil
  then show ?case by (intro exI [of _ sr] exI [of _ "[]"]) auto
next
  case (Cons a ys)
  let ?now = "env_time env"
  note wf = Cons.prems(1) and links = Cons.prems(4)
  obtain v where v: "visits = Suc v" "length ys \<le> v" using Cons.prems(5) by (cases visits) auto
  have cwf: "arpcache_wf (cache sr)" using wf by (simp add: sr_wf_def)
  obtain sr1 n1 where h: "handle_arpreq env (Suc (Suc d)) sr a = Inr sr1"
    and l1: "map fst (requests (cache sr1)) = n1 @ xs @ (if expired_at ?now (cache sr) a then [] else [a]) @ ys"
    and n1: "\<forall>k\<in>set n1. next_addr (cache sr) \<le> k" "next_addr (cache sr) \<le> next_addr (cache sr1)"
    and p1: "progress ?now (\<lambda>_. 0) 1 (silent sr) (cache sr) (cache sr1)"
    by (rule handle_flat [OF assms Cons.prems(1-4)])
  have keep: "sr_wf 42 sr1" "evolves sr sr1"
    using handle_arpreq_keeps [of 42 sr env "Suc (Suc d)" a] wf h by (simp_all add: keeps_Inr)
  have cfg: "same_config sr sr1" using keep(2) unfolding evolves_def by blast
  have own1: "own_unrouted sr1" using Cons.prems(2) own_unrouted_config [OF cfg] by simp
  have flat1: "flat ?now sr1" using ranked_progress [OF Cons.prems(3) wf keep(1) cfg p1] .
  obtain sr2 n2 where w: "sweep_walk env (Suc (Suc d)) v sr1 (case ys of [] \<Rightarrow> None | y # _ \<Rightarrow> Some y) = Inr sr2"
    and s2: "sr_wf 42 sr2" "same_config sr1 sr2"
    and l2: "map fst (requests (cache sr2)) = n2 @ (n1 @ xs @ (if expired_at ?now (cache sr) a then [] else [a])) @
      filter (\<lambda>k. \<not> expired_at ?now (cache sr1) k) ys"
    and n2: "\<forall>k\<in>set n2. next_addr (cache sr1) \<le> k"
    and p2: "progress ?now (\<lambda>_. 0) 1 (silent sr1) (cache sr1) (cache sr2)"
    using Cons.IH [OF keep(1) own1 flat1 _ v(2), of "n1 @ xs @ (if expired_at ?now (cache sr) a then [] else [a])"] l1
    by auto
  have same: "expired_at ?now (cache sr1) k = expired_at ?now (cache sr) k" if "k \<in> set ys" for k
    using expired_at_progress [OF p1, of k] that unfolding l1 links by simp
  have step: "sweep_walk env (Suc (Suc d)) visits sr (Some a) = Inr sr2"
  proof -
    have "a \<in> set (map fst (requests (cache sr)))" using links by simp
    then obtain r where r: "map_of (requests (cache sr)) a = Some r" unfolding map_of_keys by blast
    have "next_req (requests (cache sr)) a = (case ys of [] \<Rightarrow> None | y # _ \<Rightarrow> Some y)"
      using next_req_links [OF links wf_distinct [OF cwf]] .
    then show ?thesis using v r h w by (simp add: deref_req_def del: handle_arpreq.simps)
  qed
  have "progress ?now (\<lambda>_. 0) 1 (silent sr) (cache sr) (cache sr2)"
    using progress_trans [OF p1 _ cwf] p2 error_hop_config [OF cfg] by simp
  moreover have "same_config sr sr2" using same_config_trans [OF cfg s2(2)] .
  moreover have "filter (\<lambda>k. \<not> expired_at ?now (cache sr1) k) ys = filter (\<lambda>k. \<not> expired_at ?now (cache sr) k) ys"
    using same by (auto intro: filter_cong)
  moreover have "\<forall>k\<in>set (n2 @ n1). next_addr (cache sr) \<le> k" using n1 n2 by fastforce
  ultimately show ?case
    using step s2(1) l2 by (intro exI [of _ sr2] exI [of _ "n2 @ n1"]) simp
qed

section \<open>A given-up request is gone\<close>

lemma giveup_removes:
  assumes "handle_arpreq env d sr a = Inr sr'" "sr_wf 42 sr"
    and "map_of (requests (cache sr)) a = Some r" "expired (env_time env) r"
  shows "map_of (requests (cache sr')) a = None"
proof -
  obtain e where d: "d = Suc e" using assms(1) by (cases d) auto
  obtain sr1 where loop: "unreachable_loop (handle_arpreq env e) env sr a (req_packets r) = Inr sr1"
    and sr': "sr' = sr1\<lparr>cache := sr_arpreq_destroy (cache sr1) a\<rparr>"
    using assms d by (auto simp: handle_arpreq_body_def deref_req_def expired_def split: sum.splits option.splits)
  have "\<forall>p\<in>set (req_packets r). 42 \<le> length (pkt_buf p)"
    using deref_ge [OF assms(2), of a r] assms(3) by (auto simp: deref_req_Inr)
  then have "sr_wf 42 sr1"
    using hc42.loop_keeps [OF assms(2), of "req_packets r" env e env a] loop by (simp add: keeps_Inr)
  then have "distinct (map fst (requests (cache sr1)))" by (simp add: sr_wf_def arpcache_wf_def)
  then show ?thesis by (simp add: sr' sr_arpreq_destroy_def map_of_unlink)
qed

text \<open>
  C21.  The retry handler returns, and a request it gave up on is gone: whenever the expired requests can
  be ranked so that the errors about their frames only go to next hops of lower rank, a nesting
  depth of two more than the rank is enough, and every larger depth gives the same result.
\<close>

theorem handle_arpreq_returns:
  assumes "mem_ok env" "sr_wf 42 sr" "own_unrouted sr" "ranked (env_time env) rank sr"
    and "map_of (requests (cache sr)) a = Some r" "depth_for (env_time env) rank r \<le> depth"
  shows "\<exists>sr'. handle_arpreq env depth sr a = Inr sr' \<and> sr_wf 42 sr' \<and> same_config sr sr' \<and>
    (\<forall>deeper. depth \<le> deeper \<longrightarrow> handle_arpreq env deeper sr a = Inr sr') \<and>
    (expired (env_time env) r \<longrightarrow> map_of (requests (cache sr')) a = None)"
proof -
  obtain sr' where h: "handle_arpreq env depth sr a = Inr sr'"
    using handle_arpreq_progress [OF assms, of "Suc (rank (req_ip r))"] by auto
  have "sr_wf 42 sr'" "evolves sr sr'"
    using handle_arpreq_keeps [of 42 sr env depth a] assms(2) h by (simp_all add: keeps_Inr)
  moreover have "handle_arpreq env deeper sr a = Inr sr'" if "depth \<le> deeper" for deeper
    using handle_arpreq_fuel [OF that, of env sr a] h by (simp add: fuel_le_def)
  ultimately show ?thesis
    using h giveup_removes [OF h assms(2,5)] unfolding evolves_def by blast
qed

text \<open>Two expired requests in a chain: errors about the frame of the first go to the second.\<close>

definition chain_router :: sr_instance where
  "chain_router = example_router
     [(1, sample_req server1 0 5 [\<lparr>pkt_buf = sample_frame client server1 9, pkt_iface = if_named ''eth1''\<rparr>]),
      (0, sample_req client 0 5 [\<lparr>pkt_buf = sample_frame 7 client 9, pkt_iface = if_named ''eth3''\<rparr>])]"

lemma sample_req_simps [simp]:
  "req_ip (sample_req ip sent tries pkts) = ip" "req_packets (sample_req ip sent tries pkts) = pkts"
  "expired now (sample_req ip sent tries pkts) \<longleftrightarrow> 1 \<le> now - sent \<and> 5 \<le> tries"
  "req_wf (sample_req ip sent tries pkts) \<longleftrightarrow>
     pkts \<noteq> [] \<and> (\<forall>p\<in>set pkts. 34 \<le> length (pkt_buf p) \<and> length (pkt_iface p) = 32)"
  by (simp_all add: sample_req_def expired_def req_wf_def layout)

lemma chain_router_facts:
  "sr_wf 42 chain_router" "own_unrouted chain_router"
  "ranked 10 (\<lambda>ip. if ip = server1 then 1 else 0) chain_router"
proof -
  have "error_hop (example_router rs) (sample_frame 7 dst ttl) = None" for rs dst ttl
    by (simp add: error_hop_def sample_frame_ip route_for_def example_match example_addrs)
  then show "sr_wf 42 chain_router" "own_unrouted chain_router"
    "ranked 10 (\<lambda>ip. if ip = server1 then 1 else 0) chain_router"
    by (simp_all add: chain_router_def example_wf ranked_def)
qed

theorem handle_arpreq_returns_witness:
  "\<exists>sr'. handle_arpreq (good_env 10) 3 chain_router 1 = Inr sr' \<and> sr_wf 42 sr' \<and>
     map_of (requests (cache sr')) 1 = None"
  using handle_arpreq_returns [of "good_env 10" chain_router "\<lambda>ip. if ip = server1 then 1 else 0" 1
      "sample_req server1 0 5 [\<lparr>pkt_buf = sample_frame client server1 9, pkt_iface = if_named ''eth1''\<rparr>]" 3]
    chain_router_facts
  by (auto simp: depth_for_def chain_router_def simp del: handle_arpreq.simps)

section \<open>A round of the timeout thread\<close>

lemma expire_config [simp]: "same_config sr (sr\<lparr>cache := c\<rparr>)"
  by (simp add: same_config_def)

lemma expire_requests [simp]:
  "requests (expire_entries now c) = requests c" "next_addr (expire_entries now c) = next_addr c"
  by (simp_all add: expire_entries_def)

lemma expire_flat: "flat now (sr\<lparr>cache := expire_entries t (cache sr)\<rparr>) = flat now sr"
  using error_hop_config [of sr "sr\<lparr>cache := expire_entries t (cache sr)\<rparr>"]
  by (simp add: ranked_def)

lemma sweep_survivors:
  assumes links: "map fst (requests c') = new @ filter (\<lambda>k. \<not> expired_at now c k) (map fst (requests c))"
    and new: "\<forall>k\<in>set new. next_addr c \<le> k" and p: "progress now rank K H c c'" and wf: "arpcache_wf c" "arpcache_wf c'"
  shows "(a, r) \<in> set (requests c) \<Longrightarrow> a \<in> fst ` set (requests c') \<longleftrightarrow> \<not> expired now r"
    and "(a, r) \<in> set (requests c') \<Longrightarrow> \<not> expired now r"
proof -
  have keys: "k \<in> fst ` set (requests c') \<longleftrightarrow> k \<in> set new \<or> k \<in> fst ` set (requests c) \<and> \<not> expired_at now c k" for k
    using arg_cong [OF links, of set] by auto
  show "a \<in> fst ` set (requests c') \<longleftrightarrow> \<not> expired now r" if a: "(a, r) \<in> set (requests c)"
  proof -
    have m: "map_of (requests c) a = Some r" using a wf_map_of [OF wf(1)] by simp
    have "a \<notin> set new" using wf_key_less [OF wf(1) m] new by auto
    then show ?thesis using keys [of a] a m by (force simp: expired_at_def)
  qed
  show "\<not> expired now r" if a: "(a, r) \<in> set (requests c')"
  proof
    assume ex: "expired now r"
    have st: "state_progress now H c c'" using p by (simp add: progress_def)
    have "map_of (requests c') a = Some r" using a wf_map_of [OF wf(2)] by simp
    from state_progressD(2) [OF st this ex] obtain q where q: "map_of (requests c) a = Some q" "expired now q" by blast
    have "a \<notin> set new" using wf_key_less [OF wf(1) q(1)] new by auto
    then show False using keys [of a] a q by (force simp: expired_at_def)
  qed
qed

lemma timeout_round_prunes:
  assumes mem: "mem_ok env" and wf: "sr_wf 42 sr" and own: "own_unrouted sr" and flat: "flat (env_time env) sr"
    and d: "2 \<le> depth"
  obtains sr' where "sr_arpcache_timeout_round env depth sr = Inr sr'" "sr_wf 42 sr'" "same_config sr sr'"
    "\<And>a r. (a, r) \<in> set (requests (cache sr)) \<Longrightarrow>
       a \<in> fst ` set (requests (cache sr')) \<longleftrightarrow> \<not> expired (env_time env) r"
    "\<And>a r. (a, r) \<in> set (requests (cache sr')) \<Longrightarrow> \<not> expired (env_time env) r"
proof -
  let ?s = "sr\<lparr>cache := expire_entries (env_time env) (cache sr)\<rparr>"
  obtain e where e: "depth = Suc (Suc e)" using d by (metis add_2_eq_Suc le_Suc_ex)
  have s: "sr_wf 42 ?s" using wf by (simp add: sr_wf_def expire_wf queued_ge_expire)
  have own1: "own_unrouted ?s" using own own_unrouted_config [of sr ?s] by simp
  have flat1: "flat (env_time env) ?s" using flat by (simp add: expire_flat)
  have links: "map fst (requests (cache ?s)) = [] @ map fst (requests (cache sr))" by simp
  obtain sr' new where w: "sweep_walk env depth (length (requests (cache sr))) ?s
      (case map fst (requests (cache sr)) of [] \<Rightarrow> None | y # _ \<Rightarrow> Some y) = Inr sr'"
    and s': "sr_wf 42 sr'" "same_config ?s sr'"
    and l: "map fst (requests (cache sr')) =
      new @ filter (\<lambda>k. \<not> expired_at (env_time env) (cache ?s) k) (map fst (requests (cache ?s)))"
    and n: "\<forall>k\<in>set new. next_addr (cache ?s) \<le> k"
    and p: "progress (env_time env) (\<lambda>_. 0) 1 (silent ?s) (cache ?s) (cache sr')"
    using sweep_walk_returns [OF mem s own1 flat1 links, of "length (requests (cache sr))" e] unfolding e by auto
  have "sr_arpcache_timeout_round env depth sr = Inr sr'"
    using w by (simp add: sr_arpcache_timeout_round_def sr_arpcache_sweepreqs_def first_req_links)
  moreover have "same_config sr sr'" using s'(2) by (simp add: same_config_def)
  ultimately show thesis
    using that [OF _ s'(1)] sweep_survivors [OF l n p sr_wf_arpcache [OF s] sr_wf_arpcache [OF s'(1)]] by simp
qed

text \<open>
  C22.  A round of the timeout thread returns, visits every request and leaves none that is expired: if no
  error about a frame of an expired request goes to a next hop that is expired as well, exactly
  the expired requests are removed from the queue.
\<close>

theorem sweep_removes_exactly_the_expired:
  assumes "mem_ok env" "sr_wf 42 sr" "own_unrouted sr" "ranked (env_time env) (\<lambda>_. 0) sr" "2 \<le> depth"
  shows "\<exists>sr'. sr_arpcache_timeout_round env depth sr = Inr sr' \<and> sr_wf 42 sr' \<and> same_config sr sr' \<and>
    (\<forall>a r. (a, r) \<in> set (requests (cache sr)) \<longrightarrow>
       (a \<in> fst ` set (requests (cache sr')) \<longleftrightarrow> \<not> expired (env_time env) r)) \<and>
    (\<forall>a r. (a, r) \<in> set (requests (cache sr')) \<longrightarrow> \<not> expired (env_time env) r)"
  by (rule timeout_round_prunes [OF assms]) blast

definition sweep_router :: sr_instance where
  "sweep_router = example_router
     [(1, sample_req server1 0 5 [\<lparr>pkt_buf = sample_frame client server1 9, pkt_iface = if_named ''eth1''\<rparr>]),
      (0, sample_req server2 0 3 [\<lparr>pkt_buf = sample_frame client server2 9, pkt_iface = if_named ''eth2''\<rparr>])]"

theorem sweep_removes_exactly_the_expired_witness:
  "\<exists>sr'. sr_arpcache_timeout_round (good_env 10) 2 sweep_router = Inr sr' \<and>
     1 \<notin> fst ` set (requests (cache sr')) \<and> 0 \<in> fst ` set (requests (cache sr'))"
proof -
  have f: "sr_wf 42 sweep_router" "own_unrouted sweep_router" "ranked (env_time (good_env 10)) (\<lambda>_. 0) sweep_router"
    by (simp_all add: sweep_router_def example_wf ranked_def)
  obtain sr' where h: "sr_arpcache_timeout_round (good_env 10) 2 sweep_router = Inr sr'"
    and k: "\<And>a r. (a, r) \<in> set (requests (cache sweep_router)) \<Longrightarrow>
       (a \<in> fst ` set (requests (cache sr')) \<longleftrightarrow> \<not> expired (env_time (good_env 10)) r)"
    using sweep_removes_exactly_the_expired [OF mem_ok_good_env f order_refl] by blast
  have "1 \<notin> fst ` set (requests (cache sr'))"
    using k [of 1 "sample_req server1 0 5 [\<lparr>pkt_buf = sample_frame client server1 9, pkt_iface = if_named ''eth1''\<rparr>]"]
    by (simp add: sweep_router_def)
  moreover have "0 \<in> fst ` set (requests (cache sr'))"
    using k [of 0 "sample_req server2 0 3 [\<lparr>pkt_buf = sample_frame client server2 9, pkt_iface = if_named ''eth2''\<rparr>]"]
    by (simp add: sweep_router_def)
  ultimately show ?thesis using h by blast
qed

section \<open>Endless recursion\<close>

lemma find_req_unique:
  assumes "arpcache_wf c" "map_of (requests c) a = Some r"
  shows "find_req (requests c) (req_ip r) = Some (a, r)"
proof -
  have d: "distinct (map (req_ip \<circ> snd) (requests c))" using assms(1) by (simp add: arpcache_wf_def)
  have m: "(a, r) \<in> set (requests c)" using assms(2) by (rule map_of_SomeD)
  then obtain b q where f: "find_req (requests c) (req_ip r) = Some (b, q)"
    by (cases "find_req (requests c) (req_ip r)") (auto simp: find_req_None)
  then have "(b, q) = (a, r)"
    using inj_onD [of "req_ip \<circ> snd" "set (requests c)" "(b, q)" "(a, r)"] d m find_req_Some [OF f]
    by (simp add: distinct_map)
  with f show ?thesis by simp
qed

lemma unreachable_loop_silent:
  assumes "map_of (requests (cache sr)) a = Some r"
  shows "\<forall>q\<in>set qs. error_hop sr (pkt_buf q) = None \<Longrightarrow>
    unreachable_loop h env sr a (qs @ pkts) = unreachable_loop h env sr a pkts"
proof (induction qs)
  case (Cons q qs)
  have "sizeof_eth + sizeof_ip \<le> length (pkt_buf q) \<Longrightarrow> send_icmp_error_with h env sr 3 1 (pkt_buf q) 0 = Inr sr"
    using Cons.prems by (intro unreachable_none) (simp_all add: layout)
  with Cons assms show ?case by (simp add: deref_req_def)
qed simp

lemma self_error_diverges:
  assumes mem: "mem_ok env"
  shows "sr_wf 42 sr \<Longrightarrow> own_unrouted sr \<Longrightarrow> map_of (requests (cache sr)) a = Some r \<Longrightarrow>
    expired (env_time env) r \<Longrightarrow> req_packets r = qs @ p # rest \<Longrightarrow>
    \<forall>q\<in>set qs. error_hop sr (pkt_buf q) = None \<Longrightarrow> error_hop sr (pkt_buf p) = Some (req_ip r) \<Longrightarrow>
    handle_arpreq env depth sr a = Inl OutOfFuel"
proof (induction depth arbitrary: sr r qs)
  case (Suc d)
  note wf = Suc.prems(1) and r = Suc.prems(3)
  have len: "42 \<le> length (pkt_buf p)" using deref_ge [OF wf, of a r p] r Suc.prems(5) by (simp add: deref_req_Inr)
  have cwf: "arpcache_wf (cache sr)" using wf by (simp add: sr_wf_def)
  obtain f name b c where send: "send_icmp_error_with (handle_arpreq env d) env sr 3 1 (pkt_buf p) 0 =
      handle_arpreq env d (sr\<lparr>cache := c\<rparr>) b"
    and q: "sr_arpcache_queuereq env (cache sr) (req_ip r) f name = Inr (b, c)"
    and f: "42 \<le> length f" "error_hop sr f = None"
    by (rule unreachable_queues [OF mem wf len Suc.prems(2,7)])
  have ne: "f \<noteq> []" using f(1) by auto
  have bc: "b = a" "c = (cache sr)\<lparr>requests := update_req (requests (cache sr)) a (push_packet (queued_packet f name))\<rparr>"
    using q ne find_req_unique [OF cwf r] by (auto elim!: queuereq_cases)
  let ?s = "sr\<lparr>cache := c\<rparr>" and ?r = "push_packet (queued_packet f name) r"
  have cfg: "same_config sr ?s" by simp
  have "sr_wf 42 ?s"
    using queuereq_wf [OF q] queued_ge_queuereq [OF q, of 42] ne wf f(1) by (auto simp: sr_wf_def)
  moreover have "own_unrouted ?s" using Suc.prems(2) own_unrouted_config [OF cfg] by simp
  moreover have "map_of (requests (cache ?s)) a = Some ?r"
    using r by (simp add: bc map_of_update_req [OF wf_distinct [OF cwf]])
  moreover have "expired (env_time env) ?r" using Suc.prems(4) by (simp add: expired_def)
  moreover have "\<forall>q\<in>set (queued_packet f name # qs). error_hop ?s (pkt_buf q) = None"
    "error_hop ?s (pkt_buf p) = Some (req_ip ?r)"
    using Suc.prems(6,7) f(2) error_hop_config [OF cfg] by simp_all
  ultimately have "handle_arpreq env d ?s a = Inl OutOfFuel"
    using Suc.prems(5) by (intro Suc.IH [of ?s ?r "queued_packet f name # qs"]) simp_all
  then have "unreachable_loop (handle_arpreq env d) env sr a (p # rest) = Inl OutOfFuel"
    using r len send bc(1) by (simp add: deref_req_def layout)
  then have "unreachable_loop (handle_arpreq env d) env sr a (req_packets r) = Inl OutOfFuel"
    using unreachable_loop_silent [OF r Suc.prems(6)] Suc.prems(5) by simp
  then show ?case using r Suc.prems(4) by (simp add: handle_arpreq_body_def deref_req_def expired_def)
qed simp

text \<open>
  C32.  Giving up does not return when the sender of the frame queued last is reached through the very next hop
  that is given up on: the host-unreachable error joins the same request, which is still expired,
  and the handler calls itself again, at every nesting depth.
\<close>

theorem giveup_recurses_forever:
  assumes "mem_ok env" "sr_wf 42 sr" "own_unrouted sr"
    and "map_of (requests (cache sr)) a = Some r" "expired (env_time env) r"
    and "req_packets r = p # rest" "error_hop sr (pkt_buf p) = Some (req_ip r)"
  shows "handle_arpreq env depth sr a = Inl OutOfFuel"
  using assms by (intro self_error_diverges [where qs = "[]"]) simp_all

definition land_req :: sr_arpreq where
  "land_req = sample_req server1 0 5 [\<lparr>pkt_buf = sample_frame server1 server1 9, pkt_iface = if_named ''eth1''\<rparr>]"

theorem giveup_recurses_forever_witness:
  "\<forall>depth. handle_arpreq (good_env 10) depth (example_router [(0, land_req)]) 0 = Inl OutOfFuel"
proof
  fix depth
  have "sr_wf 42 (example_router [(0, land_req)])" by (simp add: example_wf land_req_def)
  then show "handle_arpreq (good_env 10) depth (example_router [(0, land_req)]) 0 = Inl OutOfFuel"
    by (rule giveup_recurses_forever [OF mem_ok_good_env, where r = land_req
        and p = "\<lparr>pkt_buf = sample_frame server1 server1 9, pkt_iface = if_named ''eth1''\<rparr>" and rest = "[]"])
      (simp_all add: land_req_def)
qed

section \<open>The stale pointer of the sweeper\<close>

text \<open>
  C35.  The pointer to the next request that the sweeper reads before it handles a request can be
  freed by that handling: if the first two requests of the queue are expired and the error about the frame of
  the first goes to the second, the nested give-up frees the second and the sweeper then reads it.
\<close>

theorem sweep_reads_freed_request:
  assumes "mem_ok env" "sr_wf 42 sr" "own_unrouted sr" "ranked (env_time env) rank sr"
    and "requests (cache sr) = (a, r) # (b, q) # rest" "expired (env_time env) r" "expired (env_time env) q"
    and "req_packets r = [p]" "error_hop sr (pkt_buf p) = Some (req_ip q)" "rank (req_ip r) + 2 \<le> depth"
  shows "sr_arpcache_sweepreqs env depth sr = Inl UseAfterFree"
proof -
  note wf = assms(2)
  have cwf: "arpcache_wf (cache sr)" using wf by (simp add: sr_wf_def)
  have ab: "a \<noteq> b" using wf_distinct [OF cwf] assms(5) by simp
  have r: "map_of (requests (cache sr)) a = Some r" and q: "map_of (requests (cache sr)) b = Some q"
    using assms(5) ab by simp_all
  obtain d where d: "depth = Suc d" using assms(10) by (cases depth) auto
  have len: "42 \<le> length (pkt_buf p)" using deref_ge [OF wf, of a r p] r assms(8) by (simp add: deref_req_Inr)
  obtain sr' where h: "handle_arpreq env depth sr a = Inr sr'"
    using handle_arpreq_progress [OF assms(1-4) r, of depth "Suc (rank (req_ip r))"] assms(6,10)
    by (auto simp: depth_for_def)
  obtain f name b' c where send: "send_icmp_error_with (handle_arpreq env d) env sr 3 1 (pkt_buf p) 0 =
      handle_arpreq env d (sr\<lparr>cache := c\<rparr>) b'"
    and e: "sr_arpcache_queuereq env (cache sr) (req_ip q) f name = Inr (b', c)" and f: "42 \<le> length f"
    by (rule unreachable_queues [OF assms(1) wf len assms(3,9)])
  have ne: "f \<noteq> []" using f by auto
  have bc: "b' = b" "c = (cache sr)\<lparr>requests := update_req (requests (cache sr)) b (push_packet (queued_packet f name))\<rparr>"
    using e ne find_req_unique [OF cwf q] by (auto elim!: queuereq_cases)
  let ?s = "sr\<lparr>cache := c\<rparr>"
  have s: "sr_wf 42 ?s"
    using queuereq_wf [OF e] queued_ge_queuereq [OF e, of 42] ne wf f by (auto simp: sr_wf_def)
  have qs: "map_of (requests (cache ?s)) b = Some (push_packet (queued_packet f name) q)"
    using q by (simp add: bc map_of_update_req [OF wf_distinct [OF cwf]])
  obtain sr1 where h1: "handle_arpreq env d ?s b = Inr sr1" "map_of (requests (cache sr')) b = None"
  proof -
    from h r assms(6,8) len send bc(1) d obtain sr1 where h1: "handle_arpreq env d ?s b = Inr sr1"
      and sr': "sr' = sr1\<lparr>cache := sr_arpreq_destroy (cache sr1) a\<rparr>"
      by (auto simp: handle_arpreq_body_def deref_req_def expired_def layout split: sum.splits option.splits)
    have "map_of (requests (cache sr1)) b = None"
      using giveup_removes [OF h1 s qs] assms(7) by (simp add: expired_def)
    then have "map_of (requests (cache sr')) b = None"
      using set_unlink_subset [of "requests (cache sr1)" a]
      by (auto simp: sr' sr_arpreq_destroy_def map_of_eq_None_iff)
    with h1 that show thesis by blast
  qed
  have "first_req (cache sr) = Some a" "next_req (requests (cache sr)) a = Some b"
    using assms(5) by (simp_all add: first_req_def)
  then show ?thesis
    using h h1(2) assms(5) by (simp add: sr_arpcache_sweepreqs_def deref_req_def del: handle_arpreq.simps)
qed

theorem sweep_reads_freed_request_witness:
  "sr_arpcache_sweepreqs (good_env 10) 3 chain_router = Inl UseAfterFree"
  by (rule sweep_reads_freed_request [OF mem_ok_good_env chain_router_facts(1,2),
        where rank = "\<lambda>ip. if ip = server1 then 1 else 0" and rest = "[]" and a = 1 and b = 0
        and r = "sample_req server1 0 5 [\<lparr>pkt_buf = sample_frame client server1 9, pkt_iface = if_named ''eth1''\<rparr>]"
        and q = "sample_req client 0 5 [\<lparr>pkt_buf = sample_frame 7 client 9, pkt_iface = if_named ''eth3''\<rparr>]"
        and p = "\<lparr>pkt_buf = sample_frame client server1 9, pkt_iface = if_named ''eth1''\<rparr>"])
    (use chain_router_facts(3) in \<open>simp_all add: chain_router_def\<close>)

end
