(* ===== verification/SR_Datapath.thy ===== *)
theory SR_Datapath
  imports SR_Frames SR_Sweep
begin

text \<open>
  The data path end to end.  An abstract decision function says what the router owes to an IP frame;
  the handlers implement it.  The effect of each decision is stated on the queue of waiting frames,
  the output to the server and the bytes of the frame, for a router whose queue holds no
  expired request (as the sweeper leaves it).
\<close>

section \<open>Queueing a frame for its next hop\<close>

definition no_expired :: "int \<Rightarrow> sr_instance \<Rightarrow> bool" where
  "no_expired now sr \<longleftrightarrow> list_all (\<lambda>(a, r). \<not> expired now r) (requests (cache sr))"

definition arp_due :: "int \<Rightarrow> sr_arpcache \<Rightarrow> u32 \<Rightarrow> bool" where
  "arp_due now c hop = (case find_req (requests c) hop of None \<Rightarrow> 1 \<le> now | Some (a, r) \<Rightarrow> 1 \<le> now - req_sent r)"

definition arp_query :: "sr_if \<Rightarrow> u32 \<Rightarrow> bytes" where
  "arp_query i ip =
     eth_hdr_bytes \<lparr>ether_dhost = replicate 6 0xff, ether_shost = if_addr i, ether_type = htons ethertype_arp\<rparr> @
     arp_hdr_bytes \<lparr>ar_hrd = htons arp_hrd_ethernet, ar_pro = htons ethertype_ip, ar_hln = 6, ar_pln = 4,
       ar_op = htons arp_op_request, ar_sha = if_addr i, ar_sip = if_ip i, ar_tha = replicate 6 0, ar_tip = ip\<rparr>"

definition queued_for :: "sr_env \<Rightarrow> sr_instance \<Rightarrow> u32 \<Rightarrow> sr_if \<Rightarrow> bytes \<Rightarrow> sr_instance \<Rightarrow> bool" where
  "queued_for env sr hop i frame sr' \<longleftrightarrow>
     same_config sr sr' \<and> entries (cache sr') = entries (cache sr) \<and>
     pending (cache sr') = (pending (cache sr))(hop \<mapsto> queued_packet frame (if_name i) #
       (case pending (cache sr) hop of None \<Rightarrow> [] | Some ps \<Rightarrow> ps)) \<and>
     sock_out sr' = sock_out sr @ (if arp_due (env_time env) (cache sr) hop
       then [packet_message (arp_query i hop) (if_name i)] else []) \<and>
     no_expired (env_time env) sr'"

lemma send_packet_from:
  assumes "mem_ok env" "sr_get_interface sr name = Some i" "14 \<le> length buf" "take 6 (drop 6 buf) = if_addr i"
  obtains rc sr' where "sr_send_packet env sr buf name = Inr (rc, sr')" "same_config sr sr'" "cache sr' = cache sr"
    "sock_out sr' = sock_out sr @ [packet_message buf name]"
  using assms sr_send_packet_eq [of buf env sr name]
  by (simp add: mem_ok_def layout same_config_def)

lemma length_arp_query: "length (if_addr i) = 6 \<Longrightarrow> length (arp_query i ip) = 42 \<and> take 6 (drop 6 (arp_query i ip)) = if_addr i"
  by (simp add: arp_query_def eth_hdr_bytes_def arp_hdr_bytes_def)

lemma send_arp_request_effect:
  assumes "mem_ok env" "sr_wf m sr" "sr_get_interface sr name = Some i"
  obtains sr' where "send_arp_request env sr ip name = Inr sr'" "same_config sr sr'" "cache sr' = cache sr"
    "sock_out sr' = sock_out sr @ [packet_message (arp_query i ip) (if_name i)]"
proof -
  have mac: "length (if_addr i) = 6" using sr_wf_get_interface [OF assms(2,3)] by simp
  have own: "sr_get_interface sr (if_name i) = Some i" using sr_get_interface_own_name [OF assms(3)] .
  obtain rc sr' where send: "sr_send_packet env sr (arp_query i ip) (if_name i) = Inr (rc, sr')"
    and s: "same_config sr sr'" "cache sr' = cache sr" "sock_out sr' = sock_out sr @ [packet_message (arp_query i ip) (if_name i)]"
    by (rule send_packet_from [OF assms(1) own, of "arp_query i ip"]) (use length_arp_query [OF mac, of ip] in simp_all)
  have "arp_hdr_wf \<lparr>ar_hrd = htons arp_hrd_ethernet, ar_pro = htons ethertype_ip, ar_hln = 6, ar_pln = 4,
       ar_op = htons arp_op_request, ar_sha = if_addr i, ar_sip = if_ip i, ar_tha = replicate 6 0, ar_tip = ip\<rparr>"
    using mac by (simp add: arp_hdr_wf_def)
  then have "send_arp_request env sr ip name = Inr sr'"
    using assms send by (simp add: send_arp_request_def arp_frame_eq mem_ok_def arp_query_def)
  with s that show thesis by blast
qed

text \<open>Handling a request that is not expired: an ARP request at most once a second, nothing else.\<close>

lemma pending_update:
  assumes "arpcache_wf c" "\<And>r. req_ip (f r) = req_ip r" "\<And>r. req_packets (f r) = req_packets r"
  shows "pending (c\<lparr>requests := update_req (requests c) a f\<rparr>) = pending c"
  using find_req_update [OF assms(2) wf_distinct [OF assms(1)], of a] assms(3)
  by (auto simp: fun_eq_iff pending_def option.map_comp comp_def case_prod_unfold split: option.splits
      intro!: option.map_cong0)

lemma handle_due:
  assumes mem: "mem_ok env" and wf: "sr_wf m sr" and r: "map_of (requests (cache sr)) a = Some r"
    and due: "1 \<le> env_time env - req_sent r" and few: "\<not> 5 \<le> req_times_sent r"
    and p: "req_packets r = p # ps" "sr_get_interface sr (pkt_iface p) = Some i"
  obtains sr' where "handle_arpreq env (Suc d) sr a = Inr sr'" "same_config sr sr'"
    "cache sr' = (cache sr)\<lparr>requests := update_req (requests (cache sr)) a
       (\<lambda>r. r\<lparr>req_sent := env_time env, req_times_sent := req_times_sent r + 1\<rparr>)\<rparr>"
    "sock_out sr' = sock_out sr @ [packet_message (arp_query i (req_ip r)) (if_name i)]"
proof -
  obtain sr1 where s: "send_arp_request env sr (req_ip r) (pkt_iface p) = Inr sr1" "same_config sr sr1" "cache sr1 = cache sr"
    "sock_out sr1 = sock_out sr @ [packet_message (arp_query i (req_ip r)) (if_name i)]"
    by (rule send_arp_request_effect [OF mem wf p(2)])
  let ?c = "(cache sr)\<lparr>requests := update_req (requests (cache sr)) a
     (\<lambda>r. r\<lparr>req_sent := env_time env, req_times_sent := req_times_sent r + 1\<rparr>)\<rparr>"
  have "handle_arpreq env (Suc d) sr a = Inr (sr1\<lparr>cache := ?c\<rparr>)"
    using due few r p(1) s by (simp add: handle_arpreq_body_def deref_req_def)
  then show thesis using that [of "sr1\<lparr>cache := ?c\<rparr>"] s by (simp add: same_config_def)
qed

lemma handle_fresh_effect:
  assumes mem: "mem_ok env" and wf: "sr_wf m sr" and r: "map_of (requests (cache sr)) a = Some r"
    and fresh: "\<not> expired (env_time env) r"
    and p: "req_packets r = p # ps" "sr_get_interface sr (pkt_iface p) = Some i"
  obtains sr' where "handle_arpreq env (Suc d) sr a = Inr sr'" "same_config sr sr'"
    "entries (cache sr') = entries (cache sr)" "pending (cache sr') = pending (cache sr)"
    "sock_out sr' = sock_out sr @ (if 1 \<le> env_time env - req_sent r
       then [packet_message (arp_query i (req_ip r)) (if_name i)] else [])"
proof (cases "1 \<le> env_time env - req_sent r")
  case False
  then show thesis
    using that [of sr] r by (simp add: handle_arpreq_body_def deref_req_def)
next
  case True
  have cwf: "arpcache_wf (cache sr)" using wf by (simp add: sr_wf_def)
  have few: "\<not> 5 \<le> req_times_sent r" using fresh True by (simp add: expired_def)
  obtain sr' where s: "handle_arpreq env (Suc d) sr a = Inr sr'" "same_config sr sr'"
    "cache sr' = (cache sr)\<lparr>requests := update_req (requests (cache sr)) a
       (\<lambda>r. r\<lparr>req_sent := env_time env, req_times_sent := req_times_sent r + 1\<rparr>)\<rparr>"
    "sock_out sr' = sock_out sr @ [packet_message (arp_query i (req_ip r)) (if_name i)]"
    by (rule handle_due [OF mem wf r True few p])
  moreover have "pending (cache sr') = pending (cache sr)" unfolding s(3) using cwf by (intro pending_update) simp_all
  ultimately show thesis using that [of sr'] True by simp
qed

lemma no_expired_progress:
  assumes "no_expired now sr" "progress now rank K H (cache sr) c'" "arpcache_wf (cache sr)" "arpcache_wf c'"
    and "cache sr' = c'"
  shows "no_expired now sr'"
proof -
  have st: "state_progress now H (cache sr) c'" using assms(2) by (simp add: progress_def)
  have "\<not> expired now r" if "(a, r) \<in> set (requests c')" for a r
    using state_progressD(2) [OF st, of a r] that assms(1) unfolding wf_map_of [OF assms(4)] no_expired_def list_all_iff
    by (fastforce dest: map_of_SomeD)
  then show ?thesis using assms(5) by (auto simp: no_expired_def list_all_iff)
qed

lemma queue_fresh:
  assumes q: "sr_arpcache_queuereq env c hop frame name = Inr (a, c')" "frame \<noteq> []" and wf: "arpcache_wf c"
    and fresh: "\<And>a r. (a, r) \<in> set (requests c) \<Longrightarrow> req_ip r = hop \<Longrightarrow> \<not> expired now r"
  obtains r ps where "map_of (requests c') a = Some r" "\<not> expired now r" "req_ip r = hop"
    "req_packets r = queued_packet frame name # ps" "arp_due now c hop \<longleftrightarrow> 1 \<le> now - req_sent r" "entries c' = entries c"
  using q
proof (rule queuereq_cases)
  fix r
  assume r: "find_req (requests c) hop = Some (a, r)"
    and c': "c' = c\<lparr>requests := update_req (requests c) a (push_packet (queued_packet frame name))\<rparr>"
  have m: "(a, r) \<in> set (requests c)" "req_ip r = hop" using find_req_Some [OF r] by simp_all
  then have "map_of (requests c) a = Some r" using wf_map_of [OF wf] by simp
  then have "map_of (requests c') a = Some (push_packet (queued_packet frame name) r)"
    by (simp add: c' map_of_update_req [OF wf_distinct [OF wf]])
  from that [OF this] show thesis using m fresh [OF m] r by (auto simp: expired_def arp_due_def c')
next
  assume "find_req (requests c) hop = None" and c': "c' = c\<lparr>requests := (a, \<lparr>req_ip = hop, req_sent = 0,
      req_times_sent = 0, req_packets = [queued_packet frame name]\<rparr>) # requests c, next_addr := Suc a\<rparr>"
  then show thesis by (intro that [of "\<lparr>req_ip = hop, req_sent = 0, req_times_sent = 0,
      req_packets = [queued_packet frame name]\<rparr>" "[]"]) (auto simp: expired_def arp_due_def)
qed

lemma route_own_iface:
  assumes "route_for sr dst = Some (hop, i)"
  shows "sr_get_interface sr (strncpy (if_name i) 32) = Some i"
proof -
  from assms obtain name where "sr_get_interface sr name = Some i" by (auto simp: route_for_def split: option.splits)
  from sr_get_interface_own_name [OF this] show ?thesis
    using sr_get_interface_name_cong [of "strncpy (if_name i) 32" "if_name i" sr] by (simp add: layout)
qed

lemma sr_wf_34: "sr_wf m sr \<Longrightarrow> sr_wf 34 sr"
  by (fastforce simp: sr_wf_def arpcache_wf_def req_wf_def queued_ge_def layout)

lemma route_effect:
  assumes mem: "mem_ok env" and wf: "sr_wf 34 sr" and fresh: "no_expired (env_time env) sr" and len: "34 \<le> length frame"
    and route: "route_for sr (ip_dst (frame_ip frame)) = Some (hop, i)"
  obtains sr' where "route_and_send env (Suc d) sr frame = Inr (0, sr')"
    "queued_for env sr hop i (rewrite_l2 (if_addr i) frame) sr'"
proof -
  let ?f = "rewrite_l2 (if_addr i) frame"
  have cwf: "arpcache_wf (cache sr)" and ifs: "list_all if_wf (if_list sr)" using wf by (simp_all add: sr_wf_def)
  have i: "length (if_addr i) = 6" using sr_wf_if [OF wf route_for_iface [OF route]] by simp
  then have f: "length ?f = length frame" using len by (simp add: length_rewrite_l2)
  then have ne: "?f \<noteq> []" using len by auto
  obtain a c where q: "sr_arpcache_queuereq env (cache sr) hop ?f (if_name i) = Inr (a, c)"
    using queuereq_total [OF mem] .
  let ?s = "sr\<lparr>cache := c\<rparr>"
  have s: "sr_wf 34 ?s"
    using queuereq_wf [OF q] queued_ge_queuereq [OF q, of 34] ne wf f len by (auto simp: sr_wf_def)
  obtain r ps where r: "map_of (requests c) a = Some r" "\<not> expired (env_time env) r" "req_ip r = hop"
    "req_packets r = queued_packet ?f (if_name i) # ps"
    and due: "arp_due (env_time env) (cache sr) hop \<longleftrightarrow> 1 \<le> env_time env - req_sent r" and ent: "entries c = entries (cache sr)"
    by (rule queue_fresh [OF q ne cwf, of "env_time env"]) (use fresh in \<open>auto simp: no_expired_def list_all_iff\<close>)
  have own: "sr_get_interface ?s (pkt_iface (queued_packet ?f (if_name i))) = Some i"
    using route_own_iface [OF route] sr_get_interface_cong [of ?s sr] by simp
  have r': "map_of (requests (cache ?s)) a = Some r" using r(1) by simp
  obtain sr' where h: "handle_arpreq env (Suc d) ?s a = Inr sr'" and cfg: "same_config ?s sr'"
    and e: "entries (cache sr') = entries (cache ?s)" and pend: "pending (cache sr') = pending (cache ?s)"
    and out: "sock_out sr' = sock_out ?s @ (if 1 \<le> env_time env - req_sent r
       then [packet_message (arp_query i (req_ip r)) (if_name i)] else [])"
    by (rule handle_fresh_effect [OF mem s r' r(2,4) own])
  obtain sr'' where "handle_arpreq env (Suc d) ?s a = Inr sr''" "progress (env_time env) (\<lambda>_. 0) 0 UNIV (cache ?s) (cache sr'')"
    by (rule handle_fresh_returns [OF mem s r' r(2)])
  then have p2: "progress (env_time env) (\<lambda>_. 0) 0 UNIV c (cache sr')" using h by simp
  have p1: "progress (env_time env) (\<lambda>_. 0) 0 UNIV (cache sr) c" using queuereq_progress [OF q cwf ne UNIV_I] by blast
  have ret: "route_and_send env (Suc d) sr frame = Inr (0, sr')"
    using route_and_send_eq [OF len ifs, of "handle_arpreq env (Suc d)"] route q h by (simp add: route_and_send_def del: handle_arpreq.simps)
  then have "arpcache_wf (cache sr')"
    using route_and_send_keeps [of 34 sr frame env "Suc d"] wf len by (simp add: keeps_Inr sr_wf_def)
  then have "no_expired (env_time env) sr'"
    using no_expired_progress [OF fresh progress_trans [OF p1 p2 cwf] cwf] by simp
  then have "queued_for env sr hop i ?f sr'"
    using cfg e pend out r(3) due ent pending_queuereq [OF q cwf ne]
    by (simp add: queued_for_def same_config_def)
  with ret show thesis by (rule that)
qed

section \<open>What the router owes to an IP frame\<close>

datatype ip_action = Discard | Answer_Echo | Time_Exceeded | Net_Unreachable | Forward u32 sr_if

definition own_address :: "sr_instance \<Rightarrow> u32 \<Rightarrow> bool" where
  "own_address sr ip \<longleftrightarrow> ip \<in> if_ip ` set (if_list sr)"

definition ip_action_for :: "sr_instance \<Rightarrow> bytes \<Rightarrow> ip_action" where
  "ip_action_for sr packet =
     (if \<not> ip_valid packet then Discard
      else if own_address sr (ip_dst (frame_ip packet)) then
        (if echo_request_valid packet then Answer_Echo else Discard)
      else if ip_ttl (frame_ip packet) \<le> 1 then Time_Exceeded
      else case route_for sr (ip_dst (frame_ip packet)) of None \<Rightarrow> Net_Unreachable | Some (hop, i) \<Rightarrow> Forward hop i)"

definition perform :: "sr_env \<Rightarrow> nat \<Rightarrow> sr_instance \<Rightarrow> bytes \<Rightarrow> bytes \<Rightarrow> ip_action \<Rightarrow> fault + sr_instance" where
  "perform env depth sr packet interface act =
     (case act of Discard \<Rightarrow> Inr sr
      | Answer_Echo \<Rightarrow> map_sum id snd (route_and_send env depth sr (echo_reply packet))
      | Time_Exceeded \<Rightarrow> send_icmp_error env depth sr 11 0 packet (in_iface_ip sr interface)
      | Net_Unreachable \<Rightarrow> send_icmp_error env depth sr 3 0 packet (in_iface_ip sr interface)
      | Forward hop i \<Rightarrow> map_sum id snd (route_and_send env depth sr (ttl_decremented packet)))"

lemma find_iface_own: "find_iface_for_ip sr ip = None \<longleftrightarrow> \<not> own_address sr ip"
  by (auto simp: find_iface_for_ip_def iface_for_ip_walk_find find_None_iff own_address_def)

lemma map_sum_snd: "(case x of Inl f \<Rightarrow> Inl f | Inr (rc, sr') \<Rightarrow> Inr sr') = map_sum id snd x"
  by (cases x) auto

lemma local_ip_eq:
  assumes mem: "mem_ok env" and v: "ip_valid packet" and len: "length packet \<le> 131072"
  shows "handle_local_ip env depth sr packet (frame_ip packet) (header_len packet) =
    (if echo_request_valid packet then map_sum id snd (route_and_send env depth sr (echo_reply packet)) else Inr sr)"
proof (cases "ip_p (frame_ip packet) = ip_protocol_icmp \<and> 14 + header_len packet + 8 \<le> length packet")
  case False
  then show ?thesis by (auto simp: handle_local_ip_def echo_request_valid_def Let_def layout)
next
  case True
  let ?off = "14 + header_len packet"
  have n: "34 \<le> length packet" "20 \<le> header_len packet" using v by (simp_all add: ip_valid_def)
  have icmp: "get_t08 packet ?off = Inr (icmp_at packet ?off)"
    using t08.get_in [of ?off packet] True by (simp add: icmp_at_def layout)
  have z: "le16 0 = [0, 0]" by (simp add: le16_def)
  have "patch packet ?off (t08_hdr_bytes ((icmp_at packet ?off)\<lparr>icmp_sum := 0\<rparr>)) = patch packet (?off + 2) [0, 0]"
    using patch_t08 [where off = ?off and buf = packet and icmp = "icmp_at packet ?off" and s = 0]
      t08.put_get [OF icmp] True by (simp add: z)
  then have put: "put_t08 packet ?off ((icmp_at packet ?off)\<lparr>icmp_sum := 0\<rparr>) = Inr (patch packet (?off + 2) [0, 0])"
    using True by (simp add: put_struct_def)
  have dr: "drop ?off (patch packet (?off + 2) [0, 0]) = patch (drop ?off packet) 2 [0, 0]"
    using True by (intro drop_patch) simp
  have dl: "length (drop ?off packet) \<le> 131072" "2 + 2 \<le> length (drop ?off packet)"
    unfolding length_drop using True len by linarith+
  have "icmp_sum (icmp_at packet ?off) = field16 (drop ?off packet) 2"
    using True by (simp add: icmp_at_def t08_hdr_of_def ld16_def field16_def)
  then have test: "icmp_sum (icmp_at packet ?off) = cksum (drop ?off (patch packet (?off + 2) [0, 0])) \<longleftrightarrow>
      sum_valid (drop ?off packet) 2"
    unfolding dr using checksum_test [of "drop ?off packet" 2, OF dl(1) _ dl(2)] by simp
  have "send_icmp_echo_reply env depth sr packet = map_sum id snd (route_and_send env depth sr (echo_reply packet))"
    using echo_reply_frame_eq [OF n] True mem by (simp add: send_icmp_echo_reply_def map_sum_snd mem_ok_def)
  then show ?thesis
    using True icmp put test by (auto simp: handle_local_ip_def echo_request_valid_def Let_def layout)
qed

lemma handle_ip_eq:
  assumes mem: "mem_ok env" and wf: "sr_wf 34 sr" and len: "length packet \<le> 131072"
  shows "handle_ip_packet env depth sr packet interface = perform env depth sr packet interface (ip_action_for sr packet)"
proof (cases "34 \<le> length packet \<and> 20 \<le> header_len packet \<and> 14 + header_len packet \<le> length packet \<and>
    header_len packet \<le> unat (ntohs (ip_len (frame_ip packet)))")
  case False
  then have "\<not> ip_valid packet" by (auto simp: ip_valid_def)
  with False show ?thesis
    by (auto simp: handle_ip_packet_def ip_action_for_def perform_def get_ip_frame Let_def header_len_def [symmetric] layout)
next
  case True
  let ?n = "header_len packet" and ?ip = "frame_ip packet"
  have "handle_ip_packet env depth sr packet interface =
      (if sum_valid (header_region packet) 10
       then (case find_iface_for_ip sr (ip_dst ?ip) of Some _ \<Rightarrow> handle_local_ip env depth sr packet ?ip ?n
             | None \<Rightarrow> forward_ip env depth sr packet interface ?ip ?n)
       else Inr sr)"
  proof -
    have g: "\<not> length packet < sizeof_eth + sizeof_ip" "\<not> ?n < sizeof_ip" "\<not> length packet < sizeof_eth + ?n"
      "\<not> unat (ntohs (ip_len ?ip)) < ?n" using True by (simp_all add: layout)
    have l: "34 \<le> length packet" "20 \<le> ?n" "14 + ?n \<le> length packet" using True by simp_all
    from get_ip_frame(1) [OF l(1)] g show ?thesis
      by (simp add: handle_ip_packet_def Let_def header_len_def [symmetric] ip_test [OF l])
  qed
  moreover have "forward_ip env depth sr packet interface ?ip ?n =
      (if ip_ttl ?ip \<le> 1 then send_icmp_error env depth sr 11 0 packet (in_iface_ip sr interface)
       else case route_for sr (ip_dst ?ip) of None \<Rightarrow> send_icmp_error env depth sr 3 0 packet (in_iface_ip sr interface)
         | Some (hop, i) \<Rightarrow> map_sum id snd (route_and_send env depth sr (ttl_decremented packet)))" if v: "ip_valid packet"
  proof -
    have t: "34 \<le> length (ttl_decremented packet)" "ip_dst (frame_ip (ttl_decremented packet)) = ip_dst ?ip"
      using ttl_decremented_spec [OF v] True by auto
    have put: "put_ip_with_sum packet sizeof_eth ?n (?ip\<lparr>ip_ttl := ip_ttl ?ip - 1\<rparr>) = Inr (ttl_decremented packet)"
      using True by (simp add: put_stamped ttl_decremented_def)
    show ?thesis
      using put mem route_and_send_eq [OF t(1), of sr "handle_arpreq env depth" env] wf
      by (auto simp: forward_ip_def mem_ok_def route_and_send_def t(2) sr_wf_def split: option.splits sum.splits)
  qed
  moreover have v: "ip_valid packet \<longleftrightarrow> sum_valid (header_region packet) 10" using True by (auto simp: ip_valid_def)
  moreover have own: "own_address sr (ip_dst ?ip) \<longleftrightarrow> find_iface_for_ip sr (ip_dst ?ip) \<noteq> None" by (simp add: find_iface_own)
  ultimately show ?thesis
    using local_ip_eq [OF mem _ len, of depth sr]
    by (cases "find_iface_for_ip sr (ip_dst ?ip)") (auto simp: ip_action_for_def perform_def split: option.splits)
qed

lemma dispatch_ip:
  assumes "ethertype packet = Inr ethertype_ip"
  shows "sr_handlepacket env depth sr packet interface = handle_ip_packet env depth sr packet interface"
proof -
  have "14 \<le> length packet"
    using assms eth.get_wf [of packet 0] by (auto simp: ethertype_def layout split: sum.splits)
  then show ?thesis using assms by (simp add: sr_handlepacket_def layout protocol_consts)
qed

text \<open>
  C1.  The handlers of received frames implement the decision of a router: for every IP frame
  \<^verbatim>\<open>sr_handlepacket\<close> discards it if its header is not valid (too short, lengths inconsistent, or the
  sum of its words not a multiple of \<open>65535\<close>), answers it if it is a valid echo request for one of
  the router's addresses, and otherwise sends time exceeded, sends net unreachable or forwards the
  frame with its TTL decremented and its checksum recomputed, in this order of precedence.
\<close>

theorem sr_handlepacket_refines_decision:
  assumes "mem_ok env" "sr_wf 34 sr" "length packet \<le> 131072" "ethertype packet = Inr ethertype_ip"
  shows "sr_handlepacket env depth sr packet interface = perform env depth sr packet interface (ip_action_for sr packet)"
  using handle_ip_eq [OF assms(1-3)] dispatch_ip [OF assms(4)] by simp

lemma sample_frame_eq:
  "sample_frame src dst ttl = (replicate 12 0 @ le16 (htons ethertype_ip)) @ ip_hdr_bytes (stamp_ip \<lparr>ip_hl = 5, ip_v = 4, ip_tos = 0,
     ip_len = htons 28, ip_id = 0, ip_off = 0, ip_ttl = ttl, ip_p = 17, ip_sum = 0, ip_src = src, ip_dst = dst\<rparr>) @ replicate 8 0"
  by (simp add: sample_frame_def)

lemma sample_frame_valid: "ip_valid (sample_frame src dst ttl)"
  unfolding sample_frame_eq by (rule ip_valid_image) simp_all

lemma sample_frame_type: "ethertype (sample_frame src dst ttl) = Inr ethertype_ip"
proof -
  have "get_eth (sample_frame src dst ttl) 0 = Inr (eth_hdr_of (take 14 (sample_frame src dst ttl)))"
    using eth.get_in [of 0 "sample_frame src dst ttl"] by (simp add: layout)
  then show ?thesis by (simp add: ethertype_def eth_hdr_of_def sample_frame_def ld16_def nth_append le16_def)
qed

lemma example_not_own: "\<not> own_address (example_router rs) server1" "\<not> own_address (example_router rs) 7"
  by (simp_all add: own_address_def eth1_def eth2_def eth3_def example_addrs)

lemma sample_forward: "ip_action_for (example_router rs) (sample_frame client server1 9) = Forward server1 eth1"
  by (simp add: ip_action_for_def sample_frame_valid sample_frame_ip example_not_own word_le_nat_alt)

lemma sample_time_exceeded: "ip_action_for (example_router rs) (sample_frame client server1 1) = Time_Exceeded"
  by (simp add: ip_action_for_def sample_frame_valid sample_frame_ip example_not_own)

lemma example_router_34: "sr_wf 34 (example_router [])" "no_expired now (example_router [])"
  by (simp_all add: example_wf no_expired_def)

lemma example_nothing_pending: "pending (cache (example_router [])) ip = None"
  by (simp add: pending_def)

theorem sr_handlepacket_refines_decision_witness:
  "sr_handlepacket (good_env 10) 1 (example_router []) (sample_frame client server1 9) (if_named ''eth3'') =
     perform (good_env 10) 1 (example_router []) (sample_frame client server1 9) (if_named ''eth3'') (Forward server1 eth1)"
  using sr_handlepacket_refines_decision [OF mem_ok_good_env example_router_34(1) _ sample_frame_type]
  by (simp add: sample_forward)

section \<open>Forwarding\<close>

lemma rewrite_l2_frame:
  assumes "34 \<le> length f" "length mac = 6"
  shows "take 6 (rewrite_l2 mac f) = take 6 f" "take 6 (drop 6 (rewrite_l2 mac f)) = mac"
    "n \<ge> 14 \<Longrightarrow> drop n (rewrite_l2 mac f) = drop n f" "ip_valid (rewrite_l2 mac f) = ip_valid f"
proof -
  have d: "drop 14 (rewrite_l2 mac f) = drop 14 f" using assms by (simp add: rewrite_l2_def)
  show "take 6 (rewrite_l2 mac f) = take 6 f" "take 6 (drop 6 (rewrite_l2 mac f)) = mac"
    using assms by (simp_all add: rewrite_l2_def)
  show "n \<ge> 14 \<Longrightarrow> drop n (rewrite_l2 mac f) = drop n f"
    using arg_cong [OF d, of "drop (n - 14)"] by simp
  show "ip_valid (rewrite_l2 mac f) = ip_valid f"
    using d assms by (simp add: ip_valid_def header_region_def header_len_def frame_ip_def length_rewrite_l2)
qed

text \<open>
  What an error quotes: the beginning of the IP packet, at least 28 bytes of it, and for a packet without IP
  options exactly its header and the first 8 bytes of its payload.
\<close>

definition icmp_quote :: "bytes \<Rightarrow> bytes" where
  "icmp_quote packet = take (header_len packet) (drop 14 packet) @ take 8 (drop (14 + header_len packet) packet)"

definition quotes :: "bytes \<Rightarrow> bytes \<Rightarrow> bool" where
  "quotes f packet \<longleftrightarrow> 70 \<le> length f \<and> drop 42 f = take (length f - 42) (drop 14 packet) \<and>
     (header_len packet = 20 \<longrightarrow> drop 42 f = icmp_quote packet)"

lemma quotesI: "length f = 70 \<Longrightarrow> drop 42 f = take 28 (drop 14 packet) \<Longrightarrow> quotes f packet"
  using take_add [of 20 8 "drop 14 packet"] by (simp add: quotes_def icmp_quote_def add.commute)

text \<open>An ICMP error as it is queued: the fields a receiver looks at.\<close>

lemma routed_error:
  fixes type code :: u8 and src dst :: u32
  assumes "length data = 28" "length mac = 6"
  defines "f \<equiv> rewrite_l2 mac (error_image type code src dst data)"
  shows "length f = 70" "take 6 (drop 6 f) = mac" "ip_valid f" "ip_src (frame_ip f) = src" "ip_dst (frame_ip f) = dst"
    "ip_ttl (frame_ip f) = 255" "ip_p (frame_ip f) = 1" "f ! 34 = type" "f ! 35 = code" "sum_valid (drop 34 f) 2" "drop 42 f = data"
proof -
  note e = error_image_spec [OF assms(1), of type code src dst]
  have len: "34 \<le> length (error_image type code src dst data)" using e(1) by simp
  note l2 = rewrite_l2_frame [OF len assms(2), folded f_def]
  show lf: "length f = 70" using length_rewrite_l2 [OF len assms(2)] e(1) by (simp add: f_def)
  show "take 6 (drop 6 f) = mac" "ip_valid f" using l2(2,4) e(2) by simp_all
  have "frame_ip f = stamp_ip (error_ip_hdr src dst)" using frame_ip_rewrite_l2 [OF len assms(2)] e(3) by (simp add: f_def)
  then show "ip_src (frame_ip f) = src" "ip_dst (frame_ip f) = dst" "ip_ttl (frame_ip f) = 255" "ip_p (frame_ip f) = 1"
    by (simp_all add: stamp_ip_def error_ip_hdr_def ip_protocol_icmp_def INIT_TTL_def)
  have f34: "drop 34 f = drop 34 (error_image type code src dst data)" and f42: "drop 42 f = drop 42 (error_image type code src dst data)"
    by (rule l2(3), simp)+
  have nth: "f ! (34 + k) = drop 34 (error_image type code src dst data) ! k" if "k < 36" for k
    using arg_cong [OF f34, of "\<lambda>x. x ! k"] that lf by (simp add: nth_drop)
  show "f ! 34 = type" "f ! 35 = code" using nth [of 0] nth [of 1] by (simp_all add: e(4) t11_hdr_bytes_def stamp_t11_def)
  show "drop 42 f = data" using arg_cong [OF e(4), of "drop 8"] by (simp add: f42 t11_hdr_bytes_def stamp_t11_def)
  show "sum_valid (drop 34 f) 2" using e(5) by (simp add: f34)
qed

lemma forward_effect:
  assumes "mem_ok env" "sr_wf 34 sr" "no_expired (env_time env) sr" "1 \<le> depth"
    and "length packet \<le> 131072" "ethertype packet = Inr ethertype_ip" "ip_action_for sr packet = Forward hop i"
  shows "\<exists>sr' f s. sr_handlepacket env depth sr packet interface = Inr sr' \<and> queued_for env sr hop i f sr' \<and>
    length f = length packet \<and> take 6 f = take 6 packet \<and> take 6 (drop 6 f) = if_addr i \<and>
    frame_ip f = (frame_ip packet)\<lparr>ip_ttl := ip_ttl (frame_ip packet) - 1, ip_sum := s\<rparr> \<and>
    ip_valid f \<and> drop 34 f = drop 34 packet"
proof -
  obtain d where d: "depth = Suc d" using assms(4) by (cases depth) auto
  have v: "ip_valid packet" and r: "route_for sr (ip_dst (frame_ip packet)) = Some (hop, i)"
    using assms(7) by (auto simp: ip_action_for_def split: if_splits option.splits)
  note t = ttl_decremented_spec [OF v]
  obtain s where s: "frame_ip (ttl_decremented packet) = (frame_ip packet)\<lparr>ip_ttl := ip_ttl (frame_ip packet) - 1, ip_sum := s\<rparr>"
    using t(4) by blast
  have len: "34 \<le> length (ttl_decremented packet)" using v t(1) by (simp add: ip_valid_def)
  have mac: "length (if_addr i) = 6" using sr_wf_if [OF assms(2) route_for_iface [OF r]] by simp
  have r': "route_for sr (ip_dst (frame_ip (ttl_decremented packet))) = Some (hop, i)" using r s by simp
  obtain sr' where "route_and_send env depth sr (ttl_decremented packet) = Inr (0, sr')"
    and q: "queued_for env sr hop i (rewrite_l2 (if_addr i) (ttl_decremented packet)) sr'"
    using route_effect [OF assms(1-3) len r'] unfolding d by blast
  then have "sr_handlepacket env depth sr packet interface = Inr sr'"
    using handle_ip_eq [OF assms(1,2,5)] dispatch_ip [OF assms(6)] assms(7) by (simp add: perform_def)
  moreover have "take 6 (ttl_decremented packet) = take 6 packet"
    using arg_cong [OF t(2), of "take 6"] by simp
  ultimately show ?thesis
    using q s t(1,3,5) rewrite_l2_frame [OF len mac] length_rewrite_l2 [OF len mac] frame_ip_rewrite_l2 [OF len mac] by auto
qed

text \<open>
  C2.  A frame to be forwarded is queued for the next hop of its route, exactly once and ahead of the
  frames already waiting for that hop, with the TTL one less, a valid header checksum, the source
  hardware address of the outgoing interface and every other byte after the Ethernet header
  unchanged; an ARP request for the hop goes out unless one was sent within the last second, and
  nothing else changes.
\<close>

theorem forwarding_queues_frame:
  assumes "mem_ok env" "sr_wf 34 sr" "no_expired (env_time env) sr" "1 \<le> depth"
    and "length packet \<le> 131072" "ethertype packet = Inr ethertype_ip" "ip_action_for sr packet = Forward hop i"
  shows "\<exists>sr' f s. sr_handlepacket env depth sr packet interface = Inr sr' \<and> queued_for env sr hop i f sr' \<and>
    length f = length packet \<and> take 6 f = take 6 packet \<and> take 6 (drop 6 f) = if_addr i \<and>
    frame_ip f = (frame_ip packet)\<lparr>ip_ttl := ip_ttl (frame_ip packet) - 1, ip_sum := s\<rparr> \<and>
    ip_valid f \<and> drop 34 f = drop 34 packet"
  using assms by (rule forward_effect)

theorem forwarding_queues_frame_witness:
  "\<exists>sr' f. sr_handlepacket (good_env 10) 1 (example_router []) (sample_frame client server1 9) (if_named ''eth3'') = Inr sr' \<and>
     pending (cache sr') server1 = Some [queued_packet f (if_name eth1)] \<and> ip_ttl (frame_ip f) = 8 \<and> ip_valid f \<and>
     sock_out sr' = [packet_message (arp_query eth1 server1) (if_name eth1)]"
proof -
  have a: "ip_action_for (example_router []) (sample_frame client server1 9) = Forward server1 eth1" by (rule sample_forward)
  have l: "length (sample_frame client server1 9) \<le> 131072" by simp
  from forwarding_queues_frame [where env = "good_env 10" and interface = "if_named ''eth3''",
      OF mem_ok_good_env example_router_34 order_refl l sample_frame_type a]
  obtain sr' f s where "sr_handlepacket (good_env 10) 1 (example_router []) (sample_frame client server1 9) (if_named ''eth3'') = Inr sr'"
    "queued_for (good_env 10) (example_router []) server1 eth1 f sr'" "ip_valid f"
    "frame_ip f = (frame_ip (sample_frame client server1 9))\<lparr>ip_ttl := ip_ttl (frame_ip (sample_frame client server1 9)) - 1, ip_sum := s\<rparr>"
    by blast
  then show ?thesis by (auto simp: queued_for_def example_nothing_pending arp_due_def sample_frame_ip)
qed

section \<open>Headers with a zero checksum\<close>

text \<open>
  C40.  A frame whose IP checksum field is zero is always dropped, because the checksum routine never
  returns zero, even when zero is the checksum a standard sender computes for the header.
\<close>

theorem zero_checksum_dropped:
  assumes "ethertype packet = Inr ethertype_ip" "34 \<le> length packet" "ip_sum (frame_ip packet) = 0"
  shows "sr_handlepacket env depth sr packet interface = Inr sr"
proof -
  let ?n = "header_len packet"
  have "handle_ip_packet env depth sr packet interface = Inr sr"
  proof (cases "20 \<le> ?n \<and> 14 + ?n \<le> length packet")
    case True
    have "\<not> sum_valid (header_region packet) 10"
      using header_sum_test [of packet] True assms(3) cksum_not_zero by metis
    moreover have l: "34 \<le> length packet" "20 \<le> ?n" "14 + ?n \<le> length packet" using True assms(2) by simp_all
    ultimately show ?thesis
      using get_ip_frame(1) [OF assms(2)]
      by (simp add: handle_ip_packet_def Let_def header_len_def [symmetric] ip_test [OF l])
  next
    case False
    then show ?thesis
      using get_ip_frame(1) [OF assms(2)]
      by (auto simp: handle_ip_packet_def Let_def header_len_def [symmetric] sizeof_ip_def) (simp_all add: sizeof_eth_def)
  qed
  then show ?thesis using dispatch_ip [OF assms(1)] by simp
qed

definition zero_sum_frame :: bytes where
  "zero_sum_frame = (replicate 12 0 @ le16 (htons ethertype_ip)) @
     [0x45, 0, 0, 0x1c, 0xe3, 0xc3, 0, 0, 9, 17, 0, 0, 10, 0, 1, 100, 192, 168, 2, 2] @ replicate 8 0"

theorem zero_checksum_dropped_witness:
  "be16_sum (header_region zero_sum_frame) mod 65535 = 0 \<and> ip_dst (frame_ip zero_sum_frame) = server1 \<and>
   sr_handlepacket (good_env 10) 1 (example_router []) zero_sum_frame (if_named ''eth3'') = Inr (example_router [])"
proof -
  let ?h = "[0x45, 0, 0, 0x1c, 0xe3, 0xc3, 0, 0, 9, 17, 0, 0, 10, 0, 1, 100, 192, 168, 2, 2] :: bytes"
  have len: "length zero_sum_frame = 42" by (simp add: zero_sum_frame_def)
  have ip: "frame_ip zero_sum_frame = ip_hdr_of ?h" by (simp add: frame_ip_def zero_sum_frame_def)
  have f: "ip_sum (ip_hdr_of ?h) = 0" "ip_dst (ip_hdr_of ?h) = server1" "unat (ip_hl (ip_hdr_of ?h)) = 5"
    by (simp_all add: ip_hdr_of_def ld16_def ld32_def of_le16_def of_le32_def server1_def)
  have "header_region zero_sum_frame = ?h" by (simp add: header_region_def header_len_def ip f(3)) (simp add: zero_sum_frame_def)
  moreover have "get_eth zero_sum_frame 0 = Inr (eth_hdr_of (take 14 zero_sum_frame))"
    using eth.get_in [of 0 zero_sum_frame] len by (simp add: layout)
  then have "ethertype zero_sum_frame = Inr ethertype_ip"
    by (simp add: ethertype_def eth_hdr_of_def zero_sum_frame_def ld16_def nth_append le16_def)
  ultimately show ?thesis using zero_checksum_dropped [of zero_sum_frame] len ip f(1,2) by simp
qed

section \<open>Retries\<close>

text \<open>
  As long as a request is not expired, handling it sends at most one ARP request per second: within
  a second of the last one nothing happens at all; afterwards exactly one broadcast for the next
  hop leaves through the interface of the frame queued last, and the request records the time
  and one more attempt.
\<close>

lemma retry_once_a_second:
  assumes "mem_ok env" "sr_wf 34 sr" "1 \<le> depth" "map_of (requests (cache sr)) a = Some r"
    and "req_times_sent r < 5" "req_packets r = p # ps" "sr_get_interface sr (pkt_iface p) = Some i"
  shows "\<exists>sr'. handle_arpreq env depth sr a = Inr sr' \<and>
    (if env_time env - req_sent r < 1 then sr' = sr
     else sock_out sr' = sock_out sr @ [packet_message (arp_query i (req_ip r)) (if_name i)] \<and>
       map_of (requests (cache sr')) a = Some (r\<lparr>req_sent := env_time env, req_times_sent := req_times_sent r + 1\<rparr>))"
proof -
  obtain d where d: "depth = Suc d" using assms(3) by (cases depth) auto
  have few: "\<not> 5 \<le> req_times_sent r" using assms(5) by simp
  show ?thesis
  proof (cases "env_time env - req_sent r < 1")
    case True
    then show ?thesis using assms(4) d by (simp add: handle_arpreq_body_def deref_req_def)
  next
    case False
    then have due: "1 \<le> env_time env - req_sent r" by simp
    obtain sr' where s: "handle_arpreq env (Suc d) sr a = Inr sr'"
      "cache sr' = (cache sr)\<lparr>requests := update_req (requests (cache sr)) a
         (\<lambda>r. r\<lparr>req_sent := env_time env, req_times_sent := req_times_sent r + 1\<rparr>)\<rparr>"
      "sock_out sr' = sock_out sr @ [packet_message (arp_query i (req_ip r)) (if_name i)]"
      by (rule handle_due [OF assms(1,2,4) due few assms(6,7)])
    have "distinct (map fst (requests (cache sr)))" using assms(2) by (simp add: sr_wf_def arpcache_wf_def)
    then show ?thesis using False s d assms(4) by (simp add: map_of_update_req del: handle_arpreq.simps)
  qed
qed

lemma retry_once_a_second_witness:
  "\<exists>sr'. handle_arpreq (good_env 10) 1
       (example_router [(0, sample_req server1 8 2 [\<lparr>pkt_buf = sample_frame client server1 8, pkt_iface = if_named ''eth1''\<rparr>])]) 0 = Inr sr' \<and>
     sock_out sr' = [packet_message (arp_query eth1 server1) (if_name eth1)]"
proof -
  let ?r = "sample_req server1 8 2 [\<lparr>pkt_buf = sample_frame client server1 8, pkt_iface = if_named ''eth1''\<rparr>]"
  have wf: "sr_wf 34 (example_router [(0, ?r)])" by (simp add: example_wf)
  have 1: "map_of (requests (cache (example_router [(0, ?r)]))) 0 = Some ?r" by simp
  have 2: "req_packets ?r = \<lparr>pkt_buf = sample_frame client server1 8, pkt_iface = if_named ''eth1''\<rparr> # []" "req_times_sent ?r < 5"
    "req_sent ?r = 8" by (simp_all add: sample_req_def)
  show ?thesis
    using retry_once_a_second [OF mem_ok_good_env wf order_refl 1 2(2,1), of eth1 10] 2(3)
    by (auto simp del: handle_arpreq.simps)
qed

end
