(* ===== verification/SR_Icmp.thy ===== *)
theory SR_Icmp
  imports SR_Datapath
begin

text \<open>
  The ICMP messages the router originates: echo replies, time exceeded and net unreachable, and the
  over-read of the error path on frames too short to quote.
\<close>

section \<open>Echo replies\<close>

text \<open>
  C23.  A valid echo request for one of the router's addresses is answered: the reply is queued for the next
  hop towards the sender with source and destination exchanged, TTL 255, type and code 0, the
  identifier, sequence number and data of the request, and valid IP and ICMP checksums.  Without
  a route to the sender nothing happens.
\<close>

theorem echo_request_answered:
  assumes "mem_ok env" "sr_wf 34 sr" "no_expired (env_time env) sr" "1 \<le> depth"
    and "length packet \<le> 131072" "ethertype packet = Inr ethertype_ip" "ip_action_for sr packet = Answer_Echo"
  shows "case route_for sr (ip_src (frame_ip packet)) of
      None \<Rightarrow> sr_handlepacket env depth sr packet interface = Inr sr
    | Some (hop, i) \<Rightarrow>
        (\<exists>sr' f s t. sr_handlepacket env depth sr packet interface = Inr sr' \<and> queued_for env sr hop i f sr' \<and>
           length f = length packet \<and>
           frame_ip f = (frame_ip packet)\<lparr>ip_src := ip_dst (frame_ip packet), ip_dst := ip_src (frame_ip packet),
             ip_ttl := 255, ip_sum := s\<rparr> \<and> ip_valid f \<and>
           icmp_at f (14 + header_len packet) =
             (icmp_at packet (14 + header_len packet))\<lparr>icmp_type := 0, icmp_code := 0, icmp_sum := t\<rparr> \<and>
           sum_valid (drop (14 + header_len packet) f) 2 \<and>
           drop (14 + header_len packet + 8) f = drop (14 + header_len packet + 8) packet)"
proof -
  obtain d where d: "depth = Suc d" using assms(4) by (cases depth) auto
  have v: "ip_valid packet" and e: "14 + header_len packet + 8 \<le> length packet"
    using assms(7) by (auto simp: ip_action_for_def echo_request_valid_def split: if_splits option.splits)
  let ?off = "14 + header_len packet" and ?r = "echo_reply packet"
  note r = echo_reply_spec [OF v e assms(5)]
  obtain s where s: "frame_ip ?r = (frame_ip packet)\<lparr>ip_src := ip_dst (frame_ip packet),
      ip_dst := ip_src (frame_ip packet), ip_ttl := INIT_TTL, ip_sum := s\<rparr>" using r(4) by blast
  have len: "34 \<le> length ?r" using v r(1) by (simp add: ip_valid_def)
  have off: "14 \<le> ?off" "14 \<le> ?off + 8" by simp_all
  have top: "sr_handlepacket env depth sr packet interface = map_sum id snd (route_and_send env depth sr ?r)"
    using handle_ip_eq [OF assms(1,2,5)] dispatch_ip [OF assms(6)] assms(7) by (simp add: perform_def)
  show ?thesis
  proof (cases "route_for sr (ip_src (frame_ip packet))")
    case None
    have "list_all if_wf (if_list sr)" using assms(2) by (simp add: sr_wf_def)
    from route_and_send_eq [OF len this, of "handle_arpreq env depth" env] None s top show ?thesis
      by (simp add: route_and_send_def)
  next
    case (Some x)
    obtain hop i where x: "x = (hop, i)" by fastforce
    have mac: "length (if_addr i) = 6" using sr_wf_if [OF assms(2) route_for_iface] Some x by simp
    have "route_for sr (ip_dst (frame_ip ?r)) = Some (hop, i)" using Some x s by simp
    from route_effect [OF assms(1-3) len this] obtain sr' where ret: "route_and_send env depth sr ?r = Inr (0, sr')"
      and q: "queued_for env sr hop i (rewrite_l2 (if_addr i) ?r) sr'" unfolding d by blast
    note l2 = rewrite_l2_frame [OF len mac]
    let ?f = "rewrite_l2 (if_addr i) ?r"
    obtain t where t: "icmp_at ?r ?off = (icmp_at packet ?off)\<lparr>icmp_type := 0, icmp_code := 0, icmp_sum := t\<rparr>"
      using r(6) by blast
    have "sr_handlepacket env depth sr packet interface = Inr sr'" using top ret by simp
    moreover have "length ?f = length packet" using length_rewrite_l2 [OF len mac] r(1) by simp
    moreover have "frame_ip ?f = (frame_ip packet)\<lparr>ip_src := ip_dst (frame_ip packet),
        ip_dst := ip_src (frame_ip packet), ip_ttl := 255, ip_sum := s\<rparr>" "ip_valid ?f"
      using frame_ip_rewrite_l2 [OF len mac] s l2(4) r(5) by (simp_all add: INIT_TTL_def)
    moreover have "icmp_at ?f ?off = (icmp_at packet ?off)\<lparr>icmp_type := 0, icmp_code := 0, icmp_sum := t\<rparr>"
      unfolding icmp_at_def l2(3) [OF off(1)] using t by (simp add: icmp_at_def)
    moreover have "sum_valid (drop ?off ?f) 2" "drop (?off + 8) ?f = drop (?off + 8) packet"
      unfolding l2(3) [OF off(1)] l2(3) [OF off(2)] by (rule r(7), rule r(3))
    ultimately show ?thesis using q Some x by (simp only: option.case prod.case) blast
  qed
qed

definition sample_ping :: "u32 \<Rightarrow> u32 \<Rightarrow> bytes" where
  "sample_ping src dst = (replicate 12 0 @ le16 (htons ethertype_ip)) @
     ip_hdr_bytes (stamp_ip \<lparr>ip_hl = 5, ip_v = 4, ip_tos = 0, ip_len = htons 29, ip_id = 0, ip_off = 0, ip_ttl = 64,
       ip_p = ip_protocol_icmp, ip_sum = 0, ip_src = src, ip_dst = dst\<rparr>) @
     patch [8, 0, 0, 0, 0x12, 0x34, 0, 1, 0x61] 2 (le16 (cksum [8, 0, 0, 0, 0x12, 0x34, 0, 1, 0x61]))"

lemma sample_ping_facts:
  "length (sample_ping src dst) = 43" "ip_valid (sample_ping src dst)" "ethertype (sample_ping src dst) = Inr ethertype_ip"
  "ip_src (frame_ip (sample_ping src dst)) = src" "ip_dst (frame_ip (sample_ping src dst)) = dst"
  "header_len (sample_ping src dst) = 20" "echo_request_valid (sample_ping src dst)"
proof -
  let ?p = "sample_ping src dst"
  show len: "length ?p = 43" by (simp add: sample_ping_def)
  show "ip_valid ?p" unfolding sample_ping_def by (rule ip_valid_image) simp_all
  have ip: "frame_ip ?p = stamp_ip \<lparr>ip_hl = 5, ip_v = 4, ip_tos = 0, ip_len = htons 29, ip_id = 0, ip_off = 0, ip_ttl = 64,
       ip_p = ip_protocol_icmp, ip_sum = 0, ip_src = src, ip_dst = dst\<rparr>"
    unfolding sample_ping_def by (rule ip_valid_image) simp_all
  show "ip_src (frame_ip ?p) = src" "ip_dst (frame_ip ?p) = dst" and hl: "header_len ?p = 20"
    by (simp_all add: ip header_len_def) (simp_all add: stamp_ip_def)
  have "get_eth ?p 0 = Inr (eth_hdr_of (take 14 ?p))" using eth.get_in [of 0 ?p] len by (simp add: layout)
  then show "ethertype ?p = Inr ethertype_ip"
    by (simp add: ethertype_def eth_hdr_of_def sample_ping_def ld16_def nth_append le16_def)
  let ?d = "[8, 0, 0, 0, 0x12, 0x34, 0, 1, 0x61] :: bytes"
  have d: "drop 34 ?p = patch ?d 2 (le16 (cksum ?d))" by (simp add: sample_ping_def)
  moreover have "patch ?d 2 [0, 0] = ?d" by (simp add: patch_def)
  ultimately have "sum_valid (drop 34 ?p) 2" using sum_valid_stamped [of ?d 2] by simp
  moreover have "icmp_type (icmp_at ?p 34) = 8" by (simp add: icmp_at_def t08_hdr_of_def d patch_def)
  moreover have "ip_p (frame_ip ?p) = ip_protocol_icmp" by (simp add: ip) (simp add: stamp_ip_def)
  ultimately show "echo_request_valid ?p" using hl len by (simp add: echo_request_valid_def)
qed

lemma example_own: "own_address (example_router rs) eth3_ip"
  by (simp add: own_address_def eth3_def)

theorem echo_request_answered_witness:
  "\<exists>sr' f. sr_handlepacket (good_env 10) 1 (example_router []) (sample_ping client eth3_ip) (if_named ''eth3'') = Inr sr' \<and>
     pending (cache sr') client = Some [queued_packet f (if_name eth3)] \<and> ip_dst (frame_ip f) = client \<and>
     icmp_type (icmp_at f 34) = 0 \<and> sum_valid (drop 34 f) 2"
proof -
  let ?p = "sample_ping client eth3_ip"
  have a: "ip_action_for (example_router []) ?p = Answer_Echo"
    by (simp add: ip_action_for_def sample_ping_facts example_own)
  have l: "length ?p \<le> 131072" by (simp add: sample_ping_facts)
  have "\<exists>sr' f s t. sr_handlepacket (good_env 10) 1 (example_router []) ?p (if_named ''eth3'') = Inr sr' \<and>
      queued_for (good_env 10) (example_router []) client eth3 f sr' \<and>
      frame_ip f = (frame_ip ?p)\<lparr>ip_src := ip_dst (frame_ip ?p), ip_dst := ip_src (frame_ip ?p), ip_ttl := 255, ip_sum := s\<rparr> \<and>
      icmp_at f 34 = (icmp_at ?p 34)\<lparr>icmp_type := 0, icmp_code := 0, icmp_sum := t\<rparr> \<and> sum_valid (drop 34 f) 2"
    using echo_request_answered [where env = "good_env 10" and interface = "if_named ''eth3''",
        OF mem_ok_good_env example_router_34 order_refl l sample_ping_facts(3) a]
    by (simp add: sample_ping_facts) blast
  then show ?thesis by (auto simp: queued_for_def example_nothing_pending sample_ping_facts)
qed

section \<open>Errors\<close>

definition error_type :: "ip_action \<Rightarrow> u8 option" where
  "error_type act = (case act of Time_Exceeded \<Rightarrow> Some 11 | Net_Unreachable \<Rightarrow> Some 3 | _ \<Rightarrow> None)"

lemma perform_error:
  "error_type act = Some type \<Longrightarrow>
     perform env depth sr packet interface act = send_icmp_error env depth sr type 0 packet (in_iface_ip sr interface)"
  by (auto simp: error_type_def perform_def split: ip_action.splits)

lemma send_icmp_error_eq:
  assumes "mem_ok env" "34 \<le> length packet"
  shows "send_icmp_error env depth sr type code packet given =
    (let src = icmp_error_source sr (frame_ip packet) given in
     if src = 0 then Inr sr else if length packet < 42 then Inl OutOfBounds
     else map_sum id snd (route_and_send env depth sr
            (error_image type code src (ip_src (frame_ip packet)) (take 28 (drop 14 packet)))))"
  using assms
  by (simp add: send_icmp_error_def send_icmp_error_with_def get_ip_frame(1) icmp_error_frame_eq Let_def mem_ok_def
      route_and_send_def map_sum_snd sizeof_eth_def sizeof_ip_def get_ip_frame(2))

text \<open>
  C24.  A frame whose TTL has run out is answered by a time-exceeded error, and a frame without a route by a net-unreachable
  error: the error is queued for the next hop towards the sender, comes from the receiving
  interface (or, if that is unknown, the interface of the route back), carries valid IP and ICMP
  checksums and quotes the beginning of the IP packet, which for a packet without IP options is its
  header and the first 8 bytes of its payload.  The frame itself is not forwarded.  (The TTL, 255 in the
  code and 64 in the README, and the end of the quote for a packet with options, where the code copies 28 bytes
  as well, are left open.)
\<close>

theorem icmp_error_sent:
  assumes "mem_ok env" "sr_wf 34 sr" "no_expired (env_time env) sr" "1 \<le> depth"
    and "42 \<le> length packet" "length packet \<le> 131072" "ethertype packet = Inr ethertype_ip"
    and "error_type (ip_action_for sr packet) = Some type"
    and "icmp_error_source sr (frame_ip packet) (in_iface_ip sr interface) = src" "src \<noteq> 0"
    and "route_for sr (ip_src (frame_ip packet)) = Some (hop, i)"
  shows "\<exists>sr' f. sr_handlepacket env depth sr packet interface = Inr sr' \<and> queued_for env sr hop i f sr' \<and>
    ip_valid f \<and> ip_p (frame_ip f) = 1 \<and>
    ip_src (frame_ip f) = src \<and> ip_dst (frame_ip f) = ip_src (frame_ip packet) \<and>
    f ! 34 = type \<and> f ! 35 = 0 \<and> sum_valid (drop 34 f) 2 \<and> quotes f packet"
proof -
  obtain d where d: "depth = Suc d" using assms(4) by (cases depth) auto
  let ?data = "take 28 (drop 14 packet)"
  let ?e = "error_image type 0 src (ip_src (frame_ip packet)) ?data"
  have data: "length ?data = 28" using assms(5) by simp
  note e = error_image_spec [OF data, of type 0 src "ip_src (frame_ip packet)"]
  have len: "34 \<le> length ?e" using e(1) by simp
  have mac: "length (if_addr i) = 6" using sr_wf_if [OF assms(2) route_for_iface [OF assms(11)]] by simp
  have "route_for sr (ip_dst (frame_ip ?e)) = Some (hop, i)"
    using assms(11) e(3) by (simp add: stamp_ip_def error_ip_hdr_def)
  from route_effect [OF assms(1-3) len this]
  obtain sr' where ret: "route_and_send env depth sr ?e = Inr (0, sr')" and q: "queued_for env sr hop i (rewrite_l2 (if_addr i) ?e) sr'"
    unfolding d by blast
  have "sr_handlepacket env depth sr packet interface =
      send_icmp_error env depth sr type 0 packet (in_iface_ip sr interface)"
    using handle_ip_eq [OF assms(1,2,6)] dispatch_ip [OF assms(7)] perform_error [OF assms(8)] by simp
  then have "sr_handlepacket env depth sr packet interface = Inr sr'"
    using send_icmp_error_eq [OF assms(1), of packet depth sr type 0 "in_iface_ip sr interface"] assms(5,9,10) ret by simp
  with q routed_error [OF data mac, of type 0 src "ip_src (frame_ip packet)"] show ?thesis using quotesI by blast
qed

theorem icmp_error_sent_witness:
  "\<exists>sr' f. sr_handlepacket (good_env 10) 1 (example_router []) (sample_frame client server1 1) (if_named ''eth3'') = Inr sr' \<and>
     pending (cache sr') client = Some [queued_packet f (if_name eth3)] \<and> pending (cache sr') server1 = None \<and>
     ip_src (frame_ip f) = eth3_ip \<and> f ! 34 = 11 \<and> drop 42 f = icmp_quote (sample_frame client server1 1)"
proof -
  let ?p = "sample_frame client server1 1" and ?sr = "example_router []"
  have l: "42 \<le> length ?p" "length ?p \<le> 131072" by simp_all
  have a: "error_type (ip_action_for ?sr ?p) = Some 11" by (simp add: sample_time_exceeded error_type_def)
  have s: "icmp_error_source ?sr (frame_ip ?p) (in_iface_ip ?sr (if_named ''eth3'')) = eth3_ip"
    by (simp add: icmp_error_source_def in_iface_ip_def eth3_def)
  have r: "route_for ?sr (ip_src (frame_ip ?p)) = Some (client, eth3)" by (simp add: sample_frame_ip)
  obtain sr' f where "sr_handlepacket (good_env 10) 1 ?sr ?p (if_named ''eth3'') = Inr sr'"
    "queued_for (good_env 10) ?sr client eth3 f sr'" "ip_src (frame_ip f) = eth3_ip" "f ! 34 = 11" "quotes f ?p"
    using icmp_error_sent [where env = "good_env 10" and interface = "if_named ''eth3''",
        OF mem_ok_good_env example_router_34 order_refl l sample_frame_type a s _ r] by (metis host_addrs(12))
  moreover have "header_len ?p = 20" by (simp add: header_len_def sample_frame_ip)
  ultimately show ?thesis by (auto simp: queued_for_def example_nothing_pending quotes_def)
qed

text \<open>
  C36.  The error path reads 28 bytes of the IP packet although the handlers only establish 20: a valid
  frame of 34 to 41 bytes whose TTL has run out makes the router read past the end of the
  received frame.
\<close>

theorem short_frame_over_read:
  assumes "mem_ok env" "sr_wf 34 sr" "length packet < 42" "ethertype packet = Inr ethertype_ip"
    and "error_type (ip_action_for sr packet) = Some type"
    and "icmp_error_source sr (frame_ip packet) (in_iface_ip sr interface) \<noteq> 0"
  shows "sr_handlepacket env depth sr packet interface = Inl OutOfBounds"
proof -
  have "34 \<le> length packet"
    using assms(5) by (auto simp: error_type_def ip_action_for_def ip_valid_def split: if_splits ip_action.splits)
  moreover have "length packet \<le> 131072" using assms(3) by simp
  ultimately show ?thesis
    using handle_ip_eq [OF assms(1,2)] dispatch_ip [OF assms(4)] perform_error [OF assms(5)]
      send_icmp_error_eq [OF assms(1)] assms(3,6) by simp
qed

definition short_frame :: "u32 \<Rightarrow> u32 \<Rightarrow> bytes" where
  "short_frame src dst = (replicate 12 0 @ le16 (htons ethertype_ip)) @ ip_hdr_bytes (stamp_ip \<lparr>ip_hl = 5, ip_v = 4, ip_tos = 0,
     ip_len = htons 20, ip_id = 0, ip_off = 0, ip_ttl = 1, ip_p = 17, ip_sum = 0, ip_src = src, ip_dst = dst\<rparr>) @ []"

theorem short_frame_over_read_witness:
  "sr_handlepacket (good_env 10) 1 (example_router []) (short_frame client server1) (if_named ''eth3'') = Inl OutOfBounds"
proof -
  let ?p = "short_frame client server1" and ?sr = "example_router []"
  have v: "ip_valid ?p" unfolding short_frame_def by (rule ip_valid_image) simp_all
  have ip: "frame_ip ?p = stamp_ip \<lparr>ip_hl = 5, ip_v = 4, ip_tos = 0, ip_len = htons 20, ip_id = 0, ip_off = 0, ip_ttl = 1,
      ip_p = 17, ip_sum = 0, ip_src = client, ip_dst = server1\<rparr>"
    unfolding short_frame_def by (rule ip_valid_image) simp_all
  have f: "ip_dst (frame_ip ?p) = server1" "ip_ttl (frame_ip ?p) = 1" unfolding ip by (simp_all add: stamp_ip_def)
  have len: "length ?p = 34" by (simp add: short_frame_def)
  then have "get_eth ?p 0 = Inr (eth_hdr_of (take 14 ?p))" using eth.get_in [of 0 ?p] by (simp add: layout)
  then have ty: "ethertype ?p = Inr ethertype_ip"
    by (simp add: ethertype_def eth_hdr_of_def short_frame_def ld16_def nth_append le16_def)
  have "error_type (ip_action_for ?sr ?p) = Some 11"
    using v f example_not_own by (simp add: ip_action_for_def error_type_def)
  then show ?thesis
    using len ty by (intro short_frame_over_read [OF mem_ok_good_env example_router_34(1)])
      (simp_all add: icmp_error_source_def in_iface_ip_def eth3_def)
qed

end
