(* ===== verification/SR_Arp.thy ===== *)
theory SR_Arp
  imports SR_Datapath
begin

text \<open>
  Received ARP frames: answering requests for the router's own addresses, and releasing the frames
  that wait for a resolved next hop.
\<close>

section \<open>Requests\<close>

definition frame_arp :: "bytes \<Rightarrow> sr_arp_hdr" where
  "frame_arp packet = arp_hdr_of (take 28 (drop 14 packet))"

definition arp_for_ip :: "bytes \<Rightarrow> bool" where
  "arp_for_ip packet \<longleftrightarrow> 42 \<le> length packet \<and> ethertype packet = Inr ethertype_arp \<and>
     ntohs (ar_hrd (frame_arp packet)) = arp_hrd_ethernet \<and> ntohs (ar_pro (frame_arp packet)) = ethertype_ip"

definition arp_answer :: "sr_arp_hdr \<Rightarrow> sr_if \<Rightarrow> bytes" where
  "arp_answer arp i =
     eth_hdr_bytes \<lparr>ether_dhost = ar_sha arp, ether_shost = if_addr i, ether_type = htons ethertype_arp\<rparr> @
     arp_hdr_bytes \<lparr>ar_hrd = htons arp_hrd_ethernet, ar_pro = htons ethertype_ip, ar_hln = 6, ar_pln = 4,
       ar_op = htons arp_op_reply, ar_sha = if_addr i, ar_sip = if_ip i, ar_tha = ar_sha arp, ar_tip = ar_sip arp\<rparr>"

lemma get_arp_frame: "42 \<le> length packet \<Longrightarrow> get_arp packet sizeof_eth = Inr (frame_arp packet)"
  using arp.get_in [of sizeof_eth packet] by (simp add: frame_arp_def layout)

lemma frame_arp_wf: "42 \<le> length packet \<Longrightarrow> length (ar_sha (frame_arp packet)) = 6"
  by (simp add: frame_arp_def arp_hdr_of_def)

lemma dispatch_arp:
  assumes "arp_for_ip packet" "sr_get_interface sr interface = Some i"
  shows "sr_handlepacket env depth sr packet interface =
    (let arp = frame_arp packet in
     if ntohs (ar_op arp) = arp_op_request then
       (if ar_tip arp = if_ip i then send_arp_reply env sr arp i else Inr sr)
     else if ntohs (ar_op arp) = arp_op_reply then
       (let (req, c) = sr_arpcache_insert env (cache sr) (ar_sha arp) (ar_sip arp); sr1 = sr\<lparr>cache := c\<rparr>
        in case req of None \<Rightarrow> Inr sr1 | Some (a, r) \<Rightarrow>
          (case drain_packets env sr1 (ar_sha arp) (req_packets r) of Inl f \<Rightarrow> Inl f
           | Inr sr2 \<Rightarrow> Inr (sr2\<lparr>cache := sr_arpreq_destroy (cache sr2) a\<rparr>)))
     else Inr sr)"
proof -
  have "42 \<le> length packet" "ethertype packet = Inr ethertype_arp" using assms(1) by (simp_all add: arp_for_ip_def)
  moreover from this have "get_arp packet sizeof_eth = Inr (frame_arp packet)" by (simp add: get_arp_frame)
  moreover have "\<not> length packet < sizeof_eth" "\<not> length packet < sizeof_eth + sizeof_arp"
    using \<open>42 \<le> length packet\<close> by (simp_all add: layout)
  ultimately show ?thesis
    using assms by (simp add: sr_handlepacket_def handle_arp_packet_def arp_for_ip_def Let_def)
qed

lemma send_arp_reply_effect:
  assumes "mem_ok env" "sr_wf m sr" "sr_get_interface sr name = Some i" "length (ar_sha arp) = 6"
  obtains sr' where "send_arp_reply env sr arp i = Inr sr'" "same_config sr sr'" "cache sr' = cache sr"
    "sock_out sr' = sock_out sr @ [packet_message (arp_answer arp i) (if_name i)]"
proof -
  have mac: "length (if_addr i) = 6" using sr_wf_get_interface [OF assms(2,3)] by simp
  have own: "sr_get_interface sr (if_name i) = Some i" using sr_get_interface_own_name [OF assms(3)] .
  have "14 \<le> length (arp_answer arp i)" "take 6 (drop 6 (arp_answer arp i)) = if_addr i"
    using mac assms(4) by (simp_all add: arp_answer_def eth_hdr_bytes_def arp_hdr_bytes_def)
  from send_packet_from [OF assms(1) own this]
  obtain rc sr' where send: "sr_send_packet env sr (arp_answer arp i) (if_name i) = Inr (rc, sr')"
    and s: "same_config sr sr'" "cache sr' = cache sr" "sock_out sr' = sock_out sr @ [packet_message (arp_answer arp i) (if_name i)]"
    by blast
  have "arp_hdr_wf \<lparr>ar_hrd = htons arp_hrd_ethernet, ar_pro = htons ethertype_ip, ar_hln = 6, ar_pln = 4,
       ar_op = htons arp_op_reply, ar_sha = if_addr i, ar_sip = if_ip i, ar_tha = ar_sha arp, ar_tip = ar_sip arp\<rparr>"
    using mac assms(4) by (simp add: arp_hdr_wf_def)
  then have "send_arp_reply env sr arp i = Inr sr'"
    using assms(1,4) send by (simp add: send_arp_reply_def arp_frame_eq mem_ok_def arp_answer_def)
  with s that show thesis by blast
qed

lemma arp_request_effect:
  assumes "mem_ok env" "sr_wf 34 sr" "arp_for_ip packet" "sr_get_interface sr interface = Some i"
    and "ntohs (ar_op (frame_arp packet)) = 1"
  shows "\<exists>sr'. sr_handlepacket env depth sr packet interface = Inr sr' \<and> same_config sr sr' \<and> cache sr' = cache sr \<and>
    sock_out sr' = sock_out sr @ (if ar_tip (frame_arp packet) = if_ip i
      then [packet_message (arp_answer (frame_arp packet) i) (if_name i)] else [])"
proof (cases "ar_tip (frame_arp packet) = if_ip i")
  case True
  have "length (ar_sha (frame_arp packet)) = 6" using assms(3) by (simp add: arp_for_ip_def frame_arp_wf)
  from send_arp_reply_effect [OF assms(1,2,4) this]
  obtain sr' where "send_arp_reply env sr (frame_arp packet) i = Inr sr'" "same_config sr sr'" "cache sr' = cache sr"
    "sock_out sr' = sock_out sr @ [packet_message (arp_answer (frame_arp packet) i) (if_name i)]" by blast
  then show ?thesis
    using True assms(5) by (simp add: dispatch_arp [OF assms(3,4)] Let_def arp_op_request_def)
next
  case False
  then show ?thesis using assms(5) by (simp add: dispatch_arp [OF assms(3,4)] Let_def arp_op_request_def)
qed

text \<open>
  C29.  An ARP request is answered exactly when it asks for the address of the interface it arrived on, by one
  unicast reply that binds that address to the interface's hardware address; the cache and the
  waiting frames are left alone.
\<close>

theorem arp_request_answered:
  assumes "mem_ok env" "sr_wf 34 sr" "arp_for_ip packet" "sr_get_interface sr interface = Some i"
    and "ntohs (ar_op (frame_arp packet)) = 1"
  shows "\<exists>sr'. sr_handlepacket env depth sr packet interface = Inr sr' \<and> same_config sr sr' \<and> cache sr' = cache sr \<and>
    sock_out sr' = sock_out sr @ (if ar_tip (frame_arp packet) = if_ip i
      then [packet_message (arp_answer (frame_arp packet) i) (if_name i)] else [])"
  using assms by (rule arp_request_effect)

definition sample_arp :: "u16 \<Rightarrow> bytes \<Rightarrow> u32 \<Rightarrow> u32 \<Rightarrow> bytes" where
  "sample_arp op sha sip tip =
     eth_hdr_bytes \<lparr>ether_dhost = replicate 6 0xff, ether_shost = sha, ether_type = htons ethertype_arp\<rparr> @
     arp_hdr_bytes \<lparr>ar_hrd = htons arp_hrd_ethernet, ar_pro = htons ethertype_ip, ar_hln = 6, ar_pln = 4,
       ar_op = htons op, ar_sha = sha, ar_sip = sip, ar_tha = replicate 6 0, ar_tip = tip\<rparr>"

lemma sample_arp_facts:
  assumes "length sha = 6"
  shows "frame_arp (sample_arp op sha sip tip) = \<lparr>ar_hrd = htons arp_hrd_ethernet, ar_pro = htons ethertype_ip, ar_hln = 6,
      ar_pln = 4, ar_op = htons op, ar_sha = sha, ar_sip = sip, ar_tha = replicate 6 0, ar_tip = tip\<rparr>"
    "arp_for_ip (sample_arp op sha sip tip)"
proof -
  let ?p = "sample_arp op sha sip tip"
  have len: "length ?p = 42" using assms by (simp add: sample_arp_def eth_hdr_bytes_def arp_hdr_bytes_def)
  have "take 28 (drop 14 ?p) = arp_hdr_bytes \<lparr>ar_hrd = htons arp_hrd_ethernet, ar_pro = htons ethertype_ip, ar_hln = 6,
      ar_pln = 4, ar_op = htons op, ar_sha = sha, ar_sip = sip, ar_tha = replicate 6 0, ar_tip = tip\<rparr>"
    using assms by (simp add: sample_arp_def eth_hdr_bytes_def arp_hdr_bytes_def)
  then show arp: "frame_arp ?p = \<lparr>ar_hrd = htons arp_hrd_ethernet, ar_pro = htons ethertype_ip, ar_hln = 6,
      ar_pln = 4, ar_op = htons op, ar_sha = sha, ar_sip = sip, ar_tha = replicate 6 0, ar_tip = tip\<rparr>"
    using assms by (simp add: frame_arp_def arp.of_to arp_hdr_wf_def)
  have "get_eth ?p 0 = Inr (eth_hdr_of (take 14 ?p))" using eth.get_in [of 0 ?p] len by (simp add: layout)
  then have "ethertype ?p = Inr ethertype_arp"
    using assms by (simp add: ethertype_def eth_hdr_of_def sample_arp_def eth_hdr_bytes_def ld16_def nth_append le16_def)
  then show "arp_for_ip ?p" using len arp by (simp add: arp_for_ip_def)
qed

theorem arp_request_answered_witness:
  "\<exists>sr'. sr_handlepacket (good_env 10) 1 (example_router []) (sample_arp 1 [1, 2, 3, 4, 5, 6] client eth3_ip) (if_named ''eth3'') = Inr sr' \<and>
     sock_out sr' = [packet_message (arp_answer (frame_arp (sample_arp 1 [1, 2, 3, 4, 5, 6] client eth3_ip)) eth3) (if_name eth3)]"
  using arp_request_answered [OF mem_ok_good_env example_router_34(1) sample_arp_facts(2) example_interfaces(3), of "[1, 2, 3, 4, 5, 6]" 1 client eth3_ip 10 1]
  by (auto simp: sample_arp_facts eth3_def)

section \<open>Replies\<close>

text \<open>The frame that leaves: the resolved destination, the source of the outgoing interface, the rest as queued.\<close>

definition delivered :: "bytes \<Rightarrow> sr_if \<Rightarrow> bytes \<Rightarrow> bytes" where
  "delivered sha i buf = sha @ if_addr i @ drop 12 buf"

definition deliveries :: "sr_instance \<Rightarrow> bytes \<Rightarrow> sr_packet list \<Rightarrow> bytes list" where
  "deliveries sr sha pkts = concat (map (\<lambda>p. case sr_get_interface sr (pkt_iface p) of None \<Rightarrow> []
     | Some i \<Rightarrow> [packet_message (delivered sha i (pkt_buf p)) (pkt_iface p)]) pkts)"

lemma eth_overwrite:
  assumes "14 \<le> length buf" "length sha = 6" "length mac = 6"
  shows "put_eth buf 0 ((eth_hdr_of (take 14 buf))\<lparr>ether_shost := mac, ether_dhost := sha\<rparr>) = Inr (sha @ mac @ drop 12 buf)"
proof -
  have "drop 12 buf = [buf ! 12, buf ! 13] @ drop 14 buf"
    using assms(1) by (simp add: Cons_nth_drop_Suc numeral_eq_Suc)
  then show ?thesis
    using assms by (simp add: put_struct_def eth_hdr_bytes_def eth_hdr_of_def le_ld patch_def)
qed

lemma drain_effect:
  assumes "mem_ok env" "length sha = 6"
  shows "sr_wf m sr \<Longrightarrow> \<forall>p\<in>set pkts. 34 \<le> length (pkt_buf p) \<Longrightarrow>
    \<exists>sr'. drain_packets env sr sha pkts = Inr sr' \<and> same_config sr sr' \<and> cache sr' = cache sr \<and>
      sock_out sr' = sock_out sr @ deliveries sr sha pkts"
proof (induction pkts arbitrary: sr)
  case (Cons p pkts)
  have len: "14 \<le> length (pkt_buf p)" using Cons.prems(2) by auto
  have eth: "get_eth (pkt_buf p) 0 = Inr (eth_hdr_of (take 14 (pkt_buf p)))"
    using len eth.get_in [of 0 "pkt_buf p"] by (simp add: layout)
  have step: "\<exists>sr1. drain_packets env sr sha (p # pkts) = drain_packets env sr1 sha pkts \<and> same_config sr sr1 \<and>
      cache sr1 = cache sr \<and> sock_out sr1 = sock_out sr @ deliveries sr sha [p]"
  proof (cases "sr_get_interface sr (pkt_iface p)")
    case None
    have "eth_hdr_wf ((eth_hdr_of (take 14 (pkt_buf p)))\<lparr>ether_dhost := sha\<rparr>)"
      using len assms(2) by (simp add: eth_hdr_wf_def eth_hdr_of_def)
    from eth.put_in [OF this, of 0 "pkt_buf p"] len
    obtain b where b: "put_eth (pkt_buf p) 0 ((eth_hdr_of (take 14 (pkt_buf p)))\<lparr>ether_dhost := sha\<rparr>) = Inr b" "14 \<le> length b"
      using eth.length_put [OF \<open>eth_hdr_wf _\<close>, of 0 "pkt_buf p"] by (auto simp: layout)
    then have "sr_send_packet env sr b (pkt_iface p) = Inr (- 1, log_frame env b sr)"
      using assms(1) None by (simp add: sr_send_packet_eq mem_ok_def layout)
    then show ?thesis
      using None eth b len by (intro exI [of _ "log_frame env b sr"]) (simp add: deliveries_def same_config_def layout)
  next
    case (Some i)
    have mac: "length (if_addr i) = 6" using sr_wf_get_interface [OF Cons.prems(1) Some] by simp
    let ?b = "delivered sha i (pkt_buf p)"
    have put: "put_eth (pkt_buf p) 0 ((eth_hdr_of (take 14 (pkt_buf p)))\<lparr>ether_shost := if_addr i, ether_dhost := sha\<rparr>) = Inr ?b"
      using eth_overwrite [OF len assms(2) mac] by (simp add: delivered_def)
    have "14 \<le> length ?b" "take 6 (drop 6 ?b) = if_addr i" using len assms(2) mac by (simp_all add: delivered_def)
    from send_packet_from [OF assms(1) Some this] obtain rc sr1 where "sr_send_packet env sr ?b (pkt_iface p) = Inr (rc, sr1)"
      "same_config sr sr1" "cache sr1 = cache sr" "sock_out sr1 = sock_out sr @ [packet_message ?b (pkt_iface p)]" by blast
    then show ?thesis using Some eth put len by (intro exI [of _ sr1]) (simp add: deliveries_def layout)
  qed
  then obtain sr1 where s1: "drain_packets env sr sha (p # pkts) = drain_packets env sr1 sha pkts" "same_config sr sr1"
    "cache sr1 = cache sr" "sock_out sr1 = sock_out sr @ deliveries sr sha [p]" by blast
  have wf1: "sr_wf m sr1" using Cons.prems(1) s1(2,3) by (simp add: sr_wf_def same_config_def)
  have "deliveries sr1 sha pkts = deliveries sr sha pkts"
    using sr_get_interface_cong [OF same_configD(1) [OF s1(2)]] by (simp add: deliveries_def)
  then show ?case
    using Cons.IH [OF wf1] Cons.prems(2) s1 same_config_trans [OF s1(2)] by (auto simp: deliveries_def)
qed (simp add: deliveries_def)

lemma unlink_absent: "a \<notin> fst ` set rs \<Longrightarrow> unlink_req rs a = rs"
  by (induction rs a rule: unlink_req.induct) auto

lemma arp_reply_effect:
  assumes "mem_ok env" "sr_wf 34 sr" "arp_for_ip packet" "sr_get_interface sr interface = Some i"
    and "ntohs (ar_op (frame_arp packet)) = 2"
  shows "\<exists>sr'. sr_handlepacket env depth sr packet interface = Inr sr' \<and> same_config sr sr' \<and>
    set (requests (cache sr')) \<subseteq> set (requests (cache sr)) \<and>
    pending (cache sr') = (pending (cache sr))(ar_sip (frame_arp packet) := None) \<and>
    entries (cache sr') = insert_entry (entries (cache sr)) (ar_sha (frame_arp packet)) (ar_sip (frame_arp packet)) (env_time env) \<and>
    sock_out sr' = sock_out sr @ deliveries sr (ar_sha (frame_arp packet))
      (case pending (cache sr) (ar_sip (frame_arp packet)) of None \<Rightarrow> [] | Some ps \<Rightarrow> ps)"
proof -
  let ?arp = "frame_arp packet"
  have sha: "length (ar_sha ?arp) = 6" using assms(3) by (simp add: arp_for_ip_def frame_arp_wf)
  have cwf: "arpcache_wf (cache sr)" using assms(2) by (simp add: sr_wf_def)
  obtain req c where ins: "sr_arpcache_insert env (cache sr) (ar_sha ?arp) (ar_sip ?arp) = (req, c)" by fastforce
  note pend = pending_insert [OF ins cwf]
  have ent: "entries c = insert_entry (entries (cache sr)) (ar_sha ?arp) (ar_sip ?arp) (env_time env)"
    using entries_insert [of env "cache sr"] ins by (metis snd_conv)
  have wf1: "sr_wf 34 (sr\<lparr>cache := c\<rparr>)"
    using assms(2) insert_wf [OF ins] requests_insert_subset [OF ins] queued_ge_subset [of c "cache sr" 34] by (simp add: sr_wf_def)
  have top: "sr_handlepacket env depth sr packet interface = (case req of None \<Rightarrow> Inr (sr\<lparr>cache := c\<rparr>) | Some (a, r) \<Rightarrow>
      (case drain_packets env (sr\<lparr>cache := c\<rparr>) (ar_sha ?arp) (req_packets r) of Inl f \<Rightarrow> Inl f
       | Inr sr2 \<Rightarrow> Inr (sr2\<lparr>cache := sr_arpreq_destroy (cache sr2) a\<rparr>)))"
    using assms(5) ins by (simp add: dispatch_arp [OF assms(3,4)] Let_def arp_op_request_def arp_op_reply_def)
  show ?thesis
  proof (cases req)
    case None
    with top pend ent requests_insert_subset [OF ins] show ?thesis by (simp add: same_config_def deliveries_def)
  next
    case (Some x)
    obtain a r where x: "x = (a, r)" by fastforce
    have r: "pending (cache sr) (ar_sip ?arp) = Some (req_packets r)" using pend(1) Some x by simp
    have mem: "(a, r) \<in> set (requests (cache sr))" using requests_insert_subset [OF ins] Some x by simp
    then have "\<forall>p\<in>set (req_packets r). 34 \<le> length (pkt_buf p)"
      using cwf by (auto simp: arpcache_wf_def req_wf_def layout)
    from drain_effect [OF assms(1) sha wf1 this] obtain sr2 where s2:
      "drain_packets env (sr\<lparr>cache := c\<rparr>) (ar_sha ?arp) (req_packets r) = Inr sr2" "same_config (sr\<lparr>cache := c\<rparr>) sr2"
      "cache sr2 = c" "sock_out sr2 = sock_out sr @ deliveries (sr\<lparr>cache := c\<rparr>) (ar_sha ?arp) (req_packets r)" by auto
    have gone: "sr_arpreq_destroy c a = c"
    proof -
      have "requests c = remove1 (a, r) (requests (cache sr))"
        using ins Some x by (auto simp: sr_arpcache_insert_def detach_req_spec split: option.splits)
      then have "a \<notin> fst ` set (requests c)"
        using eq_key_imp_eq_value [OF wf_distinct [OF cwf] mem] wf_distinct [OF cwf]
        by (auto simp: distinct_map)
      then have "unlink_req (requests c) a = requests c"
        by (rule unlink_absent)
      then show ?thesis by (simp add: sr_arpreq_destroy_def)
    qed
    have "deliveries (sr\<lparr>cache := c\<rparr>) = deliveries sr"
      using sr_get_interface_cong [of "sr\<lparr>cache := c\<rparr>" sr] by (simp add: deliveries_def fun_eq_iff)
    with s2 gone show ?thesis
      using top Some x pend(2) ent r requests_insert_subset [OF ins] by (simp add: same_config_def)
  qed
qed

text \<open>
  C25.  An ARP reply resolves its sender: every frame waiting for that address leaves through its interface, in the order of
  the queue, with the hardware address of the reply as destination and that of the interface as
  source and otherwise as it was queued; afterwards no frame waits for that address, the frames
  waiting for others are untouched, and the mapping is entered in the table.
\<close>

theorem arp_reply_delivers_waiting_frames:
  assumes "mem_ok env" "sr_wf 34 sr" "arp_for_ip packet" "sr_get_interface sr interface = Some i"
    and "ntohs (ar_op (frame_arp packet)) = 2"
  shows "\<exists>sr'. sr_handlepacket env depth sr packet interface = Inr sr' \<and> same_config sr sr' \<and>
    pending (cache sr') = (pending (cache sr))(ar_sip (frame_arp packet) := None) \<and>
    entries (cache sr') = insert_entry (entries (cache sr)) (ar_sha (frame_arp packet)) (ar_sip (frame_arp packet)) (env_time env) \<and>
    sock_out sr' = sock_out sr @ deliveries sr (ar_sha (frame_arp packet))
      (case pending (cache sr) (ar_sip (frame_arp packet)) of None \<Rightarrow> [] | Some ps \<Rightarrow> ps)"
  using arp_reply_effect [OF assms] by blast

theorem arp_reply_delivers_waiting_frames_witness:
  "\<exists>sr'. sr_handlepacket (good_env 10) 1
       (example_router [(0, sample_req server1 9 1 [\<lparr>pkt_buf = sample_frame client server1 8, pkt_iface = if_named ''eth1''\<rparr>])])
       (sample_arp 2 [1, 2, 3, 4, 5, 6] server1 eth1_ip) (if_named ''eth1'') = Inr sr' \<and>
     pending (cache sr') server1 = None \<and>
     sock_out sr' = [packet_message (delivered [1, 2, 3, 4, 5, 6] eth1 (sample_frame client server1 8)) (if_named ''eth1'')]"
proof -
  let ?sr = "example_router [(0, sample_req server1 9 1 [\<lparr>pkt_buf = sample_frame client server1 8, pkt_iface = if_named ''eth1''\<rparr>])]"
  let ?p = "sample_arp 2 [1, 2, 3, 4, 5, 6] server1 eth1_ip"
  have wf: "sr_wf 34 ?sr" by (simp add: example_wf)
  have a: "arp_for_ip ?p" "ntohs (ar_op (frame_arp ?p)) = 2" "ar_sip (frame_arp ?p) = server1" "ar_sha (frame_arp ?p) = [1, 2, 3, 4, 5, 6]"
    by (simp_all add: sample_arp_facts)
  have "pending (cache ?sr) server1 = Some [\<lparr>pkt_buf = sample_frame client server1 8, pkt_iface = if_named ''eth1''\<rparr>]"
    by (simp add: pending_def)
  then show ?thesis
    using arp_reply_delivers_waiting_frames [OF mem_ok_good_env wf a(1) example_interfaces(1) a(2), of 10 1]
    by (auto simp: a(3,4) deliveries_def)
qed

end
