(* ===== verification/SR_Safety.thy ===== *)
theory SR_Safety
  imports SR_Icmp SR_Arp
begin

text \<open>
  The router as a whole: what every received frame and every round of the timeout thread keeps, when
  they return without a fault, and the states the router can reach.
\<close>

section \<open>Frames are handled without a fault\<close>

lemma route_total:
  assumes "mem_ok env" "sr_wf 34 sr" "no_expired (env_time env) sr" "34 \<le> length frame" "1 \<le> depth"
  obtains rc sr' where "route_and_send env depth sr frame = Inr (rc, sr')" "no_expired (env_time env) sr'"
proof (cases "route_for sr (ip_dst (frame_ip frame))")
  case None
  have "list_all if_wf (if_list sr)" using assms(2) by (simp add: sr_wf_def)
  from route_and_send_eq [OF assms(4) this, of "handle_arpreq env depth" env] None that assms(3) show thesis
    by (simp add: route_and_send_def)
next
  case (Some x)
  obtain hop i where x: "x = (hop, i)" by fastforce
  obtain d where d: "depth = Suc d" using assms(5) by (cases depth) auto
  obtain sr' where "route_and_send env (Suc d) sr frame = Inr (0, sr')" "queued_for env sr hop i (rewrite_l2 (if_addr i) frame) sr'"
    using route_effect [OF assms(1-4)] Some x by blast
  then show thesis using that d by (simp add: queued_for_def)
qed

lemma perform_total:
  assumes "mem_ok env" "sr_wf 34 sr" "no_expired (env_time env) sr" "1 \<le> depth" "42 \<le> length packet" "length packet \<le> 131072"
  obtains sr' where "perform env depth sr packet interface (ip_action_for sr packet) = Inr sr'" "no_expired (env_time env) sr'"
proof -
  note total = route_total [OF assms(1-3) _ assms(4)]
  have err: "\<exists>sr'. send_icmp_error env depth sr type code packet given = Inr sr' \<and> no_expired (env_time env) sr'" for type code given
  proof -
    let ?e = "error_image type code (icmp_error_source sr (frame_ip packet) given) (ip_src (frame_ip packet)) (take 28 (drop 14 packet))"
    have "length ?e = 70" using assms(5) by (simp add: length_error_image)
    then obtain rc sr' where "route_and_send env depth sr ?e = Inr (rc, sr')" "no_expired (env_time env) sr'"
      using total [of ?e] by auto
    then show ?thesis using send_icmp_error_eq [OF assms(1), of packet] assms(3,5) by (simp add: Let_def)
  qed
  have echo: "\<exists>sr'. map_sum id snd (route_and_send env depth sr (echo_reply packet)) = Inr sr' \<and> no_expired (env_time env) sr'"
    if "ip_action_for sr packet = Answer_Echo"
  proof -
    have "34 \<le> length (echo_reply packet)"
      using that echo_reply_spec(1) [of packet] assms(5,6)
      by (auto simp: ip_action_for_def echo_request_valid_def split: if_splits option.splits)
    from total [OF this] show ?thesis by (metis map_sum.simps(2) snd_conv)
  qed
  have fwd: "\<exists>sr'. map_sum id snd (route_and_send env depth sr (ttl_decremented packet)) = Inr sr' \<and> no_expired (env_time env) sr'"
    if "ip_action_for sr packet = Forward hop i" for hop i
  proof -
    have "34 \<le> length (ttl_decremented packet)"
      using that ttl_decremented_spec(1) [of packet] assms(5)
      by (auto simp: ip_action_for_def split: if_splits option.splits)
    from total [OF this] show ?thesis by (metis map_sum.simps(2) snd_conv)
  qed
  show thesis
    by (cases "ip_action_for sr packet") (use err echo fwd that assms(3) in \<open>auto simp: perform_def\<close>)
qed

lemma arp_total:
  assumes "mem_ok env" "sr_wf 34 sr" "no_expired (env_time env) sr" "ethertype packet = Inr ethertype_arp"
  obtains sr' where "sr_handlepacket env depth sr packet interface = Inr sr'" "no_expired (env_time env) sr'"
proof (cases "arp_for_ip packet \<and> sr_get_interface sr interface \<noteq> None")
  case False
  then have "handle_arp_packet env sr packet interface = Inr sr"
    using assms(4) get_arp_frame [of packet] by (auto simp: handle_arp_packet_def arp_for_ip_def sizeof_eth_def sizeof_arp_def Let_def)
  moreover have "sr_handlepacket env depth sr packet interface \<in> {Inr sr, handle_arp_packet env sr packet interface}"
    using assms(4) by (simp add: sr_handlepacket_def)
  ultimately show thesis using that assms(3) by auto
next
  case True
  then obtain i where i: "sr_get_interface sr interface = Some i" by auto
  have keep: "no_expired (env_time env) sr'" if "set (requests (cache sr')) \<subseteq> set (requests (cache sr))" for sr'
    using assms(3) that by (auto simp: no_expired_def list_all_iff)
  consider "ntohs (ar_op (frame_arp packet)) = 1" | "ntohs (ar_op (frame_arp packet)) = 2"
    | "ntohs (ar_op (frame_arp packet)) \<noteq> 1" "ntohs (ar_op (frame_arp packet)) \<noteq> 2" by blast
  then show thesis
  proof cases
    case 1
    from arp_request_effect [OF assms(1,2) _ i this] True keep that show thesis by fastforce
  next
    case 2
    from arp_reply_effect [OF assms(1,2) _ i this] True keep that show thesis by fastforce
  next
    case 3
    then have "sr_handlepacket env depth sr packet interface = Inr sr"
      using True i by (simp add: dispatch_arp Let_def arp_op_request_def arp_op_reply_def)
    with that assms(3) show thesis by blast
  qed
qed

text \<open>
  C7.  Every frame that is received while no request is expired is handled to the end, without reading out of bounds, using freed
  memory or recursing without end, if memory suffices and the frame is long enough to be quoted in
  an ICMP error (42 bytes) or too short to be an IP frame: the invariant is kept, the configuration
  is untouched, and still no request is expired.
\<close>

theorem frame_handled_without_fault:
  assumes "mem_ok env" "sr_wf 42 sr" "no_expired (env_time env) sr" "1 \<le> depth"
    and "42 \<le> length packet \<or> length packet < 34" "length packet \<le> 131072"
  shows "\<exists>sr'. sr_handlepacket env depth sr packet interface = Inr sr' \<and> sr_wf 42 sr' \<and> same_config sr sr' \<and>
    no_expired (env_time env) sr' \<and> (\<exists>new. sock_out sr' = sock_out sr @ new)"
proof -
  have wf: "sr_wf 34 sr" using sr_wf_34 [OF assms(2)] .
  have "\<exists>sr'. sr_handlepacket env depth sr packet interface = Inr sr' \<and> no_expired (env_time env) sr'"
  proof (cases "ethertype packet = Inr ethertype_arp")
    case True
    then show ?thesis using arp_total [OF assms(1) wf assms(3)] by blast
  next
    case arp: False
    show ?thesis
    proof (cases "ethertype packet = Inr ethertype_ip \<and> 34 \<le> length packet")
      case True
      then have len: "42 \<le> length packet" using assms(5) by simp
      from perform_total [OF assms(1) wf assms(3,4) len assms(6)] True show ?thesis
        using handle_ip_eq [OF assms(1) wf assms(6)] dispatch_ip by metis
    next
      case False
      then have "sr_handlepacket env depth sr packet interface = Inr sr"
        using arp eth.get_in [of 0 packet]
        by (auto simp: sr_handlepacket_def handle_ip_packet_def ethertype_def layout split: sum.splits)
      with assms(3) show ?thesis by blast
    qed
  qed
  then obtain sr' where h: "sr_handlepacket env depth sr packet interface = Inr sr'" "no_expired (env_time env) sr'" by blast
  have "sr_wf 42 sr'" "evolves sr sr'"
    using sr_handlepacket_keeps [of 42 sr packet env depth interface] assms(2,5) h(1) by (simp_all add: keeps_Inr)
  with h show ?thesis unfolding evolves_def by blast
qed

theorem frame_handled_without_fault_witness:
  "\<exists>sr'. sr_handlepacket (good_env 10) 1 (example_router []) (sample_frame client 7 9) (if_named ''eth3'') = Inr sr' \<and>
     sr_wf 42 sr' \<and> no_expired 10 sr'"
  using frame_handled_without_fault [of "good_env 10" "example_router []" 1 "sample_frame client 7 9"]
  by (auto simp: example_wf no_expired_def)

section \<open>Reachable states\<close>

text \<open>
  An execution is a sequence of events: a received frame, or a round of the timeout thread.  A step
  is an event that returns.  Events do not overlap here; \<open>SR_Threads\<close> and \<open>SR_Interleave\<close> treat the interleaving that is
  possible because \<^verbatim>\<open>route_and_send\<close> calls \<^verbatim>\<open>handle_arpreq\<close> without the cache lock.
\<close>

datatype event = Frame bytes bytes | Tick

definition handle_event :: "sr_env \<Rightarrow> nat \<Rightarrow> sr_instance \<Rightarrow> event \<Rightarrow> fault + sr_instance" where
  "handle_event env depth sr ev =
     (case ev of Frame packet interface \<Rightarrow> sr_handlepacket env depth sr packet interface
      | Tick \<Rightarrow> sr_arpcache_timeout_round env depth sr)"

inductive reachable :: "sr_instance \<Rightarrow> sr_instance \<Rightarrow> bool" for start :: sr_instance where
  init: "reachable start (sr_init start)"
| step: "reachable start sr \<Longrightarrow> handle_event env depth sr ev = Inr sr' \<Longrightarrow> reachable start sr'"

lemma event_keeps: "sr_wf 34 sr \<Longrightarrow> keeps 34 sr (handle_event env depth sr ev)"
proof (cases ev)
  case (Frame packet interface)
  assume "sr_wf 34 sr"
  moreover have "34 \<le> length packet \<or> length packet < 34" by linarith
  ultimately show ?thesis using Frame sr_handlepacket_keeps [of 34 sr packet] by (simp add: handle_event_def)
qed (simp add: handle_event_def timeout_round_keeps)

lemma init_state_wf: "list_all if_wf (if_list start) \<Longrightarrow> sr_wf 34 (sr_init start)"
  by (simp add: sr_wf_def sr_init_def init_wf queued_ge_def) (simp add: sr_arpcache_init_def)

text \<open>
  C8.  Whatever frames arrive and whenever the timeout thread runs, the state stays well formed: the table
  has 100 slots, there is at most one request per next hop, every request has a frame waiting and
  every waiting frame is at least an Ethernet and an IP header long; interfaces and routes never
  change, and output once handed to the server is never revised.
\<close>

theorem reachable_states_wf:
  assumes "reachable start sr" "list_all if_wf (if_list start)"
  shows "sr_wf 34 sr \<and> same_config start sr \<and> (\<exists>new. sock_out sr = sock_out start @ new)"
  using assms
proof (induction rule: reachable.induct)
  case init
  then show ?case by (simp add: init_state_wf) (simp add: sr_init_def)
next
  case (step sr env depth ev sr')
  then have "sr_wf 34 sr" "same_config start sr" "\<exists>new. sock_out sr = sock_out start @ new" by simp_all
  moreover have "sr_wf 34 sr'" "evolves sr sr'"
    using event_keeps [OF calculation(1), of env depth ev] step.hyps by (simp_all add: keeps_Inr)
  ultimately show ?case using same_config_trans unfolding evolves_def by fastforce
qed

theorem reachable_states_wf_witness:
  "\<exists>sr'. reachable (example_router []) sr' \<and> sr_wf 34 sr' \<and> pending (cache sr') server1 \<noteq> None"
proof -
  let ?s = "sr_init (example_router [])"
  have init: "?s = example_router []"
    by (simp add: sr_init_def sr_arpcache_init_def example_router_def SR_ARPCACHE_SZ_def)
  have l: "length (sample_frame client server1 9) \<le> 131072" by simp
  obtain sr' f where h: "sr_handlepacket (good_env 10) 1 (example_router []) (sample_frame client server1 9) (if_named ''eth3'') = Inr sr'"
    and q: "queued_for (good_env 10) (example_router []) server1 eth1 f sr'"
    using forward_effect [where env = "good_env 10" and interface = "if_named ''eth3''",
        OF mem_ok_good_env example_router_34 order_refl l sample_frame_type sample_forward] by blast
  have "reachable (example_router []) sr'"
    using reachable.step [OF reachable.init, of "good_env 10" 1 "example_router []" "Frame (sample_frame client server1 9) (if_named ''eth3'')" sr']
      h init by (simp add: handle_event_def)
  moreover have "list_all if_wf (if_list (example_router []))"
    using example_router_34(1) by (simp add: sr_wf_def)
  ultimately show ?thesis using reachable_states_wf q by (auto simp: queued_for_def)
qed

end
