(* ===== verification/SR_Session.thy ===== *)
theory SR_Session
  imports SR_Framing SR_Safety
begin

text \<open>
  What the messages of the server do: frames are filtered, logged and passed to the router, hardware
  information configures the interfaces, the authentication request is answered with a salted digest,
  and every message, like every round of the timeout thread, keeps the router well formed.
\<close>

section \<open>Packets\<close>

text \<open>The router looks at the name of the receiving interface only through \<^verbatim>\<open>sr_get_interface\<close>.\<close>

lemma sr_handlepacket_name_cong:
  assumes "strncmp_eq a b 32"
  shows "sr_handlepacket env depth sr packet a = sr_handlepacket env depth sr packet b"
proof -
  have get: "sr_get_interface t a = sr_get_interface t b" for t
    using assms by (intro sr_get_interface_name_cong) (simp add: sr_IFACE_NAMELEN_def)
  have arp: "handle_arp_packet env t packet a = handle_arp_packet env t packet b" for t
    unfolding handle_arp_packet_def get ..
  have ip: "in_iface_ip t a = in_iface_ip t b" for t
    unfolding in_iface_ip_def get ..
  show ?thesis
    unfolding sr_handlepacket_def handle_ip_packet_def forward_ip_def arp ip ..
qed

lemma get_interface_ptr_eq:
  assumes "0 \<in> set name"
  shows "get_interface_ptr is name = Inr (get_interface_walk is name)"
  using assms by (induction "is") (simp_all add: name_over_read_def)

text \<open>A frame that asks for the address of somebody else.\<close>

definition foreign_arp_request :: "sr_if \<Rightarrow> bytes \<Rightarrow> bool" where
  "foreign_arp_request i frame \<longleftrightarrow> 42 \<le> length frame \<and> ethertype frame = Inr ethertype_arp \<and>
     ntohs (ar_op (frame_arp frame)) = arp_op_request \<and> ar_tip (frame_arp frame) \<noteq> if_ip i"

lemma arp_filter_eq:
  assumes "0 \<in> set name" "length packet \<le> 9976"
  shows "sr_arp_req_not_for_us sr packet (word_of_nat (length packet)) name =
    (case sr_get_interface sr name of None \<Rightarrow> if 42 \<le> length packet then Inl AssertFailed else Inr False
     | Some i \<Rightarrow> Inr (foreign_arp_request i packet))"
proof -
  have len: "unat (word_of_nat (length packet) :: u32) = length packet"
    using len_word(2) [of "length packet"] assms(2) by simp
  show ?thesis
  proof (cases "42 \<le> length packet")
    case False
    then show ?thesis
      by (simp add: sr_arp_req_not_for_us_def get_interface_ptr_eq [OF assms(1)] len layout foreign_arp_request_def
          flip: sr_get_interface_def split: option.split)
  next
    case True
    have eth: "get_eth packet 0 = Inr (eth_hdr_of (take 14 packet))" using True eth.get_in [of 0 packet] by (simp add: layout)
    have arp: "get_arp packet sizeof_eth = Inr (frame_arp packet)" using True by (rule get_arp_frame)
    have swap: "x = htons y \<longleftrightarrow> htons x = y" for x y by auto
    from True show ?thesis
      unfolding sr_arp_req_not_for_us_def get_interface_ptr_eq [OF assms(1)] len eth arp
      by (simp add: sizeof_eth_def sizeof_arp_def foreign_arp_request_def swap ethertype_def eth [unfolded sizeof_eth_def]
          flip: sr_get_interface_def split: option.split)
  qed
qed

lemma packet_message_vns: "packet_message frame name = vns_message VNSPACKET (strncpy name 16 @ frame)"
  by (simp add: packet_message_def vns_message_def sizeof_c_packet_header_def add.commute)

lemma received_packet:
  assumes "length frame \<le> 9976" "length (cstr name) < 16"
  shows "handle_command env depth s (packet_message frame name) 0 =
    (case sr_get_interface (router s) name of
       None \<Rightarrow> if 42 \<le> length frame then Inl AssertFailed
         else map_sum id (\<lambda>sr. (1, s\<lparr>router := sr\<rparr>))
           (sr_handlepacket (os env) depth (log_frame (os env) frame (router s)) frame name)
     | Some i \<Rightarrow> if foreign_arp_request i frame then Inr (1, s)
         else map_sum id (\<lambda>sr. (1, s\<lparr>router := sr\<rparr>))
           (sr_handlepacket (os env) depth (log_frame (os env) frame (router s)) frame name))"
proof -
  let ?name = "strncpy name 16 @ frame"
  let ?buf = "command_buffer VNSPACKET ?name"
  have split: "strncpy name 16 = cstr name @ 0 # replicate (15 - length (cstr name)) 0"
    using assms(2) by (simp add: strncpy_def min_def numeral_eq_Suc Suc_diff_Suc flip: replicate_Suc)
  have nul: "0 \<in> set ?name" by (simp add: split)
  have "cstr ?name = cstr name" unfolding split by (simp add: cstr_append_nul)
  then have same: "strncmp_eq ?name name 32" by (simp add: strncmp_eq_def)
  have len: "ntohl (ld32 ?buf 0) = word_of_nat (24 + length frame)"
    using len_command_buffer(1) [of ?name VNSPACKET] assms(1) by simp
  have get: "sr_get_interface (router s) ?name = sr_get_interface (router s) name"
    using same by (intro sr_get_interface_name_cong) (simp add: sr_IFACE_NAMELEN_def)
  have "dispatch_command env depth s ?buf VNSPACKET =
     (case sr_arp_req_not_for_us (router s) frame (word_of_nat (length frame)) ?name of Inl f \<Rightarrow> Inl f
      | Inr True \<Rightarrow> Inr (1, s)
      | Inr False \<Rightarrow> map_sum id (\<lambda>sr. (1, s\<lparr>router := sr\<rparr>))
           (sr_handlepacket (os env) depth (log_frame (os env) frame (router s)) frame name))"
    using len len_word(1) [of "length frame"] assms(1) sr_log_packet_frame [of "os env" "router s" frame]
      sr_handlepacket_name_cong [OF same, of "os env" depth "log_frame (os env) frame (router s)" frame]
    by (simp add: dispatch_command_def vns_packet_def sizeof_c_packet_header_def sizeof_c_base_def Let_def
        flip: log_frame_def split: sum.split bool.split)
  then show ?thesis
    using arp_filter_eq [OF nul assms(1), of "router s"]
    by (simp add: packet_message_vns handle_vns_message get split: option.split bool.split)
qed

text \<open>
  C15.  A packet message of the server, for an interface with a name of at most 15 characters and a
  frame the buffer can hold, is refined to the router's own handler: an ARP request for the address of
  somebody else is dropped, every other frame is logged and passed on as it was sent; a name no
  interface has aborts the program when the frame could hold an ARP packet.
\<close>

theorem received_packet_refined:
  assumes "length frame \<le> 9976" "length (cstr name) < 16"
  shows "handle_command env depth s (packet_message frame name) 0 =
    (case sr_get_interface (router s) name of
       None \<Rightarrow> if 42 \<le> length frame then Inl AssertFailed
         else map_sum id (\<lambda>sr. (1, s\<lparr>router := sr\<rparr>))
           (sr_handlepacket (os env) depth (log_frame (os env) frame (router s)) frame name)
     | Some i \<Rightarrow> if foreign_arp_request i frame then Inr (1, s)
         else map_sum id (\<lambda>sr. (1, s\<lparr>router := sr\<rparr>))
           (sr_handlepacket (os env) depth (log_frame (os env) frame (router s)) frame name))"
  by (rule received_packet [OF assms])

lemma cstr_if_named: "cstr (if_named ''eth3'') = str_bytes ''eth3''" "cstr (if_named ''eth9'') = str_bytes ''eth9''"
  unfolding if_named_def by (simp add: cstr_strncpy, simp add: str_bytes_def cstr_def)+

theorem received_packet_refined_witness:
  "handle_command good_vns_env 1 (idle_session\<lparr>router := example_router []\<rparr>)
      (packet_message (sample_arp 1 [1, 2, 3, 4, 5, 6] client server1) (if_named ''eth3'')) 0 =
      Inr (1, idle_session\<lparr>router := example_router []\<rparr>) \<and>
   handle_command good_vns_env 1 (idle_session\<lparr>router := example_router []\<rparr>)
      (packet_message (sample_frame client server1 9) (if_named ''eth9'')) 0 = Inl AssertFailed"
proof -
  let ?arp = "sample_arp 1 [1, 2, 3, 4, 5, 6] client server1" and ?s = "idle_session\<lparr>router := example_router []\<rparr>"
  have len: "length ?arp = 42" by (simp add: sample_arp_def eth_hdr_bytes_def arp_hdr_bytes_def)
  have "foreign_arp_request eth3 ?arp"
    using sample_arp_facts [of "[1, 2, 3, 4, 5, 6]" 1 client server1] len
    by (simp add: foreign_arp_request_def arp_for_ip_def arp_op_request_def eth3_def example_addrs)
  moreover have "sr_get_interface (example_router []) (if_named ''eth9'') = None"
    by (simp add: sr_get_interface_def eth1_def eth2_def eth3_def layout)
      (simp add: strncmp_eq_def str_bytes_def cstr_def)
  ultimately show ?thesis
    using received_packet_refined [of ?arp "if_named ''eth3''" good_vns_env 1 ?s]
      received_packet_refined [of "sample_frame client server1 9" "if_named ''eth9''" good_vns_env 1 ?s]
    by (simp add: len cstr_if_named str_bytes_def)
qed

section \<open>Hardware information\<close>

text \<open>An entry of the message, and a message as the list of its entries.\<close>

definition hw_bytes :: "u32 \<times> bytes \<Rightarrow> bytes" where
  "hw_bytes e = le32 (htonl (fst e)) @ snd e"

definition hw_body :: "(u32 \<times> bytes) list \<Rightarrow> bytes" where
  "hw_body es = concat (map hw_bytes es)"

definition hw_wf :: "(u32 \<times> bytes) list \<Rightarrow> bool" where
  "hw_wf es \<longleftrightarrow> list_all (\<lambda>e. length (snd e) = 32) es \<and> length es \<le> 277"

lemma length_hw_body: "list_all (\<lambda>e. length (snd e) = 32) es \<Longrightarrow> length (hw_body es) = 36 * length es"
  by (induction es) (simp_all add: hw_body_def hw_bytes_def)

lemma hw_body_entry:
  "list_all (\<lambda>e. length (snd e) = 32) es \<Longrightarrow> i < length es \<Longrightarrow> take 36 (drop (36 * i) (hw_body es)) = hw_bytes (es ! i)"
proof (induction es arbitrary: i)
  case (Cons e es)
  have "length (hw_bytes e) = 36" using Cons.prems by (simp add: hw_bytes_def)
  then show ?case using Cons by (cases i) (simp_all add: hw_body_def)
qed simp

text \<open>What one entry does, over its key and value.\<close>

definition apply_entry :: "vns_env \<Rightarrow> nat \<Rightarrow> u32 \<times> bytes \<Rightarrow> sr_instance \<Rightarrow> fault + sr_instance" where
  "apply_entry env i e sr =
     (if fst e = HWINTERFACE then sr_add_interface (os env) (env_raw_if env i) sr (snd e)
      else if fst e = HWETHIP then sr_set_ether_ip sr (ld32 (snd e) 0)
      else if fst e = HWETHER then sr_set_ether_addr sr (snd e)
      else Inr sr)"

fun apply_entries :: "vns_env \<Rightarrow> nat \<Rightarrow> (u32 \<times> bytes) list \<Rightarrow> sr_instance \<Rightarrow> fault + sr_instance" where
  "apply_entries env i [] sr = Inr sr"
| "apply_entries env i (e # es) sr =
     (case apply_entry env i e sr of Inl f \<Rightarrow> Inl f | Inr sr1 \<Rightarrow> apply_entries env (Suc i) es sr1)"

lemma hw_entry_apply:
  assumes "hw_wf es" "i < length es"
  shows "hw_entry env (command_buffer VNSHWINFO (hw_body es)) i sr = apply_entry env i (es ! i) sr"
proof -
  let ?b = "command_buffer VNSHWINFO (hw_body es)"
  have len: "length (hw_body es) = 36 * length es" using assms(1) by (simp add: hw_wf_def length_hw_body)
  have "take 36 (drop (8 + 36 * i) ?b) = hw_bytes (es ! i)"
    using hw_body_entry [of es i] assms by (simp add: hw_wf_def)
  moreover have "8 + 36 * i + 36 \<le> length ?b" using len assms(2) by simp
  ultimately have "rd_bytes ?b (8 + sizeof_c_hw_entry * i) sizeof_c_hw_entry = Inr (hw_bytes (es ! i))"
    by (simp add: sizeof_c_hw_entry_def)
  then show ?thesis by (simp add: hw_entry_def apply_entry_def hw_bytes_def)
qed

lemma hwinfo_loop_apply:
  assumes "hw_wf es" "i \<le> length es"
  shows "hwinfo_loop env (command_buffer VNSHWINFO (hw_body es)) [i..<length es] sr = apply_entries env i (drop i es) sr"
  using assms(2)
proof (induction "length es - i" arbitrary: i sr)
  case (Suc n)
  then have "i < length es" by simp
  then have "[i..<length es] = i # [Suc i..<length es]" "drop i es = es ! i # drop (Suc i) es"
    by (simp_all add: upt_conv_Cons Cons_nth_drop_Suc)
  then show ?case using Suc \<open>i < length es\<close> by (simp add: hw_entry_apply [OF assms(1)] split: sum.split)
qed simp

lemma hwinfo_entries:
  assumes "hw_wf es"
  shows "sr_handle_hwinfo env sr (command_buffer VNSHWINFO (hw_body es)) =
    (case apply_entries env 0 es sr of Inl f \<Rightarrow> Inl f
     | Inr sr1 \<Rightarrow> (case sr_print_if_list sr1 of Inl f \<Rightarrow> Inl f | Inr _ \<Rightarrow> Inr (length es, sr1)))"
proof -
  have len: "length (hw_body es) = 36 * length es" "length (hw_body es) \<le> 9992" using assms by (simp_all add: hw_wf_def length_hw_body)
  then have "(unat (ntohl (ld32 (command_buffer VNSHWINFO (hw_body es)) 0)) - 8) div sizeof_c_hw_entry = length es"
    using len_command_buffer(2) [OF len(2)] by (simp add: sizeof_c_hw_entry_def)
  then show ?thesis using hwinfo_loop_apply [OF assms, of 0 env sr] by (simp add: sr_handle_hwinfo_def)
qed

text \<open>
  The description of one interface: its name, hardware address and IP address, and further entries
  (speed, subnet, mask) that the client does not use.
\<close>

record hw_if =
  hw_name :: bytes
  hw_mac :: bytes
  hw_ip :: u32
  hw_extra :: "(u32 \<times> bytes) list"

definition hw_if_wf :: "hw_if \<Rightarrow> bool" where
  "hw_if_wf d \<longleftrightarrow> length (cstr (hw_name d)) < 32 \<and> length (hw_mac d) = 6 \<and>
     list_all (\<lambda>e. length (snd e) = 32 \<and> fst e \<notin> {HWINTERFACE, HWETHER, HWETHIP}) (hw_extra d)"

definition describe :: "hw_if \<Rightarrow> (u32 \<times> bytes) list" where
  "describe d = (HWINTERFACE, strncpy (hw_name d) 32) # (HWETHER, hw_mac d @ replicate 26 0) #
     (HWETHIP, le32 (hw_ip d) @ replicate 28 0) # hw_extra d"

definition described :: "hw_if \<Rightarrow> sr_if \<Rightarrow> bool" where
  "described d i \<longleftrightarrow> if_name i = strncpy (hw_name d) 32 \<and> if_addr i = hw_mac d \<and> if_ip i = hw_ip d"

lemma hw_keys [simp]: "HWETHER \<noteq> HWINTERFACE" "HWETHIP \<noteq> HWINTERFACE" "HWETHER \<noteq> HWETHIP"
  by (simp_all add: HWETHER_def HWINTERFACE_def HWETHIP_def)

lemma apply_extra:
  "list_all (\<lambda>e. length (snd e) = 32 \<and> fst e \<notin> {HWINTERFACE, HWETHER, HWETHIP}) es \<Longrightarrow>
     apply_entries env i (es @ rest) sr = apply_entries env (i + length es) rest sr"
  by (induction es arbitrary: i) (simp_all add: apply_entry_def)

text \<open>
  The interfaces that descriptions add: the structure for each is allocated at its first entry, and only
  the three fields are written.
\<close>

fun interfaces_of :: "vns_env \<Rightarrow> nat \<Rightarrow> hw_if list \<Rightarrow> sr_if list" where
  "interfaces_of env i [] = []"
| "interfaces_of env i (d # ds) =
     (env_raw_if env i)\<lparr>if_name := strncpy (hw_name d) 32, if_addr := hw_mac d, if_ip := hw_ip d\<rparr> #
       interfaces_of env (i + length (describe d)) ds"

lemma interfaces_described: "list_all2 described ds (interfaces_of env i ds)"
  by (induction ds arbitrary: i) (simp_all add: described_def)

lemma strncpy_again [simp]: "strncpy (strncpy s n) n = strncpy s n"
  by (simp add: strncpy_def [of "strncpy _ _"] cstr_strncpy) (simp add: strncpy_def)

lemma apply_description:
  assumes "hw_if_wf d" "env_malloc (os env) sizeof_sr_if"
  shows "apply_entries env i (describe d @ rest) sr =
    apply_entries env (i + length (describe d)) rest (sr\<lparr>if_list := if_list sr @ interfaces_of env i [d]\<rparr>)"
  using assms apply_extra [of "hw_extra d" env "Suc (Suc (Suc i))" rest]
  by (simp add: describe_def apply_entry_def sr_add_interface_def sr_set_ether_addr_def sr_set_ether_ip_def
      append_interface_eq hw_if_wf_def sr_IFACE_NAMELEN_def)

lemma apply_descriptions:
  assumes "env_malloc (os env) sizeof_sr_if"
  shows "list_all hw_if_wf ds \<Longrightarrow>
    apply_entries env i (concat (map describe ds)) sr = Inr (sr\<lparr>if_list := if_list sr @ interfaces_of env i ds\<rparr>)"
  by (induction ds arbitrary: i sr) (simp_all add: apply_description assms)

lemma print_if_walk_ok: "list_all (\<lambda>i. 0 \<in> set (if_name i)) is \<Longrightarrow> \<exists>t. print_if_walk is = Inr t"
  by (induction "is") (auto simp: sr_print_if_def c_string_def)

lemma strncpy_nul: "length (cstr s) < n \<Longrightarrow> 0 \<in> set (strncpy s n)"
  using cstr_strncpy [of s n] cstr_id [of "strncpy s n"] length_strncpy [of s n] by fastforce

lemma described_nul: "list_all hw_if_wf ds \<Longrightarrow> list_all2 described ds ifs \<Longrightarrow> list_all (\<lambda>i. 0 \<in> set (if_name i)) ifs"
  by (induction ds arbitrary: ifs) (auto simp: list_all2_Cons1 hw_if_wf_def described_def strncpy_nul)

lemma hwinfo_handled:
  assumes "list_all hw_if_wf ds" "hw_wf (concat (map describe ds))" "env_malloc (os env) sizeof_sr_if"
    and "list_all (\<lambda>i. 0 \<in> set (if_name i)) (if_list (router s))"
  defines "sr' \<equiv> (router s)\<lparr>if_list := if_list (router s) @ interfaces_of env 0 ds\<rparr>"
  shows "handle_command env depth s (vns_message VNSHWINFO (hw_body (concat (map describe ds)))) 0 =
    Inr (if sr_verify_routing_table sr' = 0 then 1 else - 1, s\<lparr>router := sr'\<rparr>)"
proof -
  have "list_all (\<lambda>i. 0 \<in> set (if_name i)) (if_list sr')"
    using described_nul [OF assms(1) interfaces_described] assms(4) by (simp add: sr'_def)
  from print_if_walk_ok [OF this] obtain t where "sr_print_if_list sr' = Inr t"
    by (cases "if_list sr' = []") (auto simp: sr_print_if_list_def)
  then show ?thesis
    using apply_descriptions [OF assms(3,1), of 0 "router s"] hwinfo_entries [OF assms(2), of env "router s"]
    by (simp add: sr'_def handle_vns_message dispatch_command_def vns_commands)
qed

lemma hwinfo_effect:
  assumes "list_all hw_if_wf ds" "hw_wf (concat (map describe ds))" "env_malloc (os env) sizeof_sr_if"
    and "list_all (\<lambda>i. 0 \<in> set (if_name i)) (if_list (router s))"
  shows "\<exists>ifs sr'. list_all2 described ds ifs \<and> sr' = (router s)\<lparr>if_list := if_list (router s) @ ifs\<rparr> \<and>
    handle_command env depth s (vns_message VNSHWINFO (hw_body (concat (map describe ds)))) 0 =
      Inr (if sr_verify_routing_table sr' = 0 then 1 else - 1, s\<lparr>router := sr'\<rparr>)"
  using hwinfo_handled [OF assms, of depth] interfaces_described by blast

text \<open>
  C16.  A hardware message that describes some interfaces, in any number and with entries the client
  has no use for among them, adds exactly these interfaces, in order, with their names and
  addresses; the session goes on exactly if there are routes and interfaces and every route leaves
  through an interface that exists.
\<close>

theorem hwinfo_configures_interfaces:
  assumes "list_all hw_if_wf ds" "hw_wf (concat (map describe ds))" "env_malloc (os env) sizeof_sr_if"
    and "list_all (\<lambda>i. 0 \<in> set (if_name i)) (if_list (router s))"
  shows "\<exists>ifs sr' rc. list_all2 described ds ifs \<and> sr' = (router s)\<lparr>if_list := if_list (router s) @ ifs\<rparr> \<and>
    handle_command env depth s (vns_message VNSHWINFO (hw_body (concat (map describe ds)))) 0 = Inr (rc, s\<lparr>router := sr'\<rparr>) \<and>
    rc \<in> {1, - 1} \<and>
    (rc = 1 \<longleftrightarrow> if_list sr' \<noteq> [] \<and> routing_table sr' \<noteq> [] \<and>
       list_all (\<lambda>r. sr_get_interface sr' (rt_interface r) \<noteq> None) (routing_table sr'))"
  using hwinfo_effect [OF assms, of depth] by (auto simp: verify_zero_iff list_all_iff)

definition eth1_description :: hw_if where
  "eth1_description = \<lparr>hw_name = str_bytes ''eth1'', hw_mac = [1, 2, 3, 4, 5, 6], hw_ip = eth1_ip, hw_extra = [(128, replicate 32 0)]\<rparr>"

theorem hwinfo_configures_interfaces_witness:
  "\<exists>i. described eth1_description i \<and>
    handle_command good_vns_env 1 idle_session (vns_message VNSHWINFO (hw_body (describe eth1_description))) 0 =
      Inr (- 1, idle_session\<lparr>router := (router idle_session)\<lparr>if_list := [i]\<rparr>\<rparr>)"
proof -
  have d: "list_all hw_if_wf [eth1_description]"
    by (simp add: hw_if_wf_def eth1_description_def HWINTERFACE_def HWETHER_def HWETHIP_def)
      (simp add: str_bytes_def cstr_def)
  have w: "hw_wf (concat (map describe [eth1_description]))" by (simp add: hw_wf_def describe_def eth1_description_def)
  have s: "if_list (router idle_session) = []" "routing_table (router idle_session) = []"
    by (simp_all add: idle_session_def empty_instance_def)
  from hwinfo_configures_interfaces [OF d w, of good_vns_env idle_session 1] s show ?thesis
    by (auto simp: list_all2_Cons1)
qed

end
