(* ===== verification/SR_Auth.thy ===== *)
theory SR_Auth
  imports SR_Session
begin

text \<open>
  Authentication, the routing table the server sends for a template, and the set-up of the session by
  \<^verbatim>\<open>sr_connect_to_server\<close>.
\<close>

section \<open>The salted digest\<close>

lemma auth_digest_sha1:
  assumes "length (Message_Block (env_raw_sha env)) = 64" "length salt \<le> 9992" "64 \<le> length auth_key"
  shows "auth_digest env salt auth_key = Inr (1, sha1 (salt @ take 64 auth_key))"
proof -
  let ?key = "take 64 auth_key"
  have "8 * (length [] + length salt) < 18446744073709551616" using assms(2) by simp
  from SHA1Input_inv [OF SHA1Reset_inv [OF assms(1)] this] obtain ctx1 where
    1: "SHA1Input (SHA1Reset (env_raw_sha env)) salt = Inr ctx1" "sha_inv ctx1 salt" by auto
  have "8 * (length salt + length ?key) < 18446744073709551616" using assms(2) by simp
  from SHA1Input_inv [OF 1(2) this] obtain ctx2 where
    2: "SHA1Input ctx1 ?key = Inr ctx2" "sha_inv ctx2 (salt @ ?key)" by auto
  obtain ctx3 where "SHA1PadMessage ctx2 = Inr ctx3" "Message_Digest ctx3 = sha1 (salt @ ?key)"
    by (rule PadMessage_digest [OF 2(2)])
  then have "SHA1Result ctx2 = Inr (1, ctx3\<lparr>Computed := True\<rparr>)" "Message_Digest (ctx3\<lparr>Computed := True\<rparr>) = sha1 (salt @ ?key)"
    using 2(2) by (simp_all add: SHA1Result_def sha_inv_def)
  then show ?thesis using 1(1) 2(1) assms(3) by (simp add: auth_digest_def AUTH_KEY_LEN_def)
qed

text \<open>
  What is hashed after the salt: the first line of the key file with its newline, cut to 64
  characters, a NUL, and, if these are fewer than 64 bytes, what the stack held.
\<close>

definition hashed_key :: "bytes \<Rightarrow> bytes \<Rightarrow> bytes" where
  "hashed_key raw content =
     (let line = fst (fgets 64 content) in take 64 (line @ 0 # drop (Suc (length line)) raw))"

lemma length_fgets: "length (fst (fgets n fp)) \<le> n"
  by (simp add: fgets_def Let_def)

lemma hashed_key_patch: "take 64 (patch raw 0 (fst (fgets 64 content) @ [0])) = hashed_key raw content"
  by (simp add: hashed_key_def patch_def Let_def)

lemma hashed_key_full:
  assumes "64 \<le> length content" "10 \<notin> set (take 64 content)"
  shows "hashed_key raw content = take 64 content"
proof -
  have "takeWhile (\<lambda>c. c \<noteq> 10) (take 64 content) = take 64 content" using assms(2) by (auto simp: takeWhile_eq_all_conv)
  moreover have "takeWhile (\<lambda>c. c \<noteq> 10) content = take 64 content @ takeWhile (\<lambda>c. c \<noteq> 10) (drop 64 content)"
    using takeWhile_append2 [of "take 64 content" "\<lambda>c. c \<noteq> 10" "drop 64 content"] assms(2) append_take_drop_id by metis
  ultimately have "64 \<le> length (takeWhile (\<lambda>c. c \<noteq> 10) content)" using assms(1) by simp
  then have "fst (fgets 64 content) = take 64 content" by (simp add: fgets_def Let_def min_def)
  then show ?thesis using assms(1) by (simp add: hashed_key_def)
qed

text \<open>The environment and the user's array are as the code needs them.\<close>

definition auth_ready :: "vns_env \<Rightarrow> sr_instance \<Rightarrow> bool" where
  "auth_ready env sr \<longleftrightarrow> length (env_raw_key env) = 65 \<and> length (Message_Block (env_raw_sha env)) = 64 \<and>
     env_malloc (os env) (32 + length (cstr (user sr))) \<and> 0 \<in> set (user sr)"

lemma length_auth_reply: "length (c_auth_reply name (sha1 m)) = 32 + length name"
proof -
  have "length (concat (map (\<lambda>w. le32 (htonl w)) ws)) = 4 * length ws" for ws by (induction ws) simp_all
  moreover have "length (sha1 m) = 5" by (simp add: sha1_def length_compress_all sha1_init_def)
  ultimately show ?thesis by (simp add: c_auth_reply_def)
qed

lemma auth_request_effect:
  assumes "auth_ready env (router s)" "fs s (str_bytes ''auth_key'') = Some content" "content \<noteq> []" "length salt \<le> 9992"
    and "expected \<in> {0, VNS_AUTH_REQUEST}"
  defines "reply \<equiv> c_auth_reply (cstr (user (router s))) (sha1 (salt @ hashed_key (env_raw_key env) content))"
  shows "handle_command env depth s (vns_message VNS_AUTH_REQUEST salt) expected =
    Inr (if env_send env reply = int (32 + length (cstr (user (router s)))) then 1 else - 1,
         s\<lparr>router := (router s)\<lparr>sock_out := sock_out (router s) @ [reply]\<rparr>\<rparr>)"
proof -
  let ?buf = "command_buffer VNS_AUTH_REQUEST salt" and ?key = "patch (env_raw_key env) 0 (fst (fgets 64 content) @ [0])"
  have raw: "length (env_raw_key env) = 65" using assms(1) by (simp add: auth_ready_def)
  have fit: "0 + length (fst (fgets 64 content) @ [0]) \<le> length (env_raw_key env)" using raw length_fgets [of 64 content] by simp
  then have wr: "wr_bytes (env_raw_key env) 0 (fst (fgets 64 content) @ [0]) = Inr ?key" by (rule wr_bytes_Inr)
  have "length ?key = 65" using fit raw by simp
  then have digest: "auth_digest env salt ?key = Inr (1, sha1 (salt @ hashed_key (env_raw_key env) content))"
    using auth_digest_sha1 [of env salt ?key] assms(1,4) by (simp add: auth_ready_def hashed_key_patch)
  have salt: "rd_bytes ?buf 8 (unat (ntohl (ld32 ?buf 0)) - 8) = Inr salt"
    using len_command_buffer(2) [OF assms(4), of VNS_AUTH_REQUEST] by simp
  have "sr_handle_auth_request env (fs s) (router s) ?buf =
    Inr (if env_send env reply = int (32 + length (cstr (user (router s)))) then 1 else 0,
         (router s)\<lparr>sock_out := sock_out (router s) @ [reply]\<rparr>)"
    unfolding sr_handle_auth_request_def AUTH_KEY_LEN_def SHA1_LEN_def
    using assms(1-3) wr digest salt
    by (simp add: Let_def c_string_def auth_ready_def reply_def add.commute del: wr_bytes_Inr rd_bytes_Inr)
  then show ?thesis
    using assms(5) by (auto simp: handle_vns_message dispatch_command_def vns_commands)
qed

lemma auth_status_effect:
  assumes "0 \<in> set (user (router s))" "ok \<noteq> 0" "expected \<in> {0, VNS_AUTH_STATUS}"
  shows "handle_command env depth s (vns_message VNS_AUTH_STATUS (ok # msg)) expected = Inr (1, s)"
proof -
  have "rd_bytes (command_buffer VNS_AUTH_STATUS (ok # msg)) 8 1 = Inr [ok]" by simp
  moreover have "uint ok \<noteq> 0" using assms(2) by (simp add: uint_0_iff)
  ultimately show ?thesis
    using assms by (auto simp: handle_vns_message dispatch_command_def vns_commands sr_handle_auth_status_def c_string_def
      simp del: rd_bytes_Inr)
qed

section \<open>The routing table of a template\<close>

lemma rtable_effect:
  assumes "length (cstr vhost) < 32" "length table \<le> 9960" "env_fopen_w env (str_bytes ''rtable.'' @ cstr vhost)"
    and "expected \<in> {0, VNS_RTABLE}"
  shows "handle_command env depth s (vns_message VNS_RTABLE (strncpy vhost 32 @ table)) expected =
    Inr (1, s\<lparr>fs := (fs s)(str_bytes ''rtable.'' @ cstr vhost \<mapsto> table)\<rparr>)"
proof -
  let ?body = "strncpy vhost 32 @ table"
  let ?buf = "command_buffer VNS_RTABLE ?body"
  have body: "length ?body \<le> 9992" using assms(2) by simp
  have "0 \<in> set (strncpy vhost 32)" using assms(1) by (rule strncpy_nul)
  moreover from this have "cstr ?body = cstr (strncpy vhost 32)" by (simp add: cstr_def takeWhile_append1)
  ultimately have c: "c_string ?body = Inr (cstr vhost)" using assms(1) by (simp add: c_string_def cstr_strncpy)
  have "ntohl (ld32 ?buf 0) - 8 - word_of_nat IDSIZE = (word_of_nat (length table) :: u32)"
    using len_command_buffer(1) [OF body, of VNS_RTABLE] by (simp add: IDSIZE_def)
  then have "unat (ntohl (ld32 ?buf 0) - 8 - word_of_nat IDSIZE) = length table"
    using len_word(2) [of "length table"] assms(2) by simp
  then have rd: "rd_bytes ?buf (8 + IDSIZE) (unat (ntohl (ld32 ?buf 0) - 8 - word_of_nat IDSIZE)) = Inr table"
    by (simp add: IDSIZE_def rd_bytes_def)
  have "sr_handle_rtable env (fs s) ?buf = Inr (1, (fs s)(str_bytes ''rtable.'' @ cstr vhost \<mapsto> table))"
    unfolding sr_handle_rtable_def rd using c assms(1,3) by (simp add: Let_def IDSIZE_def str_bytes_def)
  then show ?thesis using assms(4) by (auto simp: handle_vns_message dispatch_command_def vns_commands)
qed

section \<open>Connecting\<close>

text \<open>One message of the stream, as the sequel uses it.\<close>

lemma read_message:
  assumes "clean es" "payload es = vns_message type body @ rest" "length body \<le> 9992" "env_malloc (os env) (8 + length body)"
    and "handle_command env depth s (vns_message type body) expected = Inr (rc, t)"
  obtains es' where "clean es'" "payload es' = rest"
    "sr_read_from_server_expect env depth (at_input s es) expected = Some (Inr (rc, at_input t es'))"
  using read_framed [OF framed_vns_message [OF assms(3)] assms(1,2), of env depth s "[]" expected] assms(4,5)
  by (auto simp: handle_command_at_input)

text \<open>Memory, the socket and the disk do what is asked of them.\<close>

definition services_ok :: "vns_env \<Rightarrow> bool" where
  "services_ok env \<longleftrightarrow> (\<forall>k. env_malloc (os env) k) \<and> (\<forall>m. env_send env m = int (length m)) \<and> (\<forall>fn. env_fopen_w env fn)"

lemma services_okD: "services_ok env \<Longrightarrow> env_malloc (os env) k"
  "services_ok env \<Longrightarrow> env_send env m = int (length m)" "services_ok env \<Longrightarrow> env_fopen_w env fn"
  by (simp_all add: services_ok_def)

text \<open>What the client tells the server to open, after its answer to the authentication request.\<close>

definition open_request :: "sr_instance \<Rightarrow> bytes" where
  "open_request sr = (if cstr (template sr) \<noteq> [] then c_open_template sr else c_open sr)"

lemma length_open: "length (c_open sr) = 108" "length (c_open_template sr) = 70"
  by (simp_all add: c_open_def c_open_template_def IDSIZE_def)

lemma open_sock_out [simp]: "c_open (sr\<lparr>sock_out := l\<rparr>) = c_open sr" "c_open_template (sr\<lparr>sock_out := l\<rparr>) = c_open_template sr"
  by (simp_all add: c_open_def c_open_template_def)

lemma connect_authenticated:
  assumes "auth_ready (envs 0) (router s)" "fs s (str_bytes ''auth_key'') = Some content" "content \<noteq> []" "length salt \<le> 9992"
    and "\<And>n. services_ok (envs n)" "ok \<noteq> 0" "length msg \<le> 9991" "0 \<in> set (template (router s))" "con = \<lparr>host_known = True, socket_ok = True, connect_ok = True\<rparr>"
    and "clean es" "payload es = vns_message VNS_AUTH_REQUEST salt @ vns_message VNS_AUTH_STATUS (ok # msg) @ rest"
  defines "reply \<equiv> c_auth_reply (cstr (user (router s))) (sha1 (salt @ hashed_key (env_raw_key (envs 0)) content))"
  defines "t \<equiv> s\<lparr>router := (router s)\<lparr>sock_out := sock_out (router s) @ [reply, open_request (router s)]\<rparr>\<rparr>"
  shows "\<exists>es'. clean es' \<and> payload es' = rest \<and> sr_connect_to_server envs depth con (at_input s es) =
    (if cstr (template (router s)) = [] then Some (Inr (0, at_input t es'))
     else Option.bind (sr_read_from_server_expect (envs 2) depth (at_input t es') VNS_RTABLE)
       (\<lambda>r. case r of Inl f \<Rightarrow> Some (Inl f) | Inr (rc, s4) \<Rightarrow> Some (Inr (if rc \<noteq> 1 then - 1 else 0, s4))))"
proof -
  let ?sr1 = "(router s)\<lparr>sock_out := sock_out (router s) @ [reply]\<rparr>"
  let ?s1 = "s\<lparr>router := ?sr1\<rparr>"
  have "length reply = 32 + length (cstr (user (router s)))" by (simp add: reply_def length_auth_reply)
  then have "handle_command (envs 0) depth s (vns_message VNS_AUTH_REQUEST salt) VNS_AUTH_REQUEST = Inr (1, ?s1)"
    using auth_request_effect [OF assms(1-4), of VNS_AUTH_REQUEST depth] services_okD(2) [OF assms(5)] by (simp add: reply_def)
  from read_message [OF assms(10,11,4) services_okD(1) [OF assms(5)] this] obtain es1 where 1: "clean es1"
    "payload es1 = vns_message VNS_AUTH_STATUS (ok # msg) @ rest"
    "sr_read_from_server_expect (envs 0) depth (at_input s es) VNS_AUTH_REQUEST = Some (Inr (1, at_input ?s1 es1))" by blast
  have user: "0 \<in> set (user (router ?s1))" using assms(1) by (simp add: auth_ready_def)
  have len: "length (ok # msg) \<le> 9992" using assms(7) by simp
  from read_message [OF 1(1,2) len services_okD(1) [OF assms(5)] auth_status_effect [OF user assms(6)]] obtain es2 where 2: "clean es2" "payload es2 = rest"
    "sr_read_from_server_expect (envs 1) depth (at_input ?s1 es1) VNS_AUTH_STATUS = Some (Inr (1, at_input ?s1 es2))" by blast
  have tmpl: "c_string (template (router s)) = Inr (cstr (template (router s)))" using assms(8) by (simp add: c_string_def)
  have "sr_connect_to_server envs depth con (at_input s es) =
    (if cstr (template (router s)) = [] then Some (Inr (0, at_input t es2))
     else Option.bind (sr_read_from_server_expect (envs 2) depth (at_input t es2) VNS_RTABLE)
       (\<lambda>r. case r of Inl f \<Rightarrow> Some (Inl f) | Inr (rc, s4) \<Rightarrow> Some (Inr (if rc \<noteq> 1 then - 1 else 0, s4))))"
    using 1(3) 2(3) tmpl services_okD(2) [OF assms(5)]
    by (simp add: sr_connect_to_server_def assms(9) Let_def t_def open_request_def length_open)
  with 2 show ?thesis by blast
qed

lemma connect_effect:
  assumes "auth_ready (envs 0) (router s)" "fs s (str_bytes ''auth_key'') = Some content"
    and "64 \<le> length content" "10 \<notin> set (take 64 content)" "length salt \<le> 9992" "ok \<noteq> 0" "length msg \<le> 9991"
    and "0 \<in> set (template (router s))" "con = \<lparr>host_known = True, socket_ok = True, connect_ok = True\<rparr>"
    and "\<forall>n. services_ok (envs n)" "length (cstr vhost) < 32" "length table \<le> 9960" "clean es"
    and "payload es = vns_message VNS_AUTH_REQUEST salt @ vns_message VNS_AUTH_STATUS (ok # msg) @
      (if cstr (template (router s)) = [] then [] else vns_message VNS_RTABLE (strncpy vhost 32 @ table)) @ rest"
  defines "t \<equiv> s\<lparr>router := (router s)\<lparr>sock_out := sock_out (router s) @
      [c_auth_reply (cstr (user (router s))) (sha1 (salt @ take 64 content)), open_request (router s)]\<rparr>,
    fs := (if cstr (template (router s)) = [] then fs s else (fs s)(str_bytes ''rtable.'' @ cstr vhost \<mapsto> table))\<rparr>"
  shows "\<exists>es'. clean es' \<and> payload es' = rest \<and> sr_connect_to_server envs depth con (at_input s es) = Some (Inr (0, at_input t es'))"
proof -
  have ne: "content \<noteq> []" using assms(3) by auto
  have ok: "services_ok (envs n)" for n using assms(10) by blast
  let ?reply = "c_auth_reply (cstr (user (router s))) (sha1 (salt @ take 64 content))"
  let ?t = "s\<lparr>router := (router s)\<lparr>sock_out := sock_out (router s) @ [?reply, open_request (router s)]\<rparr>\<rparr>"
  from connect_authenticated [where envs = envs, OF assms(1,2) ne assms(5) ok assms(6,7,8,9,13,14), of depth] hashed_key_full [OF assms(3,4)]
  obtain es2 where 2: "clean es2"
    "payload es2 = (if cstr (template (router s)) = [] then [] else vns_message VNS_RTABLE (strncpy vhost 32 @ table)) @ rest"
    "sr_connect_to_server envs depth con (at_input s es) =
    (if cstr (template (router s)) = [] then Some (Inr (0, at_input ?t es2))
     else Option.bind (sr_read_from_server_expect (envs 2) depth (at_input ?t es2) VNS_RTABLE)
       (\<lambda>r. case r of Inl f \<Rightarrow> Some (Inl f) | Inr (rc, s4) \<Rightarrow> Some (Inr (if rc \<noteq> 1 then - 1 else 0, s4))))" by auto
  show ?thesis
  proof (cases "cstr (template (router s)) = []")
    case True
    with 2 show ?thesis by (intro exI [of _ es2]) (simp add: t_def)
  next
    case False
    let ?t' = "?t\<lparr>fs := (fs s)(str_bytes ''rtable.'' @ cstr vhost \<mapsto> table)\<rparr>"
    have body: "length (strncpy vhost 32 @ table) \<le> 9992" using assms(12) by simp
    have pay: "payload es2 = vns_message VNS_RTABLE (strncpy vhost 32 @ table) @ rest" using 2(2) False by simp
    have "handle_command (envs 2) depth ?t (vns_message VNS_RTABLE (strncpy vhost 32 @ table)) VNS_RTABLE = Inr (1, ?t')"
      using rtable_effect [OF assms(11,12) services_okD(3) [OF ok], of VNS_RTABLE 2 depth ?t] by simp
    from read_message [OF 2(1) pay body services_okD(1) [OF ok] this] obtain es3 where "clean es3" "payload es3 = rest"
      "sr_read_from_server_expect (envs 2) depth (at_input ?t es2) VNS_RTABLE = Some (Inr (1, at_input ?t' es3))" by blast
    with 2(3) False show ?thesis by (intro exI [of _ es3]) (simp add: t_def)
  qed
qed

text \<open>
  C13.  The set-up of a session with a server that accepts the user, in whatever pieces its messages
  arrive: \<^verbatim>\<open>sr_connect_to_server\<close> returns \<open>0\<close> after sending exactly two messages, the reply with the
  SHA-1 digest of the salt followed by the 64 bytes of the key, and the request to open the topology
  or the template; for a template the routing table of the server is stored under its host name.
\<close>

theorem handshake:
  assumes "auth_ready (envs 0) (router s)" "fs s (str_bytes ''auth_key'') = Some content"
    and "64 \<le> length content" "10 \<notin> set (take 64 content)" "length salt \<le> 9992" "ok \<noteq> 0" "length msg \<le> 9991"
    and "0 \<in> set (template (router s))" "con = \<lparr>host_known = True, socket_ok = True, connect_ok = True\<rparr>"
    and "\<forall>n. services_ok (envs n)" "length (cstr vhost) < 32" "length table \<le> 9960" "clean es"
    and "payload es = vns_message VNS_AUTH_REQUEST salt @ vns_message VNS_AUTH_STATUS (ok # msg) @
      (if cstr (template (router s)) = [] then [] else vns_message VNS_RTABLE (strncpy vhost 32 @ table)) @ rest"
  shows "\<exists>es' t. sr_connect_to_server envs depth con (at_input s es) = Some (Inr (0, at_input t es')) \<and>
    clean es' \<and> payload es' = rest \<and>
    sock_out (router t) = sock_out (router s) @
      [c_auth_reply (cstr (user (router s))) (sha1 (salt @ take 64 content)), open_request (router s)] \<and>
    fs t = (if cstr (template (router s)) = [] then fs s else (fs s)(str_bytes ''rtable.'' @ cstr vhost \<mapsto> table))"
  using connect_effect [OF assms, of depth] by fastforce

definition key_session :: session where
  "key_session = idle_session\<lparr>fs := [str_bytes ''auth_key'' \<mapsto> replicate 64 107]\<rparr>"

theorem handshake_witness:
  "\<exists>es' t. sr_connect_to_server (\<lambda>_. good_vns_env) 1 \<lparr>host_known = True, socket_ok = True, connect_ok = True\<rparr>
      (at_input key_session [Data (vns_message VNS_AUTH_REQUEST [1, 2, 3]), Intr, Data (vns_message VNS_AUTH_STATUS [1])]) =
      Some (Inr (0, at_input t es')) \<and>
    sock_out (router t) = [c_auth_reply (str_bytes ''ada'') (sha1 ([1, 2, 3] @ replicate 64 107)), c_open (router key_session)]"
proof -
  have u: "cstr (user (router key_session)) = str_bytes ''ada''"
    by (simp add: key_session_def idle_session_def cstr_strncpy) (simp add: str_bytes_def cstr_def)
  have t: "cstr (template (router key_session)) = []" "0 \<in> set (template (router key_session))"
    by (simp_all add: key_session_def idle_session_def cstr_def numeral_eq_Suc)
  have nul: "0 \<in> set (user (router key_session))"
    using strncpy_nul [of "str_bytes ''ada''" 32] by (simp add: key_session_def idle_session_def) (simp add: str_bytes_def cstr_def)
  then have ready: "auth_ready good_vns_env (router key_session)"
    by (simp add: auth_ready_def good_vns_env_def blank_context_def)
  have f: "fs key_session (str_bytes ''auth_key'') = Some (replicate 64 107)" by (simp add: key_session_def)
  have o: "sock_out (router key_session) = []" by (simp add: key_session_def idle_session_def empty_instance_def)
  have e: "cstr [] = []" by (simp add: cstr_def)
  show ?thesis
    using handshake [of "\<lambda>_. good_vns_env" key_session "replicate 64 107" "[1, 2, 3]" 1 "[]"
        "\<lparr>host_known = True, socket_ok = True, connect_ok = True\<rparr>" "[]" "[]"
        "[Data (vns_message VNS_AUTH_REQUEST [1, 2, 3]), Intr, Data (vns_message VNS_AUTH_STATUS [1])]" "[]" 1]
      ready f t o by (auto simp: u e open_request_def services_ok_def)
qed

end
