(* ===== verification/SR_Session_Inv.thy ===== *)
theory SR_Session_Inv
  imports SR_Auth
begin

text \<open>
  The states a session can reach, by messages of the server, whatever they contain, and rounds of
  the timeout thread, and what holds in all of them.
\<close>

section \<open>What a message may change\<close>

text \<open>
  A message may add interfaces and set their addresses, change the cache and the log and add to the
  output; it never changes a route, the name of an interface or what the program was started with.
\<close>

definition session_evolves :: "sr_instance \<Rightarrow> sr_instance \<Rightarrow> bool" where
  "session_evolves s t \<longleftrightarrow> routing_table t = routing_table s \<and> user t = user s \<and> host t = host s \<and>
     template t = template s \<and> topo_id t = topo_id s \<and>
     (\<exists>names. map if_name (if_list t) = map if_name (if_list s) @ names) \<and> (\<exists>out. sock_out t = sock_out s @ out)"

lemma session_evolves_refl [simp]: "session_evolves s s"
  by (simp add: session_evolves_def)

lemma session_evolves_trans: "session_evolves s t \<Longrightarrow> session_evolves t u \<Longrightarrow> session_evolves s u"
  by (auto simp: session_evolves_def)

lemma evolves_session: "evolves s t \<Longrightarrow> session_evolves s t"
  by (auto simp: evolves_def same_config_def session_evolves_def)

text \<open>An operation of the session keeps the router well formed.\<close>

definition preserves :: "sr_instance \<Rightarrow> fault + sr_instance \<Rightarrow> bool" where
  "preserves sr r \<longleftrightarrow> (\<forall>sr'. r = Inr sr' \<longrightarrow> sr_wf 34 sr' \<and> session_evolves sr sr')"

lemma preserves_simps [simp]:
  "preserves sr (Inl f)" "preserves sr (Inr sr') \<longleftrightarrow> sr_wf 34 sr' \<and> session_evolves sr sr'"
  by (simp_all add: preserves_def)

lemma preserves_bind:
  "preserves sr r \<Longrightarrow> (\<And>sr1. sr_wf 34 sr1 \<Longrightarrow> preserves sr1 (f sr1)) \<Longrightarrow>
     preserves sr (case r of Inl e \<Rightarrow> Inl e | Inr sr1 \<Rightarrow> f sr1)"
  by (cases r) (auto simp: preserves_def intro: session_evolves_trans)

lemma keeps_preserves: "keeps 34 sr r \<Longrightarrow> preserves sr r"
  by (cases r) (auto simp: keeps_def evolves_session)

text \<open>Memory for an interface is large enough: the uninitialised structure has six address bytes.\<close>

definition vns_env_wf :: "vns_env \<Rightarrow> bool" where
  "vns_env_wf env \<longleftrightarrow> (\<forall>i. length (if_addr (env_raw_if env i)) = 6)"

lemma sr_wf_if_list: "sr_wf m (sr\<lparr>if_list := ifs\<rparr>) \<longleftrightarrow> arpcache_wf (cache sr) \<and> list_all if_wf ifs \<and> queued_ge m (cache sr)"
  by (simp add: sr_wf_def)

lemma map_update_last: "(\<And>i. g (f i) = g i) \<Longrightarrow> map g (update_last f xs) = map g xs"
  by (induction f xs rule: update_last.induct) simp_all

lemma list_all_update_last: "list_all P xs \<Longrightarrow> (\<And>i. P i \<Longrightarrow> P (f i)) \<Longrightarrow> list_all P (update_last f xs)"
  by (induction f xs rule: update_last.induct) simp_all

lemma update_last_preserves:
  assumes "sr_wf 34 sr" "\<And>i. if_name (f i) = if_name i" "\<And>i. if_wf i \<Longrightarrow> if_wf (f i)"
  shows "preserves sr (Inr (sr\<lparr>if_list := update_last f (if_list sr)\<rparr>))"
  using assms map_update_last [of if_name f "if_list sr"] list_all_update_last [of if_wf "if_list sr" f]
  by (simp add: sr_wf_if_list session_evolves_def) (simp add: sr_wf_def)

lemma hw_entry_preserves:
  assumes "sr_wf 34 sr" "vns_env_wf env"
  shows "preserves sr (hw_entry env buf i sr)"
proof -
  have add: "preserves sr (sr_add_interface (os env) (env_raw_if env i) sr value)" for "value"
    using assms by (simp add: sr_add_interface_def append_interface_eq sr_wf_if_list session_evolves_def if_wf_def
        sr_IFACE_NAMELEN_def vns_env_wf_def) (simp add: sr_wf_def if_wf_def)
  have ip: "preserves sr (sr_set_ether_ip sr v)" for v
    using update_last_preserves [OF assms(1), of "\<lambda>i. i\<lparr>if_ip := v\<rparr>"] by (simp add: sr_set_ether_ip_def if_wf_def del: preserves_simps(2))
  have mac: "preserves sr (sr_set_ether_addr sr v)" for v
  proof (cases "if_list sr = [] \<or> length v < 6")
    case True
    then show ?thesis by (auto simp: sr_set_ether_addr_def rd_bytes_def)
  next
    case False
    then show ?thesis
      using update_last_preserves [OF assms(1), of "\<lambda>i. i\<lparr>if_addr := take 6 v\<rparr>"]
      by (simp add: sr_set_ether_addr_def if_wf_def del: preserves_simps(2))
  qed
  show ?thesis using add ip mac assms(1) by (simp add: hw_entry_def Let_def split: sum.split)
qed

lemma hwinfo_loop_preserves: "sr_wf 34 sr \<Longrightarrow> vns_env_wf env \<Longrightarrow> preserves sr (hwinfo_loop env buf is sr)"
proof (induction "is" arbitrary: sr)
  case (Cons i "is")
  from preserves_bind [OF hw_entry_preserves [OF Cons.prems(1,2)] Cons.IH [OF _ Cons.prems(2)]] show ?case by simp
qed simp

lemma sr_log_packet_only_log: "sr_log_packet env sr buf len = Inr sr1 \<Longrightarrow> \<exists>l. sr1 = sr\<lparr>logfile := l\<rparr>"
  by (auto simp: sr_log_packet_def Let_def split: option.splits sum.splits) (metis sr_instance.surjective sr_instance.update_convs(8))

lemma vns_packet_preserves:
  assumes "sr_wf 34 sr"
  shows "preserves sr (vns_packet env depth sr buf)"
proof -
  have "preserves sr (case sr_log_packet (os env) sr packet n of Inl f \<Rightarrow> Inl f
      | Inr sr1 \<Rightarrow> sr_handlepacket (os env) depth sr1 packet name)" for packet n name
  proof (rule preserves_bind)
    show "preserves sr (sr_log_packet (os env) sr packet n)"
      using assms sr_log_packet_only_log [of "os env" sr packet n]
      by (auto simp: preserves_def sr_wf_def session_evolves_def)
    show "preserves sr1 (sr_handlepacket (os env) depth sr1 packet name)" if "sr_wf 34 sr1" for sr1
      using that by (intro keeps_preserves sr_handlepacket_keeps) auto
  qed
  note passed_on = this
  let ?a = "sr_arp_req_not_for_us sr (drop sizeof_c_packet_header buf) (ntohl (ld32 buf 0) - word_of_nat sizeof_c_packet_header)
    (drop sizeof_c_base buf)"
  consider f where "?a = Inl f" | "?a = Inr True" | "?a = Inr False"
    by (cases ?a) auto
  then show ?thesis
    using assms passed_on unfolding vns_packet_def Let_def by cases simp_all
qed

lemma auth_request_preserves:
  assumes "sr_wf 34 sr" "sr_handle_auth_request env files sr buf = Inr (rc, sr')"
  shows "sr_wf 34 sr' \<and> session_evolves sr sr'"
proof -
  have "sr' = sr \<or> (\<exists>m. sr' = sr\<lparr>sock_out := sock_out sr @ [m]\<rparr>)"
    using assms(2) by (auto simp: sr_handle_auth_request_def Let_def split: option.splits if_splits sum.splits)
  then show ?thesis using assms(1) by (auto simp: sr_wf_def session_evolves_def)
qed

lemma dispatch_preserves:
  assumes "sr_wf 34 (router s)" "vns_env_wf env" "dispatch_command env depth s buf command = Inr (rc, t)"
  shows "sr_wf 34 (router t) \<and> session_evolves (router s) (router t)"
proof -
  have hw: "sr_wf 34 sr' \<and> session_evolves (router s) sr'" if "sr_handle_hwinfo env (router s) buf = Inr (n, sr')" for n sr'
    using that hwinfo_loop_preserves [OF assms(1,2)] by (auto simp: sr_handle_hwinfo_def Let_def preserves_def split: sum.splits)
  have pk: "sr_wf 34 sr' \<and> session_evolves (router s) sr'" if "vns_packet env depth (router s) buf = Inr sr'" for sr'
    using that vns_packet_preserves [OF assms(1), of env depth buf] by (simp add: preserves_def)
  note au = auth_request_preserves [OF assms(1)]
  show ?thesis
    using assms(3,1) hw pk au unfolding dispatch_command_def by (auto split: if_splits sum.splits)
qed

lemma handle_command_preserves:
  assumes "sr_wf 34 (router s)" "vns_env_wf env" "handle_command env depth s buf expected = Inr (rc, t)"
  shows "sr_wf 34 (router t) \<and> session_evolves (router s) (router t)"
  using assms dispatch_preserves [OF assms(1,2)]
  by (auto simp: handle_command_def Let_def split: sum.splits if_splits)

section \<open>Reading keeps the router\<close>

context fill_loop
begin

lemma only_input:
  assumes "loop got s = Some y" "\<And>s. router (on_fail s) = router s \<and> fs (on_fail s) = fs s"
  shows "router (snd y) = router s \<and> fs (snd y) = fs s"
proof -
  have rc: "recv k s = Some (r, s1) \<Longrightarrow> router s1 = router s \<and> fs s1 = fs s" for k s r s1
    by (auto simp: recv_def split: if_splits)
  show ?thesis
  proof (rule induct [where P = "\<lambda>got s y. router (snd y) = router s \<and> fs (snd y) = fs s", OF _ assms(1)])
    fix f :: "bytes \<Rightarrow> session \<Rightarrow> (bytes option \<times> session) option" and got s y
    assume IH: "\<And>got s y. f got s = Some y \<Longrightarrow> router (snd y) = router s \<and> fs (snd y) = fs s"
    assume body: "fill_body n on_fail f got s = Some y"
    show "router (snd y) = router s \<and> fs (snd y) = fs s"
    proof (cases "length got < n")
      case True
      then obtain r s1 where r: "recv (n - length got) s = Some (r, s1)"
        using body by (cases "recv (n - length got) s") (auto simp: fill_body_def)
      from True body r rc [OF r] IH assms(2) show ?thesis by (cases r) (auto simp: fill_body_def)
    qed (use body in \<open>auto simp: fill_body_def\<close>)
  qed
qed

end

text \<open>A call that returns has left the router and the files alone, or it is the result of handling one message.\<close>

lemma read_router_cases:
  assumes "sr_read_from_server_expect env depth s expected = Some (Inr (rc, t))"
  obtains "router t = router s" "fs t = fs s"
    | s2 buf where "router s2 = router s" "fs s2 = fs s" "handle_command env depth s2 buf expected = Inr (rc, t)"
proof -
  have len: "read_len [] s = Some (r, s1) \<Longrightarrow> router s1 = router s \<and> fs s1 = fs s" for r s1
    using rl.only_input [of "[]" s "(r, s1)"] by simp
  have body: "read_body n [] s1 = Some (r, s2) \<Longrightarrow> router s2 = router s1 \<and> fs s2 = fs s1" for n r s1 s2
    using rb.only_input [of n "[]" s1 "(r, s2)"] by simp
  obtain hdr s1 where 1: "read_len [] s = Some (hdr, s1)"
    using assms by (cases "read_len [] s") (auto simp: sr_read_from_server_expect_def)
  show thesis
  proof (cases hdr)
    case None
    then show thesis using assms 1 len [OF 1] that(1) by (auto simp: sr_read_from_server_expect_def)
  next
    case (Some bs)
    let ?len = "sint (ntohl (ld32 bs 0))"
    consider "?len > 10000 \<or> ?len < 0" | "\<not> (?len > 10000 \<or> ?len < 0)" "\<not> env_malloc (os env) (nat ?len)"
      | "\<not> (?len > 10000 \<or> ?len < 0)" "env_malloc (os env) (nat ?len)" "4 \<le> ?len"
      using assms 1 Some by (auto simp: sr_read_from_server_expect_def Let_def not_less split: if_splits)
    then show thesis
    proof cases
      case 3
      then have eq: "sr_read_from_server_expect env depth s expected =
          Option.bind (read_body (nat ?len - 4) [] s1) (\<lambda>(rest, s2).
            case rest of None \<Rightarrow> Some (Inr (- 1, s2)) | Some body \<Rightarrow>
              Some (handle_command env depth s2 (le32 (htonl (word_of_int ?len)) @ body) expected))"
        using 1 Some by (simp add: sr_read_from_server_expect_def Let_def)
      obtain rest s2 where 2: "read_body (nat ?len - 4) [] s1 = Some (rest, s2)"
        using assms unfolding eq by (cases "read_body (nat ?len - 4) [] s1") auto
      have "router s2 = router s" "fs s2 = fs s" using body [OF 2] len [OF 1] by simp_all
      then show thesis using assms 2 that unfolding eq by (cases rest) auto
    qed (use assms 1 Some len [OF 1] that(1) in \<open>auto simp: sr_read_from_server_expect_def Let_def\<close>)
  qed
qed

lemma read_expect_preserves:
  assumes "sr_wf 34 (router s)" "vns_env_wf env" "sr_read_from_server_expect env depth s expected = Some (Inr (rc, t))"
  shows "sr_wf 34 (router t) \<and> session_evolves (router s) (router t)"
  using assms(3)
proof (cases rule: read_router_cases)
  case (2 s2 buf)
  with handle_command_preserves [OF _ assms(2) 2(3)] assms(1) show ?thesis by simp
qed (use assms(1) in simp)

section \<open>Reachable sessions\<close>

text \<open>
  From the start of the main loop on: input arrives, a message is read and handled, or the timeout
  thread makes a round.  A step is an operation that returns without a fault.
\<close>

inductive session_reachable :: "session \<Rightarrow> session \<Rightarrow> bool" for start :: session where
  start: "session_reachable start (start\<lparr>router := sr_init (router start)\<rparr>)"
| arrive: "session_reachable start s \<Longrightarrow> session_reachable start (s\<lparr>inbox := inbox s @ es\<rparr>)"
| receive: "session_reachable start s \<Longrightarrow> vns_env_wf env \<Longrightarrow>
    sr_read_from_server env depth s = Some (Inr (rc, t)) \<Longrightarrow> session_reachable start t"
| tick: "session_reachable start s \<Longrightarrow> sr_arpcache_timeout_round env depth (router s) = Inr sr \<Longrightarrow>
    session_reachable start (s\<lparr>router := sr\<rparr>)"

text \<open>
  C11.  Whatever the server sends and whenever the timeout thread runs, the state of the router stays
  well typed: every interface has a name array of 32 bytes and a hardware address of 6, the ARP table
  has its 100 slots, there is one request per next hop with frames of at least 34 bytes waiting;
  routes, interface names and the user's settings never change, interfaces are only added, and output
  is only appended.
\<close>

theorem session_stays_well_typed:
  assumes "session_reachable start s" "list_all if_wf (if_list (router start))"
  shows "sr_wf 34 (router s) \<and> session_evolves (router start) (router s)"
  using assms
proof (induction rule: session_reachable.induct)
  case start
  then show ?case by (simp add: init_state_wf) (simp add: sr_init_def session_evolves_def)
next
  case (receive s env depth rc t)
  then have "sr_wf 34 (router s)" "session_evolves (router start) (router s)" by simp_all
  with read_expect_preserves [OF this(1) receive.hyps(2), of depth 0 rc t] receive.hyps(3) show ?case
    by (auto simp: sr_read_from_server_def intro: session_evolves_trans)
next
  case (tick s env depth sr)
  then have wf: "sr_wf 34 (router s)" "session_evolves (router start) (router s)" by simp_all
  have "keeps 34 (router s) (sr_arpcache_timeout_round env depth (router s))" using wf(1) by (simp add: timeout_round_keeps)
  then have "preserves (router s) (Inr sr)" using keeps_preserves tick.hyps(2) by metis
  then show ?case using wf(2) by (auto intro: session_evolves_trans)
qed simp

theorem session_stays_well_typed_witness:
  "\<exists>s. session_reachable idle_session s \<and> shown s = [[104, 105]] \<and> sr_wf 34 (router s)"
proof -
  let ?s = "idle_session\<lparr>router := sr_init (router idle_session)\<rparr>"
  let ?in = "?s\<lparr>inbox := inbox ?s @ [Data banner]\<rparr>"
  have r: "session_reachable idle_session ?in" by (intro session_reachable.arrive session_reachable.start)
  have i: "?in = at_input ?s [Data banner]" by (simp add: at_input_def idle_session_def)
  have pay: "payload [Data banner] = vns_message VNSBANNER [104, 105, 0] @ []" by (simp add: banner_def)
  have h: "handle_command good_vns_env 1 ?s (vns_message VNSBANNER [104, 105, 0]) 0 = Inr (1, ?s\<lparr>shown := shown ?s @ [[104, 105]]\<rparr>)"
    using banner_props(3) by (simp add: banner_def)
  obtain es where "sr_read_from_server_expect good_vns_env 1 (at_input ?s [Data banner]) 0 =
      Some (Inr (1, at_input (?s\<lparr>shown := shown ?s @ [[104, 105]]\<rparr>) es))"
    by (rule read_message [OF _ pay _ _ h]) simp_all
  then have "sr_read_from_server_expect good_vns_env 1 ?in 0 = Some (Inr (1, at_input (?s\<lparr>shown := shown ?s @ [[104, 105]]\<rparr>) es))"
    by (simp only: i)
  moreover have "vns_env_wf good_vns_env" by (simp add: vns_env_wf_def good_vns_env_def)
  ultimately have t: "session_reachable idle_session (at_input (?s\<lparr>shown := shown ?s @ [[104, 105]]\<rparr>) es)"
    using session_reachable.receive [OF r] by (simp add: sr_read_from_server_def)
  have "list_all if_wf (if_list (router idle_session))" "shown idle_session = []" by (simp_all add: idle_session_def empty_instance_def)
  with t session_stays_well_typed [OF t] show ?thesis
    by (intro exI [of _ "at_input (?s\<lparr>shown := shown ?s @ [[104, 105]]\<rparr>) es"]) auto
qed

end
