(* ===== verification/SR_Giveup.thy ===== *)
theory SR_Giveup
  imports SR_Safety
begin

text \<open>
  What becomes of frames whose next hop never answers: the retries, the give-up, and the
  host-unreachable errors towards the senders of the frames.
\<close>

section \<open>The notices of a give-up\<close>

text \<open>
  The error about a frame, with the next hop it waits for: none without a route back or without an
  address on the interface of the route back.
\<close>

definition notice :: "sr_instance \<Rightarrow> sr_packet \<Rightarrow> (u32 \<times> sr_if \<times> bytes) list" where
  "notice sr p =
     (case route_for sr (ip_src (frame_ip (pkt_buf p))) of None \<Rightarrow> []
      | Some (hop, i) \<Rightarrow> if if_ip i = 0 then [] else [(hop, i, unreachable_frame 3 1 i (pkt_buf p))])"

text \<open>The queue of waiting frames after some frames have been queued.\<close>

fun add_waiting :: "(u32 \<times> sr_if \<times> bytes) list \<Rightarrow> (u32 \<Rightarrow> sr_packet list option) \<Rightarrow> u32 \<Rightarrow> sr_packet list option" where
  "add_waiting [] w = w"
| "add_waiting ((hop, i, f) # xs) w =
     add_waiting xs (w(hop \<mapsto> queued_packet f (if_name i) # (case w hop of None \<Rightarrow> [] | Some ps \<Rightarrow> ps)))"

lemma notice_cases:
  "error_hop sr (pkt_buf p) = None \<Longrightarrow> notice sr p = []"
  "route_for sr (ip_src (frame_ip (pkt_buf p))) = Some (hop, i) \<Longrightarrow> if_ip i \<noteq> 0 \<Longrightarrow>
     notice sr p = [(hop, i, unreachable_frame 3 1 i (pkt_buf p))]"
  by (auto simp: notice_def error_hop_def split: option.splits if_splits)

lemma notice_config: "same_config s t \<Longrightarrow> notice t = notice s"
  using route_for_config [of s t] by (simp add: fun_eq_iff notice_def)

lemma add_waiting_append: "add_waiting (xs @ ys) w = add_waiting ys (add_waiting xs w)"
  by (induction xs w rule: add_waiting.induct) (simp_all del: fun_upd_apply)

lemma add_waiting_other: "hop \<notin> fst ` set xs \<Longrightarrow> add_waiting xs w hop = w hop"
  by (induction xs w rule: add_waiting.induct) auto

text \<open>What a queued error looks like.\<close>

definition reports_unreachable :: "sr_if \<Rightarrow> bytes \<Rightarrow> bytes \<Rightarrow> bool" where
  "reports_unreachable i orig f \<longleftrightarrow> take 6 (drop 6 f) = if_addr i \<and> ip_valid f \<and>
     ip_src (frame_ip f) = if_ip i \<and> ip_dst (frame_ip f) = ip_src (frame_ip orig) \<and>
     ip_p (frame_ip f) = 1 \<and> f ! 34 = 3 \<and> f ! 35 = 1 \<and> sum_valid (drop 34 f) 2 \<and> quotes f orig"

lemma unreachable_frame_reports:
  assumes "42 \<le> length orig" "length (if_addr i) = 6"
  shows "reports_unreachable i orig (unreachable_frame 3 1 i orig)"
    "length (unreachable_frame 3 1 i orig) = 70" "drop 42 (unreachable_frame 3 1 i orig) = take 28 (drop 14 orig)"
proof -
  have "length (take 28 (drop 14 orig)) = 28" using assms(1) by simp
  note e = routed_error [OF this assms(2), of 3 1 "if_ip i" "ip_src (frame_ip orig)", folded unreachable_frame_def]
  then show l: "length (unreachable_frame 3 1 i orig) = 70" and q: "drop 42 (unreachable_frame 3 1 i orig) = take 28 (drop 14 orig)"
    by simp_all
  show "reports_unreachable i orig (unreachable_frame 3 1 i orig)" using e quotesI [OF l q] by (simp add: reports_unreachable_def)
qed

section \<open>Queueing one notice\<close>

lemma notice_queued:
  assumes mem: "mem_ok env" and wf: "sr_wf 42 sr" and own: "own_unrouted sr" and len: "42 \<le> length orig"
    and hop: "error_hop sr orig = Some hop"
    and fresh: "\<And>a r. (a, r) \<in> set (requests (cache sr)) \<Longrightarrow> req_ip r = hop \<Longrightarrow> \<not> expired (env_time env) r"
  obtains sr' i where "send_icmp_error_with (handle_arpreq env (Suc d)) env sr 3 1 orig 0 = Inr sr'"
    "route_for sr (ip_src (frame_ip orig)) = Some (hop, i)" "if_ip i \<noteq> 0" "sr_wf 42 sr'" "same_config sr sr'"
    "entries (cache sr') = entries (cache sr)"
    "pending (cache sr') = add_waiting [(hop, i, unreachable_frame 3 1 i orig)] (pending (cache sr))"
    "sock_out sr' = sock_out sr @ (if arp_due (env_time env) (cache sr) hop then [packet_message (arp_query i hop) (if_name i)] else [])"
    "progress (env_time env) (\<lambda>_. 0) 0 (silent sr) (cache sr) (cache sr')"
proof -
  have cwf: "arpcache_wf (cache sr)" using wf by (simp add: sr_wf_def)
  obtain i a c where send: "send_icmp_error_with (handle_arpreq env (Suc d)) env sr 3 1 orig 0 = handle_arpreq env (Suc d) (sr\<lparr>cache := c\<rparr>) a"
    and q: "sr_arpcache_queuereq env (cache sr) hop (unreachable_frame 3 1 i orig) (if_name i) = Inr (a, c)"
    and f: "length (unreachable_frame 3 1 i orig) = 70" "error_hop sr (unreachable_frame 3 1 i orig) = None"
    and i: "route_for sr (ip_src (frame_ip orig)) = Some (hop, i)" "if_ip i \<noteq> 0"
    by (rule unreachable_exact [OF mem wf len own hop])
  let ?f = "unreachable_frame 3 1 i orig" and ?s = "sr\<lparr>cache := c\<rparr>"
  have ne: "?f \<noteq> []" using f(1) by auto
  have s: "sr_wf 42 ?s"
    using queuereq_wf [OF q] queued_ge_queuereq [OF q, of 42] ne wf f(1) by (auto simp: sr_wf_def)
  obtain r ps where r: "map_of (requests c) a = Some r" "\<not> expired (env_time env) r" "req_ip r = hop"
    "req_packets r = queued_packet ?f (if_name i) # ps"
    and due: "arp_due (env_time env) (cache sr) hop \<longleftrightarrow> 1 \<le> env_time env - req_sent r" and ent: "entries c = entries (cache sr)"
    by (rule queue_fresh [OF q ne cwf, of "env_time env"]) (use fresh in auto)
  have r': "map_of (requests (cache ?s)) a = Some r" using r(1) by simp
  have name: "sr_get_interface ?s (pkt_iface (queued_packet ?f (if_name i))) = Some i"
    using route_own_iface [OF i(1)] sr_get_interface_cong [of ?s sr] by simp
  obtain sr' where h: "handle_arpreq env (Suc d) ?s a = Inr sr'" and cfg: "same_config ?s sr'"
    and e: "entries (cache sr') = entries (cache ?s)" and pend: "pending (cache sr') = pending (cache ?s)"
    and out: "sock_out sr' = sock_out ?s @ (if 1 \<le> env_time env - req_sent r
       then [packet_message (arp_query i (req_ip r)) (if_name i)] else [])"
    by (rule handle_fresh_effect [OF mem s r' r(2,4) name])
  have p2: "progress (env_time env) (\<lambda>_. 0) 0 (silent sr) c (cache sr')"
    by (rule handle_fresh_returns [OF mem s r' r(2), of d "\<lambda>_. 0" 0 "silent sr"]) (use h in simp)
  have p1: "progress (env_time env) (\<lambda>_. 0) 0 (silent sr) (cache sr) c"
    using queuereq_progress [OF q cwf ne] f(2) by auto
  have "sr_wf 42 sr'" using handle_arpreq_keeps [of 42 ?s env "Suc d" a] s h by (simp add: keeps_Inr)
  then show thesis
    using that [of sr' i] send h i cfg e ent out r(3) due pend pending_queuereq [OF q cwf ne] progress_trans [OF p1 p2 cwf]
    by (simp add: same_config_def)
qed

section \<open>Giving up\<close>

definition notices :: "sr_instance \<Rightarrow> sr_packet list \<Rightarrow> (u32 \<times> sr_if \<times> bytes) list" where
  "notices sr pkts = concat (map (notice sr) pkts)"

definition query :: "u32 \<times> sr_if \<times> bytes \<Rightarrow> bytes" where
  "query n = (case n of (hop, i, f) \<Rightarrow> packet_message (arp_query i hop) (if_name i))"

lemma flat_fresh_hop:
  assumes "flat now sr" "sr_wf 42 sr" "map_of (requests (cache sr)) a = Some r" "expired now r" "p \<in> set (req_packets r)"
    and "error_hop sr (pkt_buf p) = Some hop" "(b, q) \<in> set (requests (cache sr))" "req_ip q = hop"
  shows "\<not> expired now q"
proof
  assume ex: "expired now q"
  have wf: "arpcache_wf (cache sr)" using assms(2) by (simp add: sr_wf_def)
  from rankedD [OF assms(1) wf assms(3-5) _ ex] assms(6-8) wf_map_of [OF wf] show False by simp
qed

text \<open>The state after some notices have been queued: what is sent are ARP requests for their hops.\<close>

definition notified :: "sr_env \<Rightarrow> sr_instance \<Rightarrow> (u32 \<times> sr_if \<times> bytes) list \<Rightarrow> sr_instance \<Rightarrow> bool" where
  "notified env s ns t \<longleftrightarrow> sr_wf 42 t \<and> same_config s t \<and>
     progress (env_time env) (\<lambda>_. 0) 0 (silent s) (cache s) (cache t) \<and> entries (cache t) = entries (cache s) \<and>
     pending (cache t) = add_waiting ns (pending (cache s)) \<and>
     (\<exists>asked. sock_out t = sock_out s @ map query asked \<and> set asked \<subseteq> set ns)"

lemma notified_Nil: "sr_wf 42 s \<Longrightarrow> notified env s [] s"
  by (simp add: notified_def)

lemma notified_trans:
  assumes "sr_wf 42 s" "notified env s ns t" "notified env t ms u"
  shows "notified env s (ns @ ms) u"
proof -
  have cfg: "same_config s t" "same_config t u" using assms(2,3) by (simp_all add: notified_def)
  have pr: "progress (env_time env) (\<lambda>_. 0) 0 (silent s) (cache s) (cache t)"
    "progress (env_time env) (\<lambda>_. 0) 0 (silent s) (cache t) (cache u)"
    using assms(2,3) error_hop_config [OF cfg(1)] by (simp_all add: notified_def)
  obtain as bs where "sock_out t = sock_out s @ map query as" "set as \<subseteq> set ns"
    "sock_out u = sock_out t @ map query bs" "set bs \<subseteq> set ms"
    using assms(2,3) unfolding notified_def by blast
  then have "\<exists>asked. sock_out u = sock_out s @ map query asked \<and> set asked \<subseteq> set (ns @ ms)"
    by (intro exI [of _ "as @ bs"]) auto
  then show ?thesis
    using assms(2,3) same_config_trans [OF cfg] progress_trans [OF pr sr_wf_arpcache [OF assms(1)]]
    by (simp add: notified_def add_waiting_append)
qed

lemma notify_sender:
  assumes mem: "mem_ok env" and wf: "sr_wf 42 s" and own: "own_unrouted s" and len: "42 \<le> length (pkt_buf p)"
    and fresh: "\<And>hop b q. error_hop s (pkt_buf p) = Some hop \<Longrightarrow> (b, q) \<in> set (requests (cache s)) \<Longrightarrow> req_ip q = hop \<Longrightarrow>
      \<not> expired (env_time env) q"
  shows "\<exists>t. send_icmp_error_with (handle_arpreq env (Suc d)) env s 3 1 (pkt_buf p) 0 = Inr t \<and> notified env s (notice s p) t"
proof (cases "error_hop s (pkt_buf p)")
  case None
  then show ?thesis using len wf notified_Nil by (simp add: unreachable_none notice_cases(1))
next
  case (Some h)
  obtain t i where t: "send_icmp_error_with (handle_arpreq env (Suc d)) env s 3 1 (pkt_buf p) 0 = Inr t"
    "route_for s (ip_src (frame_ip (pkt_buf p))) = Some (h, i)" "if_ip i \<noteq> 0" "sr_wf 42 t" "same_config s t"
    "entries (cache t) = entries (cache s)"
    "pending (cache t) = add_waiting [(h, i, unreachable_frame 3 1 i (pkt_buf p))] (pending (cache s))"
    "sock_out t = sock_out s @ (if arp_due (env_time env) (cache s) h then [packet_message (arp_query i h) (if_name i)] else [])"
    "progress (env_time env) (\<lambda>_. 0) 0 (silent s) (cache s) (cache t)"
    by (rule notice_queued [OF mem wf own len Some]) (use fresh Some in auto)
  have n: "notice s p = [(h, i, unreachable_frame 3 1 i (pkt_buf p))]" by (rule notice_cases(2) [OF t(2,3)])
  have "sock_out t = sock_out s @ map query (if arp_due (env_time env) (cache s) h then notice s p else [])"
    using t(8) n by (simp add: query_def)
  moreover have "set (if arp_due (env_time env) (cache s) h then notice s p else []) \<subseteq> set (notice s p)" by auto
  ultimately have "notified env s (notice s p) t" using t(4-7,9) unfolding notified_def n by blast
  with t(1) show ?thesis by blast
qed

lemma notified_fresh:
  assumes flat: "flat (env_time env) sr" and wf: "sr_wf 42 sr" and n: "notified env sr ns s"
    and r: "map_of (requests (cache sr)) a = Some r" "expired (env_time env) r" "p \<in> set (req_packets r)"
    and q: "error_hop s (pkt_buf p) = Some hop" "(b, q) \<in> set (requests (cache s))" "req_ip q = hop"
  shows "\<not> expired (env_time env) q"
proof
  assume ex: "expired (env_time env) q"
  have st: "state_progress (env_time env) (silent sr) (cache sr) (cache s)" using n by (simp add: notified_def progress_def)
  have "sr_wf 42 s" using n by (simp add: notified_def)
  then have m: "map_of (requests (cache s)) b = Some q" using q(2) by (simp add: wf_map_of sr_wf_arpcache)
  have hop: "error_hop sr (pkt_buf p) = Some hop" using q(1) error_hop_config [of sr s] n by (simp add: notified_def)
  obtain q0 where q0: "map_of (requests (cache sr)) b = Some q0" "expired (env_time env) q0"
    using state_progressD(2) [OF st m ex] by blast
  then have "req_ip q0 = hop" using state_progressD(1) [OF st q0(1) m] q(3) by simp
  with flat_fresh_hop [OF flat wf r hop map_of_SomeD [OF q0(1)]] q0(2) show False by simp
qed

lemma giveup_loop:
  assumes mem: "mem_ok env" and wf: "sr_wf 42 sr" and own: "own_unrouted sr" and flat: "flat (env_time env) sr"
    and r: "map_of (requests (cache sr)) a = Some r" "expired (env_time env) r"
  shows "set pkts \<subseteq> set (req_packets r) \<Longrightarrow> notified env sr ns s \<Longrightarrow>
    \<exists>t. unreachable_loop (handle_arpreq env (Suc d)) env s a pkts = Inr t \<and> notified env sr (ns @ notices sr pkts) t"
proof (induction pkts arbitrary: s ns)
  case Nil
  then show ?case by (simp add: notices_def)
next
  case (Cons p pkts)
  note n = Cons.prems(2)
  have p: "p \<in> set (req_packets r)" "set pkts \<subseteq> set (req_packets r)" using Cons.prems(1) by auto
  have s: "sr_wf 42 s" "same_config sr s" "progress (env_time env) (\<lambda>_. 0) 0 (silent sr) (cache sr) (cache s)"
    using n by (simp_all add: notified_def)
  have len: "42 \<le> length (pkt_buf p)" using deref_ge [OF wf, of a r p] r(1) p(1) by (simp add: deref_req_Inr)
  obtain r1 where live: "map_of (requests (cache s)) a = Some r1" by (rule progress_survivor [OF s(3) r(1)]) auto
  have own1: "own_unrouted s" using own own_unrouted_config [OF s(2)] by simp
  obtain s1 where s1: "send_icmp_error_with (handle_arpreq env (Suc d)) env s 3 1 (pkt_buf p) 0 = Inr s1"
    "notified env s (notice s p) s1"
    using notify_sender [OF mem s(1) own1 len, of d] notified_fresh [OF flat wf n r p(1)] by blast
  have "notified env sr (ns @ notice sr p) s1" using notified_trans [OF wf n s1(2)] notice_config [OF s(2)] by simp
  with Cons.IH [OF p(2) this] obtain t where "unreachable_loop (handle_arpreq env (Suc d)) env s1 a pkts = Inr t"
    "notified env sr (ns @ notices sr (p # pkts)) t" by (auto simp: notices_def)
  then show ?case using live len s1(1) by (simp add: deref_req_def layout del: handle_arpreq.simps)
qed

lemma find_req_unlink:
  "distinct (map fst rs) \<Longrightarrow> distinct (map (req_ip \<circ> snd) rs) \<Longrightarrow> (a, r) \<in> set rs \<Longrightarrow>
     find_req (unlink_req rs a) ip = (if ip = req_ip r then None else find_req rs ip)"
  by (induction rs a rule: unlink_req.induct) (auto simp: find_req_None rev_image_eqI)

lemma pending_destroy:
  assumes "arpcache_wf c" "map_of (requests c) a = Some r"
  shows "pending (sr_arpreq_destroy c a) = (pending c)(req_ip r := None)"
  using find_req_unlink [of "requests c" a r] map_of_SomeD [OF assms(2)] assms(1)
  by (auto simp: fun_eq_iff pending_def sr_arpreq_destroy_def arpcache_wf_def)

lemma giveup_effect:
  assumes mem: "mem_ok env" and wf: "sr_wf 42 sr" and own: "own_unrouted sr" and flat: "flat (env_time env) sr"
    and r: "map_of (requests (cache sr)) a = Some r" "expired (env_time env) r"
  obtains sr' asked where "handle_arpreq env (Suc (Suc d)) sr a = Inr sr'" "same_config sr sr'"
    "entries (cache sr') = entries (cache sr)" "sr_wf 42 sr'"
    "pending (cache sr') = (add_waiting (notices sr (req_packets r)) (pending (cache sr)))(req_ip r := None)"
    "sock_out sr' = sock_out sr @ map query asked" "set asked \<subseteq> set (notices sr (req_packets r))"
proof -
  obtain sr2 where l: "unreachable_loop (handle_arpreq env (Suc d)) env sr a (req_packets r) = Inr sr2"
    and n: "notified env sr (notices sr (req_packets r)) sr2"
    using giveup_loop [OF mem wf own flat r order_refl notified_Nil [OF wf], of d] by auto
  then obtain asked where s2: "sr_wf 42 sr2"
    "same_config sr sr2" "progress (env_time env) (\<lambda>_. 0) 0 (silent sr) (cache sr) (cache sr2)"
    "entries (cache sr2) = entries (cache sr)" "pending (cache sr2) = add_waiting (notices sr (req_packets r)) (pending (cache sr))"
    "sock_out sr2 = sock_out sr @ map query asked" "set asked \<subseteq> set (notices sr (req_packets r))" unfolding notified_def by blast
  obtain r2 where r2: "map_of (requests (cache sr2)) a = Some r2" "req_ip r2 = req_ip r"
    by (rule progress_survivor [OF s2(3) r(1)]) auto
  let ?s = "sr2\<lparr>cache := sr_arpreq_destroy (cache sr2) a\<rparr>"
  have h: "handle_arpreq env (Suc (Suc d)) sr a = Inr ?s"
    using r l r2(1)
    by (simp add: handle_arpreq.simps(2) [of env "Suc d"] handle_arpreq_body_def deref_req_def expired_def del: handle_arpreq.simps)
  moreover have "sr_wf 42 ?s" using handle_arpreq_keeps [of 42 sr env "Suc (Suc d)" a] wf h by (simp add: keeps_Inr)
  ultimately show thesis
    using that [of ?s asked] s2 r2(2) pending_destroy [OF sr_wf_arpcache [OF s2(1)] r2(1)]
    by (simp add: same_config_def sr_arpreq_destroy_def)
qed

text \<open>
  C28.  Giving up on a next hop tells every sender, provided that no error for a frame of an expired request
  goes to a next hop that has expired itself (\<open>ranked\<close>; otherwise the errors may cause each other without end): for
  each frame that waited, in the order of the queue, a host-unreachable error (type 3, code 1, with
  valid checksums, quoting the beginning of the packet) is queued for the next hop towards its
  sender, unless there is no route back; the request is removed, frames waiting for other hops stay,
  and nothing is sent but ARP requests for the hops of the errors.
\<close>

theorem giveup_notifies_senders:
  assumes "mem_ok env" "sr_wf 42 sr" "own_unrouted sr" "ranked (env_time env) (\<lambda>_. 0) sr" "2 \<le> depth"
    and "map_of (requests (cache sr)) a = Some r" "expired (env_time env) r"
  shows "\<exists>sr' asked. handle_arpreq env depth sr a = Inr sr' \<and> same_config sr sr' \<and>
    pending (cache sr') = (add_waiting (notices sr (req_packets r)) (pending (cache sr)))(req_ip r := None) \<and>
    sock_out sr' = sock_out sr @ map query asked \<and> set asked \<subseteq> set (notices sr (req_packets r)) \<and>
    (\<forall>p\<in>set (req_packets r). case route_for sr (ip_src (frame_ip (pkt_buf p))) of None \<Rightarrow> notice sr p = []
       | Some (hop, i) \<Rightarrow> if if_ip i = 0 then notice sr p = []
           else hop \<noteq> req_ip r \<and> (\<exists>f. notice sr p = [(hop, i, f)] \<and> reports_unreachable i (pkt_buf p) f))"
proof -
  obtain d where d: "depth = Suc (Suc d)" using assms(5) by (metis add_2_eq_Suc le_Suc_ex)
  have "case route_for sr (ip_src (frame_ip (pkt_buf p))) of None \<Rightarrow> notice sr p = []
       | Some (hop, i) \<Rightarrow> if if_ip i = 0 then notice sr p = []
           else hop \<noteq> req_ip r \<and> (\<exists>f. notice sr p = [(hop, i, f)] \<and> reports_unreachable i (pkt_buf p) f)"
    if p: "p \<in> set (req_packets r)" for p
  proof (cases "error_hop sr (pkt_buf p)")
    case None
    then show ?thesis using notice_cases(1) [OF None] by (auto simp: error_hop_def split: option.splits if_splits)
  next
    case (Some hop)
    then obtain i where i: "route_for sr (ip_src (frame_ip (pkt_buf p))) = Some (hop, i)" "if_ip i \<noteq> 0"
      by (auto simp: error_hop_def split: option.splits if_splits)
    have "42 \<le> length (pkt_buf p)" using deref_ge [OF assms(2), of a r p] assms(6) p by (simp add: deref_req_Inr)
    moreover have "length (if_addr i) = 6" using sr_wf_if [OF assms(2) route_for_iface [OF i(1)]] by simp
    moreover have "hop \<noteq> req_ip r"
      using flat_fresh_hop [OF assms(4,2,6,7) p Some map_of_SomeD [OF assms(6)]] assms(7) by blast
    ultimately show ?thesis using i notice_cases(2) [OF i] unreachable_frame_reports(1) by simp
  qed
  note each = this
  obtain sr' asked where "handle_arpreq env (Suc (Suc d)) sr a = Inr sr'" "same_config sr sr'"
    "pending (cache sr') = (add_waiting (notices sr (req_packets r)) (pending (cache sr)))(req_ip r := None)"
    "sock_out sr' = sock_out sr @ map query asked" "set asked \<subseteq> set (notices sr (req_packets r))"
    by (rule giveup_effect [OF assms(1-4,6,7)])
  then show ?thesis unfolding d by (intro exI [of _ sr'] exI [of _ asked] conjI ballI each) simp_all
qed

theorem giveup_notifies_senders_witness:
  "\<exists>sr' f. handle_arpreq (good_env 10) 2 sweep_router 1 = Inr sr' \<and> pending (cache sr') server1 = None \<and>
     pending (cache sr') client = Some [queued_packet f (if_name eth3)] \<and> f ! 34 = 3 \<and> f ! 35 = 1 \<and>
     ip_dst (frame_ip f) = client"
proof -
  let ?p = "\<lparr>pkt_buf = sample_frame client server1 9, pkt_iface = if_named ''eth1''\<rparr>"
  let ?r = "sample_req server1 0 5 [?p]"
  have f: "sr_wf 42 sweep_router" "own_unrouted sweep_router" "ranked (env_time (good_env 10)) (\<lambda>_. 0) sweep_router"
    by (simp_all add: sweep_router_def example_wf ranked_def)
  have r: "map_of (requests (cache sweep_router)) 1 = Some ?r" "expired (env_time (good_env 10)) ?r" "req_packets ?r = [?p]" "req_ip ?r = server1"
    by (simp_all add: sweep_router_def)
  have route: "route_for sweep_router (ip_src (frame_ip (pkt_buf ?p))) = Some (client, eth3)" "if_ip eth3 \<noteq> 0"
    by (simp_all add: sweep_router_def sample_frame_ip eth3_def)
  have pend: "pending (cache sweep_router) client = None"
    by (simp add: pending_def sweep_router_def)
  obtain sr' g where h: "handle_arpreq (good_env 10) 2 sweep_router 1 = Inr sr'"
    and p: "pending (cache sr') = (add_waiting (notices sweep_router [?p]) (pending (cache sweep_router)))(server1 := None)"
    and n: "notice sweep_router ?p = [(client, eth3, g)]" "reports_unreachable eth3 (pkt_buf ?p) g"
    using giveup_notifies_senders [OF mem_ok_good_env f order_refl r(1,2)] route unfolding r by fastforce
  have "pending (cache sr') client = Some [queued_packet g (if_name eth3)]" "pending (cache sr') server1 = None"
    using pend by (simp_all add: p notices_def n(1))
  with h n(2) show ?thesis by (auto simp: reports_unreachable_def sample_frame_ip)
qed

section \<open>A next hop that never answers\<close>

text \<open>The loop of \<^verbatim>\<open>sr_arpcache_timeout\<close>, for as many rounds as there are environments.\<close>

fun timeout_rounds :: "nat \<Rightarrow> sr_instance \<Rightarrow> sr_env list \<Rightarrow> fault + sr_instance" where
  "timeout_rounds depth sr [] = Inr sr"
| "timeout_rounds depth sr (env # envs) =
     (case sr_arpcache_timeout_round env depth sr of Inl f \<Rightarrow> Inl f | Inr sr' \<Rightarrow> timeout_rounds depth sr' envs)"

lemma timeout_rounds_append:
  "timeout_rounds depth sr (xs @ ys) =
     (case timeout_rounds depth sr xs of Inl f \<Rightarrow> Inl f | Inr sr' \<Rightarrow> timeout_rounds depth sr' ys)"
  by (induction xs arbitrary: sr) (simp_all split: sum.split)

text \<open>The router waits for one next hop, with one frame, after \<open>k\<close> requests, the last at time \<open>t\<close>.\<close>

definition awaiting :: "u32 \<Rightarrow> int \<Rightarrow> nat \<Rightarrow> sr_packet \<Rightarrow> addr \<Rightarrow> sr_instance \<Rightarrow> bool" where
  "awaiting hop t k p a sr \<longleftrightarrow>
     requests (cache sr) = [(a, \<lparr>req_ip = hop, req_sent = t, req_times_sent = word_of_nat k, req_packets = [p]\<rparr>)]"

lemma round_single:
  "requests (cache sr) = [(a, r)] \<Longrightarrow>
     sr_arpcache_timeout_round env depth sr = handle_arpreq env depth (sr\<lparr>cache := expire_entries (env_time env) (cache sr)\<rparr>) a"
  by (simp add: sr_arpcache_timeout_round_def sr_arpcache_sweepreqs_def first_req_def expire_entries_def deref_req_def
      split: sum.split)

lemma round_start:
  "sr_wf m (sr\<lparr>cache := expire_entries now (cache sr)\<rparr>) \<longleftrightarrow> sr_wf m sr" "requests (expire_entries now c) = requests c"
  "pending (expire_entries now c) = pending c" "arp_due t (expire_entries now c) = arp_due t c"
  by (auto simp: sr_wf_def queued_ge_def pending_def arp_due_def expire_entries_def arpcache_wf_def fun_eq_iff)

lemma few_tries: "k < 5 \<Longrightarrow> \<not> 5 \<le> (word_of_nat k :: u32)" "\<not> (5 :: u32) \<le> word_of_nat 5 \<Longrightarrow> False"
  by (simp_all add: word_le_nat_alt unsigned_of_nat take_bit_eq_mod)

lemma retry_round:
  assumes "mem_ok env" "sr_wf 42 sr" "awaiting hop t k p a sr" "k < 5" "t < env_time env"
    and "sr_get_interface sr (pkt_iface p) = Some i"
  obtains sr' where "sr_arpcache_timeout_round env (Suc d) sr = Inr sr'" "same_config sr sr'" "sr_wf 42 sr'"
    "awaiting hop (env_time env) (Suc k) p a sr'"
    "sock_out sr' = sock_out sr @ [packet_message (arp_query i hop) (if_name i)]"
proof -
  let ?s = "sr\<lparr>cache := expire_entries (env_time env) (cache sr)\<rparr>"
  let ?r = "\<lparr>req_ip = hop, req_sent = t, req_times_sent = word_of_nat k, req_packets = [p]\<rparr>"
  have rq: "requests (cache sr) = [(a, ?r)]" using assms(3) by (simp add: awaiting_def)
  have s: "sr_wf 42 ?s" using assms(2) by (simp add: round_start)
  have m: "map_of (requests (cache ?s)) a = Some ?r" by (simp add: rq round_start)
  have i: "sr_get_interface ?s (pkt_iface p) = Some i" using sr_get_interface_cong [of ?s sr] assms(6) by simp
  have due: "1 \<le> env_time env - req_sent ?r" and few: "\<not> 5 \<le> req_times_sent ?r" and ps: "req_packets ?r = p # []"
    using assms(4,5) few_tries(1) by simp_all
  obtain sr' where h: "handle_arpreq env (Suc d) ?s a = Inr sr'" "same_config ?s sr'"
    "cache sr' = (cache ?s)\<lparr>requests := update_req (requests (cache ?s)) a
       (\<lambda>r. r\<lparr>req_sent := env_time env, req_times_sent := req_times_sent r + 1\<rparr>)\<rparr>"
    "sock_out sr' = sock_out ?s @ [packet_message (arp_query i (req_ip ?r)) (if_name i)]"
    by (rule handle_due [OF assms(1) s m due few ps i])
  have "sr_wf 42 sr'" using handle_arpreq_keeps [of 42 ?s env "Suc d" a] s h(1) by (simp add: keeps_Inr)
  moreover have "awaiting hop (env_time env) (Suc k) p a sr'" using h(3) rq by (simp add: awaiting_def round_start)
  ultimately show thesis using that [of sr'] round_single [OF rq] h by (simp add: same_config_def)
qed

lemma retry_rounds:
  "list_all mem_ok envs \<Longrightarrow> sr_wf 42 sr \<Longrightarrow> awaiting hop t k p a sr \<Longrightarrow> k + length envs \<le> 5 \<Longrightarrow>
   sorted_wrt (<) (t # map env_time envs) \<Longrightarrow> sr_get_interface sr (pkt_iface p) = Some i \<Longrightarrow>
   \<exists>sr'. timeout_rounds (Suc d) sr envs = Inr sr' \<and> same_config sr sr' \<and> sr_wf 42 sr' \<and>
     awaiting hop (last (t # map env_time envs)) (k + length envs) p a sr' \<and>
     sock_out sr' = sock_out sr @ replicate (length envs) (packet_message (arp_query i hop) (if_name i))"
proof (induction envs arbitrary: sr t k)
  case (Cons env envs)
  then have e: "mem_ok env" "k < 5" "t < env_time env" by simp_all
  obtain sr1 where s1: "sr_arpcache_timeout_round env (Suc d) sr = Inr sr1" "same_config sr sr1" "sr_wf 42 sr1"
    "awaiting hop (env_time env) (Suc k) p a sr1" "sock_out sr1 = sock_out sr @ [packet_message (arp_query i hop) (if_name i)]"
    by (rule retry_round [OF e(1) Cons.prems(2,3) e(2,3) Cons.prems(6)])
  have "sr_get_interface sr1 (pkt_iface p) = Some i"
    using sr_get_interface_cong [OF same_configD(1) [OF s1(2)]] Cons.prems(6) by simp
  with Cons.IH [OF _ s1(3,4)] Cons.prems(1,4,5) obtain sr2 where s2: "timeout_rounds (Suc d) sr1 envs = Inr sr2" "same_config sr1 sr2" "sr_wf 42 sr2"
     "awaiting hop (last (env_time env # map env_time envs)) (Suc k + length envs) p a sr2"
     "sock_out sr2 = sock_out sr1 @ replicate (length envs) (packet_message (arp_query i hop) (if_name i))" by auto
  then show ?case using s1 same_config_trans [OF s1(2) s2(2)] by (auto simp del: last.simps simp: last_ConsR)
qed simp

text \<open>The last round gives up: the error takes the place of the frame.\<close>

lemma giveup_round:
  assumes mem: "mem_ok env" and wf: "sr_wf 42 sr" and own: "own_unrouted sr" and w: "awaiting hop t 5 p a sr"
    and t: "t < env_time env" "1 \<le> env_time env"
    and bk: "route_for sr (ip_src (frame_ip (pkt_buf p))) = Some (back, j)" "if_ip j \<noteq> 0" "back \<noteq> hop"
  obtains sr' where "sr_arpcache_timeout_round env (Suc (Suc d)) sr = Inr sr'" "same_config sr sr'"
    "sock_out sr' = sock_out sr @ [packet_message (arp_query j back) (if_name j)]"
    "pending (cache sr') = [back \<mapsto> [queued_packet (unreachable_frame 3 1 j (pkt_buf p)) (if_name j)]]"
proof -
  let ?s = "sr\<lparr>cache := expire_entries (env_time env) (cache sr)\<rparr>"
  let ?r = "\<lparr>req_ip = hop, req_sent = t, req_times_sent = word_of_nat 5, req_packets = [p]\<rparr>"
  have rq: "requests (cache sr) = [(a, ?r)]" using w by (simp add: awaiting_def)
  have s: "sr_wf 42 ?s" using wf by (simp add: round_start)
  have cfg: "same_config sr ?s" by (simp add: same_config_def)
  have m: "map_of (requests (cache ?s)) a = Some ?r" by (simp add: rq round_start)
  have len: "42 \<le> length (pkt_buf p)" using deref_ge [OF s, of a ?r p] m by (simp add: deref_req_Inr)
  have hop: "error_hop ?s (pkt_buf p) = Some back" using bk error_hop_config [OF cfg] by (simp add: error_hop_def)
  have own1: "own_unrouted ?s" using own own_unrouted_config [OF cfg] by simp
  obtain sr2 i where s2: "send_icmp_error_with (handle_arpreq env (Suc d)) env ?s 3 1 (pkt_buf p) 0 = Inr sr2"
    "route_for ?s (ip_src (frame_ip (pkt_buf p))) = Some (back, i)" "sr_wf 42 sr2" "same_config ?s sr2"
    "pending (cache sr2) = add_waiting [(back, i, unreachable_frame 3 1 i (pkt_buf p))] (pending (cache ?s))"
    "sock_out sr2 = sock_out ?s @ (if arp_due (env_time env) (cache ?s) back then [packet_message (arp_query i back) (if_name i)] else [])"
    "progress (env_time env) (\<lambda>_. 0) 0 (silent ?s) (cache ?s) (cache sr2)"
    by (rule notice_queued [OF mem s own1 len hop]) (use bk(3) rq in \<open>auto simp: round_start\<close>)
  have i: "i = j" using s2(2) route_for_config [OF cfg] bk(1) by simp
  obtain r2 where r2: "map_of (requests (cache sr2)) a = Some r2" "req_ip r2 = hop"
    by (rule progress_survivor [OF s2(7) m]) auto
  have h: "handle_arpreq env (Suc (Suc d)) ?s a = Inr (sr2\<lparr>cache := sr_arpreq_destroy (cache sr2) a\<rparr>)"
    using m s2(1) r2(1) t len few_tries(2)
    by (auto simp add: handle_arpreq.simps(2) [of env "Suc d"] handle_arpreq_body_def deref_req_def layout simp del: handle_arpreq.simps)
  have "arp_due (env_time env) (cache ?s) back" using t(2) bk(3) rq by (simp add: round_start) (simp add: arp_due_def)
  moreover have "pending (cache ?s) = [hop \<mapsto> [p]]" by (auto simp: round_start pending_def rq)
  moreover note pending_destroy [OF sr_wf_arpcache [OF s2(3)] r2(1)]
  ultimately show thesis
    using that [of "sr2\<lparr>cache := sr_arpreq_destroy (cache sr2) a\<rparr>"] round_single [OF rq] h s2(4-6) i r2(2) bk(3)
    by (auto simp: same_config_def fun_eq_iff)
qed

text \<open>Forwarding a frame while nothing is pending.\<close>

lemma idle_route:
  assumes mem: "mem_ok env" and wf: "sr_wf 42 sr" and idle: "requests (cache sr) = []" and len: "42 \<le> length frame"
    and route: "route_for sr (ip_dst (frame_ip frame)) = Some (hop, i)" and now: "1 \<le> env_time env"
  obtains sr' where "route_and_send env (Suc d) sr frame = Inr (0, sr')" "same_config sr sr'" "sr_wf 42 sr'"
    "awaiting hop (env_time env) 1 (queued_packet (rewrite_l2 (if_addr i) frame) (if_name i)) (next_addr (cache sr)) sr'"
    "sock_out sr' = sock_out sr @ [packet_message (arp_query i hop) (if_name i)]"
proof -
  let ?f = "rewrite_l2 (if_addr i) frame"
  have len34: "34 \<le> length frame" using len by simp
  have mac: "length (if_addr i) = 6" using sr_wf_if [OF wf route_for_iface [OF route]] by simp
  have f: "length ?f = length frame" using length_rewrite_l2 [OF len34 mac] .
  then have ne: "?f \<noteq> []" using len by auto
  obtain a c where q: "sr_arpcache_queuereq env (cache sr) hop ?f (if_name i) = Inr (a, c)"
    using queuereq_total [OF mem] .
  have c: "a = next_addr (cache sr)" "requests c = [(a, \<lparr>req_ip = hop, req_sent = 0, req_times_sent = 0,
      req_packets = [queued_packet ?f (if_name i)]\<rparr>)]"
    using q ne idle by (auto elim!: queuereq_cases)
  let ?s = "sr\<lparr>cache := c\<rparr>"
    and ?r = "\<lparr>req_ip = hop, req_sent = 0, req_times_sent = 0, req_packets = [queued_packet ?f (if_name i)]\<rparr> :: sr_arpreq"
  have s: "sr_wf 42 ?s"
    using queuereq_wf [OF q] queued_ge_queuereq [OF q, of 42] ne wf f len by (auto simp: sr_wf_def)
  have m: "map_of (requests (cache ?s)) a = Some ?r" by (simp add: c(2))
  have name: "sr_get_interface ?s (pkt_iface (queued_packet ?f (if_name i))) = Some i"
    using route_own_iface [OF route] sr_get_interface_cong [of ?s sr] by simp
  have due: "1 \<le> env_time env - req_sent ?r" and few: "\<not> 5 \<le> req_times_sent ?r" and ps: "req_packets ?r = queued_packet ?f (if_name i) # []"
    using now by simp_all
  obtain sr' where h: "handle_arpreq env (Suc d) ?s a = Inr sr'" "same_config ?s sr'"
    "cache sr' = (cache ?s)\<lparr>requests := update_req (requests (cache ?s)) a
       (\<lambda>r. r\<lparr>req_sent := env_time env, req_times_sent := req_times_sent r + 1\<rparr>)\<rparr>"
    "sock_out sr' = sock_out ?s @ [packet_message (arp_query i (req_ip ?r)) (if_name i)]"
    by (rule handle_due [OF mem s m due few ps name])
  have "list_all if_wf (if_list sr)" using wf by (simp add: sr_wf_def)
  from route_and_send_eq [OF len34 this, of "handle_arpreq env (Suc d)"] route q h(1)
  have "route_and_send env (Suc d) sr frame = Inr (0, sr')" by (simp add: route_and_send_def del: handle_arpreq.simps)
  moreover have "sr_wf 42 sr'" using handle_arpreq_keeps [of 42 ?s env "Suc d" a] s h(1) by (simp add: keeps_Inr)
  moreover have "awaiting hop (env_time env) 1 (queued_packet ?f (if_name i)) (next_addr (cache sr)) sr'"
    using h(3) c by (simp add: awaiting_def)
  ultimately show thesis using that h(2,4) by (simp add: same_config_def)
qed

lemma unanswered_effect:
  assumes mem: "list_all mem_ok (env # envs)" and wf: "sr_wf 42 sr" and own: "own_unrouted sr" and idle: "requests (cache sr) = []"
    and len: "42 \<le> length frame" and route: "route_for sr (ip_dst (frame_ip frame)) = Some (hop, i)"
    and bk: "route_for sr (ip_src (frame_ip frame)) = Some (prev, j)" "if_ip j \<noteq> 0" "prev \<noteq> hop"
    and t: "1 \<le> env_time env" "sorted_wrt (<) (map env_time (env # envs))" "length envs = 5"
  obtains sr1 sr2 where "route_and_send env (Suc (Suc d)) sr frame = Inr (0, sr1)" "timeout_rounds (Suc (Suc d)) sr1 envs = Inr sr2"
    "sock_out sr2 = sock_out sr @ replicate 5 (packet_message (arp_query i hop) (if_name i)) @
       [packet_message (arp_query j prev) (if_name j)]"
    "pending (cache sr2) = [prev \<mapsto> [queued_packet (unreachable_frame 3 1 j (rewrite_l2 (if_addr i) frame)) (if_name j)]]"
proof -
  let ?p = "queued_packet (rewrite_l2 (if_addr i) frame) (if_name i)" and ?m = "packet_message (arp_query i hop) (if_name i)"
  obtain es e where es: "envs = es @ [e]" using t(3) by (cases envs rule: rev_cases) auto
  have e: "mem_ok env" "list_all mem_ok es" "mem_ok e" "length es = 4" using mem t(3) es by simp_all
  have mac: "length (if_addr i) = 6" using sr_wf_if [OF wf route_for_iface [OF route]] by simp
  have len34: "34 \<le> length frame" using len by simp
  obtain sr1 where s1: "route_and_send env (Suc (Suc d)) sr frame = Inr (0, sr1)" "same_config sr sr1" "sr_wf 42 sr1"
    "awaiting hop (env_time env) 1 ?p (next_addr (cache sr)) sr1" "sock_out sr1 = sock_out sr @ [?m]"
    by (rule idle_route [OF e(1) wf idle len route t(1)])
  have i: "sr_get_interface sr1 (pkt_iface ?p) = Some i"
    using route_own_iface [OF route] sr_get_interface_cong [OF same_configD(1) [OF s1(2)]] by simp
  have srt: "sorted_wrt (<) (env_time env # map env_time es)" "last (env_time env # map env_time es) < env_time e" "1 \<le> env_time e"
    using t(1,2) unfolding es by (auto simp: sorted_wrt_append last_map)
  obtain sr2 where s2: "timeout_rounds (Suc (Suc d)) sr1 es = Inr sr2" "same_config sr1 sr2" "sr_wf 42 sr2"
    "awaiting hop (last (env_time env # map env_time es)) 5 ?p (next_addr (cache sr)) sr2"
    "sock_out sr2 = sock_out sr1 @ replicate 4 ?m"
    using retry_rounds [OF e(2) s1(3,4) _ srt(1) i, of "Suc d"] e(4) by auto
  have cfg: "same_config sr sr2" using same_config_trans [OF s1(2) s2(2)] .
  have bk2: "route_for sr2 (ip_src (frame_ip (pkt_buf ?p))) = Some (prev, j)"
    using bk(1) route_for_config [OF cfg] frame_ip_rewrite_l2 [OF len34 mac] by simp
  obtain sr3 where s3: "sr_arpcache_timeout_round e (Suc (Suc d)) sr2 = Inr sr3"
    "sock_out sr3 = sock_out sr2 @ [packet_message (arp_query j prev) (if_name j)]"
    "pending (cache sr3) = [prev \<mapsto> [queued_packet (unreachable_frame 3 1 j (pkt_buf ?p)) (if_name j)]]"
    using giveup_round [OF e(3) s2(3) _ s2(4) srt(2,3) bk2 bk(2,3)] own own_unrouted_config [OF cfg] by blast
  have "timeout_rounds (Suc (Suc d)) sr1 envs = Inr sr3" using s2(1) s3(1) by (simp add: es timeout_rounds_append)
  then show thesis using that [OF s1(1)] s1(5) s2(5) s3(2,3) by (simp add: numeral_eq_Suc)
qed



end
