(* ===== verification/SR_Main.thy ===== *)
theory SR_Main
  imports SR_Session_Inv SR_Giveup
begin

text \<open>
  \<^verbatim>\<open>sr_main.c\<close>: the command line, the set-up of the router instance, and the main loop, with the
  services of the C library it uses (\<^verbatim>\<open>getopt\<close>, \<^verbatim>\<open>atoi\<close>) written out.  The result of the program is
  its exit status with the last state of the session, a fault, or, if it does not end, nothing.  The
  timeout thread \<^verbatim>\<open>sr_init\<close> starts takes part in the run: any number of its rounds, each at a time of
  its own, is made while the main thread waits for a message of the server.  (Rounds within the
  handling of a frame are the subject of \<^verbatim>\<open>SR_Threads\<close>, \<^verbatim>\<open>SR_Machine\<close> and \<^verbatim>\<open>SR_Interleave\<close>.)
\<close>

section \<open>The command line\<close>

text \<open>
  \<^verbatim>\<open>getopt\<close> as glibc has it: options are found wherever they stand in front of \<^verbatim>\<open>--\<close>, may share a
  word, and have their argument in the rest of the word or in the next word.  \<open>cluster\<close> is what is
  left of the word at hand.  An unknown option and one without its argument are reported as
  \<^verbatim>\<open>?\<close>.
\<close>

datatype opt = Opt u8 bytes

definition takes_argument :: "u8 \<Rightarrow> bool" where
  "takes_argument c \<longleftrightarrow> c \<in> set (str_bytes ''svputrlT'')"

function getopt_loop :: "bytes \<Rightarrow> bytes list \<Rightarrow> opt list" where
  "getopt_loop [] [] = []"
| "getopt_loop [] (w # ws) =
     (if w = str_bytes ''--'' then []
      else if 1 < length w \<and> hd w = 45 then getopt_loop (tl w) ws
      else getopt_loop [] ws)"
| "getopt_loop (c # rest) ws =
     (if takes_argument c then
        if rest \<noteq> [] then Opt c rest # getopt_loop [] ws
        else (case ws of [] \<Rightarrow> [Opt 63 []] | a # ws1 \<Rightarrow> Opt c a # getopt_loop [] ws1)
      else Opt (if c = 104 then 104 else 63) [] # getopt_loop rest ws)"
  by pat_completeness auto
termination
  by (relation "measure (\<lambda>(cluster, ws). length cluster + sum_list (map (\<lambda>w. Suc (length w)) ws))") auto

text \<open>
  \<^verbatim>\<open>atoi\<close>: white space, a sign, digits; the value is cut to the range of \<^verbatim>\<open>long\<close> and then converted
  to 32 bits.
\<close>

definition atoi :: "bytes \<Rightarrow> u32" where
  "atoi s =
     (let s1 = dropWhile isspace s;
          neg = (s1 \<noteq> [] \<and> hd s1 = 45);
          s2 = (if s1 \<noteq> [] \<and> (hd s1 = 45 \<or> hd s1 = 43) then tl s1 else s1);
          v = (if neg then - int (fst (number 10 s2)) else int (fst (number 10 s2)))
      in word_of_int (min (2 ^ 63 - 1) (max (- (2 ^ 63)) v)))"

record options =
  opt_host :: bytes
  opt_user :: "bytes option"
  opt_server :: bytes
  opt_rtable :: bytes
  opt_template :: "bytes option"
  opt_port :: u32
  opt_topo :: u32
  opt_logfile :: "bytes option"

definition default_options :: options where
  "default_options = \<lparr>opt_host = str_bytes ''vrhost'', opt_user = None, opt_server = str_bytes ''localhost'',
     opt_rtable = str_bytes ''rtable'', opt_template = None, opt_port = 8888, opt_topo = 0, opt_logfile = None\<rparr>"

text \<open>The loop over the options; \<open>None\<close> is \<^verbatim>\<open>-h\<close>, which ends the program.\<close>

fun option_loop :: "options \<Rightarrow> opt list \<Rightarrow> options option" where
  "option_loop opts [] = Some opts"
| "option_loop opts (Opt c optarg # rest) =
     (if c = 104 then None
      else option_loop
        (if c = 112 then opts\<lparr>opt_port := atoi optarg\<rparr>
         else if c = 116 then opts\<lparr>opt_topo := atoi optarg\<rparr>
         else if c = 118 then opts\<lparr>opt_host := optarg\<rparr>
         else if c = 117 then opts\<lparr>opt_user := Some optarg\<rparr>
         else if c = 115 then opts\<lparr>opt_server := optarg\<rparr>
         else if c = 108 then opts\<lparr>opt_logfile := Some optarg\<rparr>
         else if c = 114 then opts\<lparr>opt_rtable := optarg\<rparr>
         else if c = 84 then opts\<lparr>opt_template := Some optarg\<rparr>
         else opts) rest)"

definition usage :: "bytes \<Rightarrow> bytes" where
  "usage argv0 =
     message ''Simple Router Client'' @
     str_bytes ''Format: '' @ argv0 @ message '' [-h] [-v host] [-s server] [-p port] '' @
     message ''           [-T template_name] [-u username] '' @
     message ''           [-t topo id] [-r routing table] '' @
     message ''           [-l log file] '' @
     str_bytes ''   defaults server='' @ str_bytes ''localhost'' @ str_bytes '' port='' @ dec 8888 @
     str_bytes '' host='' @ str_bytes ''vrhost'' @ message ''  ''"

section \<open>The instance\<close>

text \<open>\<open>raw\<close> is the structure on the stack before it is initialised.\<close>

definition sr_init_instance :: "sr_instance \<Rightarrow> sr_instance" where
  "sr_init_instance raw = raw\<lparr>user := (user raw)[0 := 0], host := (host raw)[0 := 0], topo_id := 0, if_list := [],
     routing_table := [], logfile := None\<rparr>"

text \<open>\<^verbatim>\<open>sr_set_user\<close>: \<open>pw\<close> is the name of the entry \<^verbatim>\<open>getpwuid\<close> finds, if any.\<close>

definition sr_set_user :: "bytes option \<Rightarrow> sr_instance \<Rightarrow> sr_instance" where
  "sr_set_user pw sr =
     (case pw of None \<Rightarrow> sr\<lparr>user := strncpy (str_bytes ''something_silly'') 32\<rparr>
      | Some pw_name \<Rightarrow> sr\<lparr>user := strncpy pw_name 32\<rparr>)"

text \<open>\<^verbatim>\<open>sr_load_rt_wrap\<close>: \<open>Inr None\<close> is \<^verbatim>\<open>exit(1)\<close>; the table is printed after it has been loaded.\<close>

definition sr_load_rt_wrap ::
    "sr_env \<Rightarrow> bool \<Rightarrow> bytes list \<Rightarrow> files \<Rightarrow> sr_instance \<Rightarrow> bytes \<Rightarrow> fault + sr_instance option" where
  "sr_load_rt_wrap env fopen_ok raw files sr rtable =
     (case sr_load_rt env fopen_ok raw files sr rtable of Inl f \<Rightarrow> Inl f | Inr (rc, sr1) \<Rightarrow>
        if rc \<noteq> 0 then Inr None
        else case sr_print_routing_table sr1 of Inl f \<Rightarrow> Inl f | Inr _ \<Rightarrow> Inr (Some sr1))"

section \<open>The main loop\<close>

text \<open>
  While the main thread waits in \<^verbatim>\<open>sr_read_from_server\<close> for message \<open>i\<close>, the timeout thread makes the
  rounds \<open>rounds i\<close>; a round that faults ends the process.
\<close>

definition wait_rounds :: "nat \<Rightarrow> sr_env list \<Rightarrow> session \<Rightarrow> fault + session" where
  "wait_rounds depth envs s = map_sum id (\<lambda>sr. s\<lparr>router := sr\<rparr>) (timeout_rounds depth (router s) envs)"

partial_function (option) main_loop ::
    "(nat \<Rightarrow> vns_env) \<Rightarrow> (nat \<Rightarrow> sr_env list) \<Rightarrow> nat \<Rightarrow> nat \<Rightarrow> session \<Rightarrow> (fault + (int \<times> session)) option" where
  "main_loop envs rounds depth i s =
     (case wait_rounds depth (rounds i) s of Inl f \<Rightarrow> Some (Inl f) | Inr s1 \<Rightarrow>
       Option.bind (sr_read_from_server (envs i) depth s1) (\<lambda>r.
         case r of Inl f \<Rightarrow> Some (Inl f)
         | Inr x \<Rightarrow> if fst x = 1 then main_loop envs rounds depth (Suc i) (snd x) else Some (Inr x)))"

text \<open>
  What the program meets: the contents of uninitialised memory, the password entry, whether the log
  and the routing table can be opened, the connection, the environments of the messages read
  while connecting and in the main loop, and the rounds of the timeout thread before each message.
\<close>

record world =
  w_raw :: sr_instance
  w_bufs :: "nat \<Rightarrow> bytes list"
  w_pw :: "bytes option"
  w_log_ok :: bool
  w_fopen_ok :: bool
  w_env :: sr_env
  w_con :: connection
  w_con_envs :: "nat \<Rightarrow> vns_env"
  w_envs :: "nat \<Rightarrow> vns_env"
  w_rounds :: "nat \<Rightarrow> sr_env list"

text \<open>Up to the connection: template or routing table, topology, host, user and log file.\<close>

definition set_up :: "world \<Rightarrow> options \<Rightarrow> files \<Rightarrow> fault + sr_instance option" where
  "set_up w opts files =
     (case (case opt_template opts of
              None \<Rightarrow> (let sr = sr_init_instance (w_raw w) in
                sr_load_rt_wrap (w_env w) (w_fopen_ok w) (w_bufs w 0) files (sr\<lparr>template := (template sr)[0 := 0]\<rparr>) (opt_rtable opts))
            | Some tmpl \<Rightarrow> Inr (Some ((sr_init_instance (w_raw w))\<lparr>template := strncpy tmpl 30\<rparr>))) of
        Inl f \<Rightarrow> Inl f
      | Inr None \<Rightarrow> Inr None
      | Inr (Some sr1) \<Rightarrow>
          let sr2 = sr1\<lparr>topo_id := ucast (opt_topo opts), host := strncpy (opt_host opts) 32\<rparr>;
              sr3 = (case opt_user opts of None \<Rightarrow> sr_set_user (w_pw w) sr2 | Some u \<Rightarrow> sr2\<lparr>user := strncpy u 32\<rparr>)
          in case (case opt_logfile opts of None \<Rightarrow> Some sr3
                   | Some l \<Rightarrow> (case sr_dump_open (w_log_ok w) l 0 (word_of_int PACKET_DUMP_SIZE) of None \<Rightarrow> None
                               | Some fp \<Rightarrow> Some (sr3\<lparr>logfile := Some fp\<rparr>))) of
               None \<Rightarrow> Inr None
             | Some sr4 \<Rightarrow> (case c_string (user sr4) of Inl f \<Rightarrow> Inl f | Inr _ \<Rightarrow> Inr (Some sr4)))"

text \<open>
  The log file.  Opening it for writing empties the file, unless the name \<^verbatim>\<open>-\<close> stands for standard output;
  what is written to the stream replaces the file from its start on, so bytes another stream has
  put there stay where the log is shorter.  The program flushes the stream after each packet; here
  all of it reaches the file at the end, which is the same unless the server sends a routing table for
  a file of the same name after the first packet.
\<close>

definition log_path :: "options \<Rightarrow> bytes option" where
  "log_path opts = (case opt_logfile opts of None \<Rightarrow> None
     | Some l \<Rightarrow> if cstr l = str_bytes ''-'' then None else Some l)"

definition open_log :: "options \<Rightarrow> files \<Rightarrow> files" where
  "open_log opts files = (case log_path opts of None \<Rightarrow> files | Some l \<Rightarrow> files(l \<mapsto> []))"

definition sr_dump_close :: "bytes option \<Rightarrow> bytes \<Rightarrow> files \<Rightarrow> files" where
  "sr_dump_close path fp files = (case path of None \<Rightarrow> files
     | Some l \<Rightarrow> files(l \<mapsto> fp @ drop (length fp) (case files l of None \<Rightarrow> [] | Some old \<Rightarrow> old)))"

text \<open>\<^verbatim>\<open>sr_destroy_instance\<close>.  The end of the process without it closes the open stream in the same way.\<close>

definition sr_destroy_instance :: "options \<Rightarrow> session \<Rightarrow> session" where
  "sr_destroy_instance opts s = (case logfile (router s) of None \<Rightarrow> s
     | Some fp \<Rightarrow> s\<lparr>fs := sr_dump_close (log_path opts) fp (fs s)\<rparr>)"

text \<open>
  After the connection: the routing table is read (again), the cache is set up and the timeout thread started,
  messages are served, the log is closed.
\<close>

definition run_session :: "world \<Rightarrow> nat \<Rightarrow> options \<Rightarrow> session \<Rightarrow> (fault + (int \<times> session)) option" where
  "run_session w depth opts s =
     (case sr_load_rt_wrap (w_env w) (w_fopen_ok w) (w_bufs w 1) (fs s) (router s)
         (if opt_template opts \<noteq> None \<and> opt_rtable opts = str_bytes ''rtable.vrhost'' then str_bytes ''rtable.vrhost'' else opt_rtable opts) of
        Inl f \<Rightarrow> Some (Inl f)
      | Inr None \<Rightarrow> Some (Inr (1, sr_destroy_instance opts s))
      | Inr (Some sr) \<Rightarrow>
          Option.bind (main_loop (w_envs w) (w_rounds w) depth 0 (s\<lparr>router := sr_init sr\<rparr>)) (\<lambda>r.
            case r of Inl f \<Rightarrow> Some (Inl f) | Inr x \<Rightarrow> Some (Inr (0, sr_destroy_instance opts (snd x)))))"

definition main :: "world \<Rightarrow> nat \<Rightarrow> bytes list \<Rightarrow> session \<Rightarrow> (fault + (int \<times> session)) option" where
  "main w depth argv s =
     (case option_loop default_options (getopt_loop [] (tl argv)) of None \<Rightarrow> Some (Inr (0, s))
      | Some opts \<Rightarrow>
          (case set_up w opts (fs s) of Inl f \<Rightarrow> Some (Inl f) | Inr None \<Rightarrow> Some (Inr (1, s))
           | Inr (Some sr) \<Rightarrow>
               Option.bind (sr_connect_to_server (w_con_envs w) depth (w_con w) (s\<lparr>fs := open_log opts (fs s), router := sr\<rparr>)) (\<lambda>r.
                 case r of Inl f \<Rightarrow> Some (Inl f)
                 | Inr x \<Rightarrow> if fst x = - 1 then Some (Inr (1, sr_destroy_instance opts (snd x))) else run_session w depth opts (snd x))))"

section \<open>Serving the messages\<close>

text \<open>
  The specification of the main loop: the messages are handled one after the other, each after the rounds
  made while it was awaited, until one of them ends the session.
\<close>

fun serve ::
    "(nat \<Rightarrow> vns_env) \<Rightarrow> (nat \<Rightarrow> sr_env list) \<Rightarrow> nat \<Rightarrow> nat \<Rightarrow> session \<Rightarrow> bytes list \<Rightarrow> fault + (int \<times> session)" where
  "serve envs rounds depth i s [] = Inr (1, s)"
| "serve envs rounds depth i s (msg # msgs) =
     (case wait_rounds depth (rounds i) s of Inl f \<Rightarrow> Inl f | Inr s1 \<Rightarrow>
       (case handle_command (envs i) depth s1 msg 0 of Inl f \<Rightarrow> Inl f
        | Inr x \<Rightarrow> if fst x = 1 then serve envs rounds depth (Suc i) (snd x) msgs else Inr x))"

definition ended :: "fault + (int \<times> session) \<Rightarrow> bool" where
  "ended r \<longleftrightarrow> (case r of Inl f \<Rightarrow> True | Inr x \<Rightarrow> fst x \<noteq> 1)"

lemma wait_rounds_none [simp]: "wait_rounds depth [] s = Inr s"
  by (simp add: wait_rounds_def)

lemma wait_rounds_at_input:
  "wait_rounds depth envs (at_input s es) = map_sum id (\<lambda>t. at_input t es) (wait_rounds depth envs s)"
  by (cases "timeout_rounds depth (router s) envs") (simp_all add: wait_rounds_def at_input_def)

lemma main_loop_serves:
  assumes "clean es" "payload es = concat msgs @ rest" "list_all framed msgs" "\<forall>n. services_ok (envs n)"
    and "ended (serve envs rounds depth i s msgs)"
  shows "\<exists>es'. main_loop envs rounds depth i (at_input s es) =
    Some (map_sum id (apsnd (\<lambda>t. at_input t es')) (serve envs rounds depth i s msgs))"
  using assms(1-3,5)
proof (induction msgs arbitrary: es i s)
  case Nil
  then show ?case by (simp add: ended_def)
next
  case (Cons msg msgs)
  have pay: "payload es = msg @ (concat msgs @ rest)" using Cons.prems(2) by simp
  have fr: "framed msg" using Cons.prems(3) by simp
  have mal: "env_malloc (os (envs i)) (length msg)" using assms(4) services_okD(1) by blast
  show ?case
  proof (cases "wait_rounds depth (rounds i) s")
    case (Inl f)
    then show ?thesis by (subst main_loop.simps) (simp add: wait_rounds_at_input)
  next
    case (Inr s1)
    note s1 = this
    obtain es1 where es1: "clean es1" "payload es1 = concat msgs @ rest"
      "sr_read_from_server (envs i) depth (at_input s1 es) =
        Some (map_sum id (apsnd (\<lambda>t. at_input t es1)) (handle_command (envs i) depth s1 msg 0))"
      using read_framed [OF fr Cons.prems(1) pay mal, of depth s1 "[]" 0]
      by (auto simp: handle_command_at_input sr_read_from_server_def)
    have loop: "main_loop envs rounds depth i (at_input s es) =
        Option.bind (sr_read_from_server (envs i) depth (at_input s1 es)) (\<lambda>r. case r of Inl f \<Rightarrow> Some (Inl f)
          | Inr x \<Rightarrow> if fst x = 1 then main_loop envs rounds depth (Suc i) (snd x) else Some (Inr x))"
      by (subst main_loop.simps) (simp add: wait_rounds_at_input s1)
    show ?thesis
    proof (cases "\<exists>x. handle_command (envs i) depth s1 msg 0 = Inr x \<and> fst x = 1")
      case True
      then obtain x where x: "handle_command (envs i) depth s1 msg 0 = Inr x" "fst x = 1" by blast
      then have "ended (serve envs rounds depth (Suc i) (snd x) msgs)" using Cons.prems(4) s1 by (simp add: ended_def)
      from Cons.IH [OF es1(1,2) _ this] Cons.prems(3) x s1 es1(3) show ?thesis by (simp add: loop)
    next
      case False
      then show ?thesis using es1(3) s1 by (cases "handle_command (envs i) depth s1 msg 0") (auto simp: loop)
    qed
  qed
qed

text \<open>
  The main loop does with the byte stream what the protocol says: however the messages are cut
  into pieces, they are handled in order, each one once, until one of them ends the session (or
  faults), and then the loop returns with the state that handling them one by one, with the rounds
  made in between, leads to.
\<close>

lemma main_loop_handles_messages:
  assumes "clean es" "payload es = concat msgs @ rest" "list_all framed msgs" "\<forall>n. services_ok (envs n)"
    and "ended (serve envs rounds depth i s msgs)"
  shows "\<exists>es'. main_loop envs rounds depth i (at_input s es) =
    Some (map_sum id (apsnd (\<lambda>t. at_input t es')) (serve envs rounds depth i s msgs))"
  by (rule main_loop_serves [OF assms])

definition goodbye :: bytes where
  "goodbye = vns_message VNSCLOSE [98, 121, 101, 0]"

lemma goodbye_props: "framed goodbye"
  "handle_command env depth s goodbye 0 = Inr (0, s\<lparr>shown := shown s @ [[98, 121, 101]]\<rparr>)"
  by (simp_all add: goodbye_def framed_vns_message)
    (simp add: handle_vns_message dispatch_command_def vns_commands c_string_def cstr_def)

lemma good_services: "services_ok good_vns_env"
  by (simp add: services_ok_def)

lemma main_loop_handles_messages_witness:
  "\<exists>es'. main_loop (\<lambda>_. good_vns_env) (\<lambda>_. []) 1 0 (at_input idle_session [Data (banner @ take 2 goodbye), Intr, Data (drop 2 goodbye)]) =
     Some (Inr (0, at_input (idle_session\<lparr>shown := [[104, 105], [98, 121, 101]]\<rparr>) es'))"
  using main_loop_handles_messages [of "[Data (banner @ take 2 goodbye), Intr, Data (drop 2 goodbye)]" "[banner, goodbye]" "[]"
      "\<lambda>_. good_vns_env" "\<lambda>_. []" 1 0 idle_session]
  by (simp add: banner_props goodbye_props ended_def good_services) (simp add: idle_session_def)

section \<open>A whole run\<close>

text \<open>The world does its part: memory, files and the server are there, arrays have their sizes.\<close>

definition world_ok :: "world \<Rightarrow> bool" where
  "world_ok w \<longleftrightarrow> template (w_raw w) \<noteq> [] \<and> w_fopen_ok w \<and> w_log_ok w \<and> env_malloc (w_env w) sizeof_sr_rt \<and>
     (\<forall>n. length (w_bufs w n) = 4 \<and> list_all (\<lambda>b. length b = 32) (w_bufs w n)) \<and>
     w_con w = \<lparr>host_known = True, socket_ok = True, connect_ok = True\<rparr> \<and>
     (\<forall>n. services_ok (w_con_envs w n)) \<and> (\<forall>n. services_ok (w_envs w n)) \<and>
     length (env_raw_key (w_con_envs w 0)) = 65 \<and> length (Message_Block (env_raw_sha (w_con_envs w 0))) = 64"

definition user_name :: "world \<Rightarrow> options \<Rightarrow> bytes" where
  "user_name w opts = (case opt_user opts of Some u \<Rightarrow> u
     | None \<Rightarrow> (case w_pw w of Some n \<Rightarrow> n | None \<Rightarrow> str_bytes ''something_silly''))"

text \<open>The instance the options ask for, with the routes of the file.\<close>

definition configured :: "world \<Rightarrow> options \<Rightarrow> sr_rt list \<Rightarrow> sr_instance" where
  "configured w opts rs = (w_raw w)\<lparr>user := strncpy (user_name w opts) 32, host := strncpy (opt_host opts) 32,
     template := (case opt_template opts of None \<Rightarrow> (template (w_raw w))[0 := 0] | Some tmpl \<Rightarrow> strncpy tmpl 30), topo_id := ucast (opt_topo opts), if_list := [], routing_table := rs,
     logfile := map_option (\<lambda>_. sf_write_header LINKTYPE_ETHERNET 0 1024) (opt_logfile opts)\<rparr>"

lemma print_routing_table_ok: "list_all route_wf (routing_table sr) \<Longrightarrow> \<exists>t. sr_print_routing_table sr = Inr t"
  using print_rt_walk_text [of "routing_table sr"] by (simp add: sr_print_routing_table_def)

lemma load_rt_wrap_ok:
  assumes "world_ok w" "describes_routes content rs" "rs \<noteq> []" "files rtable = Some content"
  shows "sr_load_rt_wrap (w_env w) (w_fopen_ok w) (w_bufs w n) files sr rtable = Inr (Some (sr\<lparr>routing_table := rs\<rparr>))"
proof -
  have b: "length (w_bufs w n) = 4" "list_all (\<lambda>b. length b = 32) (w_bufs w n)" "env_malloc (w_env w) sizeof_sr_rt" "w_fopen_ok w"
    using assms(1) by (simp_all add: world_ok_def)
  have "sr_load_rt (w_env w) True (w_bufs w n) files sr rtable = Inr (0, sr\<lparr>routing_table := rs\<rparr>)"
    by (rule load_described_routes [where fs = files and filename = rtable, OF assms(2,3,4) b(1,2,3)])
  moreover obtain t where "sr_print_routing_table (sr\<lparr>routing_table := rs\<rparr>) = Inr t"
    using print_routing_table_ok [of "sr\<lparr>routing_table := rs\<rparr>"] describes_wf [OF assms(2)] by auto
  ultimately show ?thesis using b(4) by (simp add: sr_load_rt_wrap_def)
qed

lemma set_up_ok:
  assumes "world_ok w" "opt_template opts = None" "length (cstr (user_name w opts)) < 32"
    and "describes_routes content rs" "rs \<noteq> []" "files (opt_rtable opts) = Some content"
  shows "set_up w opts files = Inr (Some (configured w opts rs))"
proof -
  have nul: "0 \<in> set (strncpy (user_name w opts) 32)" using assms(3) by (rule strncpy_nul)
  have log: "w_log_ok w" using assms(1) by (simp add: world_ok_def)
  have hdr: "(word_of_int PACKET_DUMP_SIZE :: u32) = 1024" by (simp add: PACKET_DUMP_SIZE_def)
  note l = load_rt_wrap_ok [where files = files and rtable = "opt_rtable opts", OF assms(1,4,5,6)]
  show ?thesis
    unfolding set_up_def Let_def assms(2) option.case l sum.case hdr
    using nul log
    by (cases "opt_user opts"; cases "w_pw w"; cases "opt_logfile opts")
      (simp_all add: configured_def user_name_def sr_init_instance_def sr_set_user_def sr_dump_open_def c_string_def assms(2))
qed

lemma set_up_template:
  assumes "world_ok w" "opt_template opts = Some tmpl" "length (cstr (user_name w opts)) < 32"
  shows "set_up w opts files = Inr (Some (configured w opts []))"
proof -
  have nul: "0 \<in> set (strncpy (user_name w opts) 32)" using assms(3) by (rule strncpy_nul)
  have log: "w_log_ok w" using assms(1) by (simp add: world_ok_def)
  have hdr: "(word_of_int PACKET_DUMP_SIZE :: u32) = 1024" by (simp add: PACKET_DUMP_SIZE_def)
  show ?thesis
    unfolding set_up_def Let_def assms(2) option.case sum.case hdr
    using nul log
    by (cases "opt_user opts"; cases "w_pw w"; cases "opt_logfile opts")
      (simp_all add: configured_def user_name_def sr_init_instance_def sr_set_user_def sr_dump_open_def c_string_def assms(2))
qed

lemma run_session_serves:
  fixes w depth opts s rs msgs
  defines "r \<equiv> serve (w_envs w) (w_rounds w) depth 0 (s\<lparr>router := sr_init ((router s)\<lparr>routing_table := rs\<rparr>)\<rparr>) msgs"
  assumes "world_ok w" "describes_routes content rs" "rs \<noteq> []" "fs s (opt_rtable opts) = Some content"
    and "clean es" "payload es = concat msgs @ rest" "list_all framed msgs" "ended r"
  shows "\<exists>es'. run_session w depth opts (at_input s es) = Some (map_sum id (\<lambda>x. (0, sr_destroy_instance opts (at_input (snd x) es'))) r)"
proof -
  have "\<forall>n. services_ok (w_envs w n)" using assms(2) by (simp add: world_ok_def)
  from main_loop_serves [OF assms(6-8) this assms(9) [unfolded r_def]] obtain es' where
    "main_loop (w_envs w) (w_rounds w) depth 0 (at_input (s\<lparr>router := sr_init ((router s)\<lparr>routing_table := rs\<rparr>)\<rparr>) es) =
      Some (map_sum id (apsnd (\<lambda>t. at_input t es')) r)" unfolding r_def by blast
  moreover have "(if opt_template opts \<noteq> None \<and> opt_rtable opts = str_bytes ''rtable.vrhost'' then str_bytes ''rtable.vrhost'' else opt_rtable opts) =
      opt_rtable opts" by simp
  ultimately have "run_session w depth opts (at_input s es) = Some (map_sum id (\<lambda>x. (0, sr_destroy_instance opts (at_input (snd x) es'))) r)"
    using load_rt_wrap_ok [where files = "fs s" and rtable = "opt_rtable opts", OF assms(2-5)]
    unfolding run_session_def by (cases r) simp_all
  then show ?thesis ..
qed

lemma cstr_configured_template: "world_ok w \<Longrightarrow> opt_template opts = None \<Longrightarrow> cstr (template (configured w opts rs)) = [] \<and> 0 \<in> set (template (configured w opts rs))"
  by (cases "template (w_raw w)") (simp_all add: configured_def world_ok_def cstr_def)

text \<open>What the client has sent when it enters the main loop.\<close>

definition greeting :: "sr_instance \<Rightarrow> bytes \<Rightarrow> bytes \<Rightarrow> bytes list" where
  "greeting sr salt key = [c_auth_reply (cstr (user sr)) (sha1 (salt @ key)), open_request sr]"

definition entered :: "session \<Rightarrow> sr_instance \<Rightarrow> bytes \<Rightarrow> bytes \<Rightarrow> session" where
  "entered s sr salt key = s\<lparr>router := sr_init (sr\<lparr>sock_out := sock_out sr @ greeting sr salt key\<rparr>)\<rparr>"

lemma run_completes:
  assumes "option_loop default_options (getopt_loop [] (tl argv)) = Some opts" "opt_template opts = None"
    and "world_ok w" "length (cstr (user_name w opts)) < 32"
    and "describes_routes content rs" "rs \<noteq> []" "fs s (opt_rtable opts) = Some content"
    and "fs s (str_bytes ''auth_key'') = Some key" "64 \<le> length key" "10 \<notin> set (take 64 key)"
    and "log_path opts \<noteq> Some (opt_rtable opts)" "log_path opts \<noteq> Some (str_bytes ''auth_key'')"
    and "length salt \<le> 9992" "ok \<noteq> 0" "list_all framed msgs"
    and "clean es" "payload es = vns_message VNS_AUTH_REQUEST salt @ vns_message VNS_AUTH_STATUS [ok] @ concat msgs @ rest"
    and "ended (serve (w_envs w) (w_rounds w) depth 0 (entered (s\<lparr>fs := open_log opts (fs s)\<rparr>) (configured w opts rs) salt (take 64 key)) msgs)"
  shows "\<exists>es'. main w depth argv (at_input s es) =
    Some (map_sum id (\<lambda>x. (0, sr_destroy_instance opts (at_input (snd x) es')))
      (serve (w_envs w) (w_rounds w) depth 0 (entered (s\<lparr>fs := open_log opts (fs s)\<rparr>) (configured w opts rs) salt (take 64 key)) msgs))"
proof -
  let ?sr = "configured w opts rs" and ?o = "s\<lparr>fs := open_log opts (fs s)\<rparr>"
  let ?s = "?o\<lparr>router := ?sr\<rparr>"
  let ?out = "?sr\<lparr>sock_out := sock_out ?sr @ greeting ?sr salt (take 64 key)\<rparr>"
  have kept: "fs ?o (opt_rtable opts) = fs s (opt_rtable opts)" "fs ?o (str_bytes ''auth_key'') = fs s (str_bytes ''auth_key'')"
    using assms(11,12) by (auto simp: open_log_def split: option.split)
  note tmpl = cstr_configured_template [OF assms(3,2), of rs]
  have ok: "services_ok (w_con_envs w n)" for n using assms(3) by (simp add: world_ok_def)
  have user: "0 \<in> set (user ?sr)" using strncpy_nul [OF assms(4)] by (simp add: configured_def)
  have ready: "auth_ready (w_con_envs w 0) (router ?s)"
    using assms(3) user services_okD(1) [OF ok] by (simp add: auth_ready_def world_ok_def)
  have ne: "key \<noteq> []" using assms(9) by auto
  have f: "fs ?s (str_bytes ''auth_key'') = Some key" using assms(8) kept(2) by simp
  have t: "0 \<in> set (template (router ?s))" using tmpl by simp
  have con: "w_con w = \<lparr>host_known = True, socket_ok = True, connect_ok = True\<rparr>" using assms(3) by (simp add: world_ok_def)
  have msg: "length ([] :: bytes) \<le> 9991" by simp
  from connect_authenticated [where envs = "w_con_envs w", OF ready f ne assms(13) ok assms(14) msg t con assms(16,17), of depth]
  obtain es1 where es1: "clean es1" "payload es1 = concat msgs @ rest"
    "sr_connect_to_server (w_con_envs w) depth (w_con w) (at_input ?s es) = Some (Inr (0, at_input (?o\<lparr>router := ?out\<rparr>) es1))"
    using tmpl hashed_key_full [OF assms(9,10), of "env_raw_key (w_con_envs w 0)"] by (auto simp: open_request_def greeting_def)
  have "routing_table x = rs \<Longrightarrow> x\<lparr>routing_table := rs\<rparr> = x" for x :: sr_instance by simp
  moreover have "routing_table ?out = rs" by (simp add: configured_def)
  ultimately have rt: "?out\<lparr>routing_table := rs\<rparr> = ?out" by blast
  let ?t = "?o\<lparr>router := ?out\<rparr>"
  have e: "?t\<lparr>router := sr_init ((router ?t)\<lparr>routing_table := rs\<rparr>)\<rparr> = entered ?o ?sr salt (take 64 key)"
    using rt by (simp add: entered_def)
  have "fs ?t (opt_rtable opts) = Some content" using assms(7) kept(1) by simp
  from run_session_serves [OF assms(3,5,6) this es1(1,2) assms(15), of depth] assms(18)
  obtain es2 where "run_session w depth opts (at_input ?t es1) =
      Some (map_sum id (\<lambda>x. (0, sr_destroy_instance opts (at_input (snd x) es2)))
        (serve (w_envs w) (w_rounds w) depth 0 (entered ?o ?sr salt (take 64 key)) msgs))"
    unfolding e by blast
  then show ?thesis
    using set_up_ok [where files = "fs s", OF assms(3,2,4,5,6,7)] assms(1) es1(3)
    by (intro exI [of _ es2]) (simp add: main_def)
qed

text \<open>
  C4.  A whole run for a topology: given options that leave no template, a routing table file with one route
  a line, a key of 64 characters and a server that accepts the user, \<^verbatim>\<open>main\<close> loads the routes, answers the
  authentication, opens the topology and then handles the messages of the server in order, with the
  rounds the timeout thread makes while it waits for each of them, until one ends the session or a
  fault occurs.  At the end of the session it returns \<open>0\<close>, and the state it leaves is that of these rounds and
  messages one after the other from a freshly initialised router with exactly the routes of the
  file, with the log, if there is one, written to its file.  The rounds are arbitrary in number and time; rounds
  that overlap with the handling of a message are not among them.
\<close>

theorem whole_run:
  assumes "option_loop default_options (getopt_loop [] (tl argv)) = Some opts" "opt_template opts = None"
    and "world_ok w" "length (cstr (user_name w opts)) < 32"
    and "describes_routes content rs" "rs \<noteq> []" "fs s (opt_rtable opts) = Some content"
    and "fs s (str_bytes ''auth_key'') = Some key" "64 \<le> length key" "10 \<notin> set (take 64 key)"
    and "log_path opts \<noteq> Some (opt_rtable opts)" "log_path opts \<noteq> Some (str_bytes ''auth_key'')"
    and "length salt \<le> 9992" "ok \<noteq> 0" "list_all framed msgs"
    and "clean es" "payload es = vns_message VNS_AUTH_REQUEST salt @ vns_message VNS_AUTH_STATUS [ok] @ concat msgs @ rest"
    and "ended (serve (w_envs w) (w_rounds w) depth 0 (entered (s\<lparr>fs := open_log opts (fs s)\<rparr>) (configured w opts rs) salt (take 64 key)) msgs)"
  shows "\<exists>es'. main w depth argv (at_input s es) =
    Some (map_sum id (\<lambda>x. (0, sr_destroy_instance opts (at_input (snd x) es')))
      (serve (w_envs w) (w_rounds w) depth 0 (entered (s\<lparr>fs := open_log opts (fs s)\<rparr>) (configured w opts rs) salt (take 64 key)) msgs))"
  by (rule run_completes [OF assms])

text \<open>For a template the routes come from the server.\<close>

lemma template_run_completes:
  assumes "option_loop default_options (getopt_loop [] (tl argv)) = Some opts" "opt_template opts = Some tmpl"
    and "cstr tmpl \<noteq> []" "length (cstr tmpl) < 30" "opt_rtable opts = str_bytes ''rtable.'' @ cstr vhost"
    and "world_ok w" "length (cstr (user_name w opts)) < 32" "length (cstr vhost) < 32"
    and "describes_routes table rs" "rs \<noteq> []" "length table \<le> 9960"
    and "fs s (str_bytes ''auth_key'') = Some key" "64 \<le> length key" "10 \<notin> set (take 64 key)"
    and "log_path opts \<noteq> Some (str_bytes ''auth_key'')"
    and "length salt \<le> 9992" "ok \<noteq> 0" "list_all framed msgs"
    and "clean es" "payload es = vns_message VNS_AUTH_REQUEST salt @ vns_message VNS_AUTH_STATUS [ok] @
      vns_message VNS_RTABLE (strncpy vhost 32 @ table) @ concat msgs @ rest"
  defines "t \<equiv> entered (s\<lparr>fs := (open_log opts (fs s))(opt_rtable opts \<mapsto> table)\<rparr>) (configured w opts rs) salt (take 64 key)"
  assumes "ended (serve (w_envs w) (w_rounds w) depth 0 t msgs)"
  shows "\<exists>es'. main w depth argv (at_input s es) =
    Some (map_sum id (\<lambda>x. (0, sr_destroy_instance opts (at_input (snd x) es'))) (serve (w_envs w) (w_rounds w) depth 0 t msgs))"
proof -
  let ?c = "configured w opts []" and ?o = "s\<lparr>fs := open_log opts (fs s), router := configured w opts []\<rparr>"
  let ?t = "?o\<lparr>router := ?c\<lparr>sock_out := sock_out ?c @ greeting ?c salt (take 64 key)\<rparr>, fs := (fs ?o)(opt_rtable opts \<mapsto> table)\<rparr>"
  have key: "fs ?o (str_bytes ''auth_key'') = Some key" using assms(12,15) by (auto simp: open_log_def split: option.split)
  have ok: "\<forall>n. services_ok (w_con_envs w n)" using assms(6) by (simp add: world_ok_def)
  have user: "0 \<in> set (user ?c)" using strncpy_nul [OF assms(7)] by (simp add: configured_def)
  have ready: "auth_ready (w_con_envs w 0) (router ?o)"
    using assms(6) user services_okD(1) ok by (simp add: auth_ready_def world_ok_def)
  have tm: "template (router ?o) = strncpy tmpl 30" using assms(2) by (simp add: configured_def)
  then have tmpl: "0 \<in> set (template (router ?o))" "cstr (template (router ?o)) \<noteq> []"
    using strncpy_nul [OF assms(4)] assms(3,4) by (simp_all add: cstr_strncpy)
  have con: "w_con w = \<lparr>host_known = True, socket_ok = True, connect_ok = True\<rparr>" using assms(6) by (simp add: world_ok_def)
  have pay: "payload es = vns_message VNS_AUTH_REQUEST salt @ vns_message VNS_AUTH_STATUS (ok # []) @
      (if cstr (template (router ?o)) = [] then [] else vns_message VNS_RTABLE (strncpy vhost 32 @ table)) @ concat msgs @ rest"
    using assms(20) tmpl(2) by simp
  obtain es1 where es1: "clean es1" "payload es1 = concat msgs @ rest"
    "sr_connect_to_server (w_con_envs w) depth (w_con w) (at_input ?o es) = Some (Inr (0, at_input ?t es1))"
    using connect_effect [OF ready key assms(13,14,16,17) _ tmpl(1) con ok assms(8,11,19) pay, of depth] tmpl(2)
    by (auto simp: greeting_def assms(5))
  have e: "?t\<lparr>router := sr_init ((router ?t)\<lparr>routing_table := rs\<rparr>)\<rparr> = t"
    by (simp add: t_def entered_def configured_def sr_init_def greeting_def open_request_def c_open_def c_open_template_def)
  have "fs ?t (opt_rtable opts) = Some table" by simp
  from run_session_serves [OF assms(6,9,10) this es1(1,2) assms(18), of depth, unfolded e, OF assms(22)]
  obtain es2 where "run_session w depth opts (at_input ?t es1) =
      Some (map_sum id (\<lambda>x. (0, sr_destroy_instance opts (at_input (snd x) es2))) (serve (w_envs w) (w_rounds w) depth 0 t msgs))" by blast
  then show ?thesis
    using set_up_template [where files = "fs s", OF assms(6,2,7)] assms(1) es1(3) by (intro exI [of _ es2]) (simp add: main_def)
qed

definition good_world :: world where
  "good_world = \<lparr>w_raw = empty_instance\<lparr>template := replicate 30 1\<rparr>, w_bufs = (\<lambda>_. replicate 4 (replicate 32 0)), w_pw = None,
     w_log_ok = True, w_fopen_ok = True, w_env = good_env 0,
     w_con = \<lparr>host_known = True, socket_ok = True, connect_ok = True\<rparr>, w_con_envs = (\<lambda>_. good_vns_env), w_envs = (\<lambda>_. good_vns_env),
     w_rounds = (\<lambda>i. if i = 0 then [good_env 1, good_env 2] else [])\<rparr>"

text \<open>A file laid out like those of the repository: blanks between the words, no newline at the end.\<close>

definition sample_rtable :: bytes where
  "sample_rtable = str_bytes ''192.168.2.2   192.168.2.1    255.255.255.255    eth1''"

lemma sample_rtable_described: "describes_routes sample_rtable [sample_route]"
proof -
  have "file_lines sample_rtable = [sample_rtable]" "0 \<notin> set sample_rtable" "length sample_rtable < 8191"
    by (code_simp, code_simp, code_simp)
  moreover have "line_words sample_rtable =
      [inet_ntoa (rt_dest sample_route), inet_ntoa (rt_gw sample_route), inet_ntoa (rt_mask sample_route), str_bytes ''eth1'']"
    by code_simp
  moreover have "rt_interface sample_route = strncpy (str_bytes ''eth1'') 32" "length (str_bytes ''eth1'') < 32"
    by (simp_all add: sample_route_def str_bytes_def)
  ultimately show ?thesis by (simp add: describes_routes_def route_line_def inet_aton_ntoa inet_ntoa_word)
qed

definition disk :: files where
  "disk = [str_bytes ''rtable'' \<mapsto> sample_rtable, str_bytes ''auth_key'' \<mapsto> replicate 64 107]"

definition ada_options :: options where
  "ada_options = default_options\<lparr>opt_user := Some (str_bytes ''ada''), opt_topo := 7, opt_logfile := Some (str_bytes ''p'')\<rparr>"

definition sample_argv :: "bytes list" where
  "sample_argv = [str_bytes ''sr'', str_bytes ''-u'', str_bytes ''ada'', str_bytes ''x'', str_bytes ''-t7'', str_bytes ''-lp'']"

definition sample_start :: session where
  "sample_start = idle_session\<lparr>fs := disk\<rparr>"

definition sample_input :: "bytes list \<Rightarrow> sock_event list" where
  "sample_input msgs = [Data (vns_message VNS_AUTH_REQUEST [1, 2, 3]), Intr, Data (vns_message VNS_AUTH_STATUS [1]), Data (concat msgs)]"

definition sample_entered :: session where
  "sample_entered = entered (sample_start\<lparr>fs := open_log ada_options (fs sample_start)\<rparr>)
     (configured good_world ada_options [sample_route]) [1, 2, 3] (take 64 (replicate 64 107))"

lemma ada_options_simps:
  "opt_template ada_options = None" "user_name good_world ada_options = str_bytes ''ada''"
  "opt_rtable ada_options = str_bytes ''rtable''" "log_path ada_options = Some (str_bytes ''p'')"
  "opt_logfile ada_options = Some (str_bytes ''p'')"
  by (simp_all add: ada_options_def default_options_def user_name_def log_path_def) (simp add: str_bytes_def cstr_def)

lemma sample_setting:
  "option_loop default_options (getopt_loop [] (tl sample_argv)) = Some ada_options" "opt_template ada_options = None"
  "world_ok good_world" "length (cstr (user_name good_world ada_options)) < 32" "describes_routes sample_rtable [sample_route]" "[sample_route] \<noteq> []"
  "fs sample_start (opt_rtable ada_options) = Some sample_rtable"
  "fs sample_start (str_bytes ''auth_key'') = Some (replicate 64 107)" "64 \<le> length (replicate 64 (107 :: u8))"
  "10 \<notin> set (take 64 (replicate 64 (107 :: u8)))" "log_path ada_options \<noteq> Some (opt_rtable ada_options)"
  "log_path ada_options \<noteq> Some (str_bytes ''auth_key'')" "length [1, 2, 3 :: u8] \<le> 9992" "(1 :: u8) \<noteq> 0"
proof -
  have "getopt_loop [] (tl sample_argv) = [Opt 117 (str_bytes ''ada''), Opt 116 [55], Opt 108 (str_bytes ''p'')]"
    "atoi [55] = 7" by (code_simp, code_simp)
  then show "option_loop default_options (getopt_loop [] (tl sample_argv)) = Some ada_options" by (simp add: ada_options_def)
  show "world_ok good_world"
    by (simp add: world_ok_def good_world_def good_services list_all_iff) (simp add: good_vns_env_def blank_context_def)
  show "length (cstr (user_name good_world ada_options)) < 32"
    by (simp add: ada_options_simps) (simp add: str_bytes_def cstr_def)
  show "fs sample_start (opt_rtable ada_options) = Some sample_rtable"
    "fs sample_start (str_bytes ''auth_key'') = Some (replicate 64 107)"
    "log_path ada_options \<noteq> Some (opt_rtable ada_options)" "log_path ada_options \<noteq> Some (str_bytes ''auth_key'')"
    by (simp_all add: ada_options_simps sample_start_def disk_def) (simp_all add: str_bytes_def)
qed (simp_all add: ada_options_simps sample_rtable_described)

lemma sample_payload:
  "clean (sample_input msgs)"
  "payload (sample_input msgs) = vns_message VNS_AUTH_REQUEST [1, 2, 3] @ vns_message VNS_AUTH_STATUS [1] @ concat msgs @ []"
  by (simp_all add: sample_input_def)

lemma sample_entered_simps:
  "routing_table (router sample_entered) = [sample_route]" "if_list (router sample_entered) = []"
  "logfile (router sample_entered) = Some (sf_write_header LINKTYPE_ETHERNET 0 1024)"
  "fs sample_entered (str_bytes ''p'') = Some []" "shown sample_entered = []" "w_envs good_world n = good_vns_env"
  "w_rounds good_world n = (if n = 0 then [good_env 1, good_env 2] else [])"
  by (simp_all add: sample_entered_def entered_def sr_init_def configured_def open_log_def ada_options_simps good_world_def
      sample_start_def idle_session_def)

text \<open>A round before anything has been learnt or queued changes nothing.\<close>

lemma round_idle: "sr_arpcache_timeout_round env depth (sr_init sr) = Inr (sr_init sr)"
proof -
  have "expire_entries now (sr_arpcache_init c) = sr_arpcache_init c" for now c
    by (simp add: expire_entries_def sr_arpcache_init_def expire_entry_def empty_entry_def)
  then show ?thesis
    by (simp add: sr_arpcache_timeout_round_def sr_arpcache_sweepreqs_def sr_init_def)
      (simp add: sr_arpcache_init_def first_req_def)
qed

lemma wait_rounds_idle: "router s = sr_init sr \<Longrightarrow> wait_rounds depth envs s = Inr s"
proof -
  have "timeout_rounds depth (sr_init sr) envs = Inr (sr_init sr)" by (induction envs) (simp_all add: round_idle)
  then show "router s = sr_init sr \<Longrightarrow> wait_rounds depth envs s = Inr s" by (simp add: wait_rounds_def)
qed

lemma wait_entered: "wait_rounds depth envs (entered s sr salt key) = Inr (entered s sr salt key)"
  by (rule wait_rounds_idle) (simp add: entered_def)

lemma wait_sample: "wait_rounds depth envs sample_entered = Inr sample_entered"
  unfolding sample_entered_def by (rule wait_entered)

lemma sample_run:
  assumes "list_all framed msgs" "serve (w_envs good_world) (w_rounds good_world) 1 0 sample_entered msgs = Inr (rc, t)" "rc \<noteq> 1"
  shows "\<exists>es'. main good_world 1 sample_argv (at_input sample_start (sample_input msgs)) =
    Some (Inr (0, sr_destroy_instance ada_options (at_input t es')))"
  using run_completes [OF sample_setting assms(1) sample_payload, of 1] assms(2,3)
  unfolding sample_entered_def [symmetric] by (auto simp: ended_def)

theorem whole_run_witness:
  "\<exists>t. main good_world 1 sample_argv (at_input sample_start (sample_input [goodbye])) = Some (Inr (0, t)) \<and>
    routing_table (router t) = [sample_route] \<and> shown t = [[98, 121, 101]] \<and>
    fs t (str_bytes ''p'') = Some (sf_write_header LINKTYPE_ETHERNET 0 1024)"
proof -
  have fr: "list_all framed [goodbye]" by (simp add: goodbye_props(1))
  have sv: "serve (w_envs good_world) (w_rounds good_world) 1 0 sample_entered [goodbye] = Inr (0, sample_entered\<lparr>shown := [[98, 121, 101]]\<rparr>)"
    by (simp add: goodbye_props sample_entered_simps wait_sample)
  obtain es' where "main good_world 1 sample_argv (at_input sample_start (sample_input [goodbye])) =
      Some (Inr (0, sr_destroy_instance ada_options (at_input (sample_entered\<lparr>shown := [[98, 121, 101]]\<rparr>) es')))"
    using whole_run [OF sample_setting fr sample_payload, of 1] sv unfolding sample_entered_def [symmetric] by (auto simp: ended_def)
  then show ?thesis by (simp add: sr_destroy_instance_def sr_dump_close_def ada_options_simps sample_entered_simps)
qed

section \<open>A run for a template\<close>

text \<open>
  C14.  A whole run for a template: with \<^verbatim>\<open>-T\<close> and with \<^verbatim>\<open>-r\<close> naming the file the server's table is stored in,
  \<^verbatim>\<open>main\<close> answers the authentication, asks for the template, stores the routing table the server
  sends, loads exactly its routes and handles the messages that follow, with the rounds of the timeout
  thread made while it waits for them, until one ends the session.
\<close>

theorem template_run:
  assumes "option_loop default_options (getopt_loop [] (tl argv)) = Some opts" "opt_template opts = Some tmpl"
    and "cstr tmpl \<noteq> []" "length (cstr tmpl) < 30" "opt_rtable opts = str_bytes ''rtable.'' @ cstr vhost"
    and "world_ok w" "length (cstr (user_name w opts)) < 32" "length (cstr vhost) < 32"
    and "describes_routes table rs" "rs \<noteq> []" "length table \<le> 9960"
    and "fs s (str_bytes ''auth_key'') = Some key" "64 \<le> length key" "10 \<notin> set (take 64 key)"
    and "log_path opts \<noteq> Some (str_bytes ''auth_key'')"
    and "length salt \<le> 9992" "ok \<noteq> 0" "list_all framed msgs"
    and "clean es" "payload es = vns_message VNS_AUTH_REQUEST salt @ vns_message VNS_AUTH_STATUS [ok] @
      vns_message VNS_RTABLE (strncpy vhost 32 @ table) @ concat msgs @ rest"
    and "ended (serve (w_envs w) (w_rounds w) depth 0
      (entered (s\<lparr>fs := (open_log opts (fs s))(opt_rtable opts \<mapsto> table)\<rparr>) (configured w opts rs) salt (take 64 key)) msgs)"
  shows "\<exists>es'. main w depth argv (at_input s es) =
    Some (map_sum id (\<lambda>x. (0, sr_destroy_instance opts (at_input (snd x) es')))
      (serve (w_envs w) (w_rounds w) depth 0
        (entered (s\<lparr>fs := (open_log opts (fs s))(opt_rtable opts \<mapsto> table)\<rparr>) (configured w opts rs) salt (take 64 key)) msgs))"
  by (rule template_run_completes [OF assms])

definition template_argv :: "bytes list" where
  "template_argv = [str_bytes ''sr'', str_bytes ''-T'', str_bytes ''tp'', str_bytes ''-rrtable.vrhost'', str_bytes ''-uada'']"

definition template_options :: options where
  "template_options = default_options\<lparr>opt_template := Some (str_bytes ''tp''), opt_rtable := str_bytes ''rtable.vrhost'',
     opt_user := Some (str_bytes ''ada'')\<rparr>"

theorem template_run_witness:
  "\<exists>t. main good_world 1 template_argv
      (at_input (idle_session\<lparr>fs := [str_bytes ''auth_key'' \<mapsto> replicate 64 107]\<rparr>)
        [Data (vns_message VNS_AUTH_REQUEST [1, 2, 3] @ vns_message VNS_AUTH_STATUS [1]),
         Data (vns_message VNS_RTABLE (strncpy (str_bytes ''vrhost'') 32 @ route_text sample_route @ [10])), Data goodbye]) =
      Some (Inr (0, t)) \<and> routing_table (router t) = [sample_route] \<and> shown t = [[98, 121, 101]]"
proof -
  let ?s = "idle_session\<lparr>fs := [str_bytes ''auth_key'' \<mapsto> replicate 64 107]\<rparr>" and ?o = template_options
  let ?es = "[Data (vns_message VNS_AUTH_REQUEST [1, 2, 3] @ vns_message VNS_AUTH_STATUS [1]),
      Data (vns_message VNS_RTABLE (strncpy (str_bytes ''vrhost'') 32 @ route_text sample_route @ [10])), Data goodbye]"
  have "getopt_loop [] (tl template_argv) =
      [Opt 84 (str_bytes ''tp''), Opt 114 (str_bytes ''rtable.vrhost''), Opt 117 (str_bytes ''ada'')]" by code_simp
  then have argv: "option_loop default_options (getopt_loop [] (tl template_argv)) = Some ?o" by (simp add: template_options_def)
  have o: "opt_template ?o = Some (str_bytes ''tp'')" "opt_rtable ?o = str_bytes ''rtable.'' @ cstr (str_bytes ''vrhost'')"
    "user_name good_world ?o = str_bytes ''ada''" "log_path ?o = None"
    by (simp_all add: template_options_def default_options_def user_name_def log_path_def) (simp add: str_bytes_def cstr_def)
  have c: "cstr (str_bytes ''tp'') \<noteq> []" "length (cstr (str_bytes ''tp'')) < 30" "length (cstr (user_name good_world ?o)) < 32"
    "length (cstr (str_bytes ''vrhost'')) < 32"
    unfolding o by (simp_all add: str_bytes_def cstr_def)
  have d: "describes_routes (route_text sample_route @ [10]) [sample_route]" "[sample_route] \<noteq> []"
    using printed_routes_described [of "[sample_route]"] sample_route_wf by simp_all
  have l: "length (route_text sample_route @ [10]) \<le> 9960" using route_text_line [OF sample_route_wf] by simp
  have k: "fs ?s (str_bytes ''auth_key'') = Some (replicate 64 107)" "log_path ?o \<noteq> Some (str_bytes ''auth_key'')" by (simp_all add: o(4))
  have m: "list_all framed [goodbye]" "clean ?es"
    "payload ?es = vns_message VNS_AUTH_REQUEST [1, 2, 3] @ vns_message VNS_AUTH_STATUS [1] @
      vns_message VNS_RTABLE (strncpy (str_bytes ''vrhost'') 32 @ route_text sample_route @ [10]) @ concat [goodbye] @ []"
    by (simp_all add: goodbye_props(1))
  let ?e = "entered (?s\<lparr>fs := (open_log ?o (fs ?s))(opt_rtable ?o \<mapsto> route_text sample_route @ [10])\<rparr>)
      (configured good_world ?o [sample_route]) [1, 2, 3] (take 64 (replicate 64 107))"
  have sv: "serve (w_envs good_world) (w_rounds good_world) 1 0 ?e [goodbye] = Inr (0, ?e\<lparr>shown := [[98, 121, 101]]\<rparr>)"
    by (simp add: goodbye_props wait_entered) (simp add: entered_def idle_session_def)
  have "\<exists>es'. main good_world 1 template_argv (at_input ?s ?es) =
      Some (map_sum id (\<lambda>x. (0, sr_destroy_instance ?o (at_input (snd x) es'))) (serve (w_envs good_world) (w_rounds good_world) 1 0 ?e [goodbye]))"
    by (rule template_run [OF argv o(1) c(1,2) o(2) sample_setting(3) c(3,4) d(1,2) l k(1) sample_setting(9,10) k(2)
          sample_setting(13,14) m]) (simp only: sv ended_def, simp)
  moreover have "logfile (router ?e) = None" "routing_table (router ?e) = [sample_route]"
    by (simp_all add: entered_def sr_init_def configured_def) (simp add: template_options_def default_options_def)
  ultimately show ?thesis unfolding sv by (auto simp: sr_destroy_instance_def)
qed

end
