(* ===== verification/SR_Contract.thy ===== *)
theory SR_Contract
  imports SR_Router_Inv
begin

text \<open>
  What every primitive operation keeps, every handler keeps.  The locale \<open>operations\<close> takes a reflexive and
  transitive relation between states that holds across a send and across each operation of the
  cache; its lemmas carry the relation through the mutually recursive handlers, the handling of
  frames and the rounds of the timeout thread.
\<close>

section \<open>The contract\<close>

locale operations =
  fixes R :: "sr_instance \<Rightarrow> sr_instance \<Rightarrow> bool"
  assumes R_refl: "R s s"
    and R_trans: "R s t \<Longrightarrow> R t u \<Longrightarrow> R s u"
    and R_send: "sr_send_packet env s buf iface = Inr (rc, s') \<Longrightarrow> R s s'"
    and R_queue: "sr_arpcache_queuereq env (cache s) ip frame name = Inr (a, c) \<Longrightarrow> R s (s\<lparr>cache := c\<rparr>)"
    and R_touch: "R s (s\<lparr>cache := (cache s)\<lparr>requests := update_req (requests (cache s)) a
      (\<lambda>r. r\<lparr>req_sent := now, req_times_sent := req_times_sent r + 1\<rparr>)\<rparr>\<rparr>)"
    and R_destroy: "R s (s\<lparr>cache := sr_arpreq_destroy (cache s) a\<rparr>)"
    and R_insert: "sr_arpcache_insert env (cache s) mac ip = (req, c) \<Longrightarrow> R s (s\<lparr>cache := c\<rparr>)"
    and R_expire: "R s (s\<lparr>cache := expire_entries now (cache s)\<rparr>)"
begin

definition step :: "sr_instance \<Rightarrow> fault + sr_instance \<Rightarrow> bool" where
  "step s r \<longleftrightarrow> (case r of Inl f \<Rightarrow> True | Inr s' \<Rightarrow> R s s')"

lemma step_Inl [simp]: "step s (Inl f)"
  by (simp add: step_def)

lemma step_Inr: "step s (Inr s') \<longleftrightarrow> R s s'"
  by (simp add: step_def)

lemma step_self [simp]: "step s (Inr s)"
  by (simp add: step_Inr R_refl)

lemma step_after: "R s t \<Longrightarrow> step t r \<Longrightarrow> step s r"
  by (auto simp: step_def intro: R_trans split: sum.splits)

lemma step_bind: "step s r \<Longrightarrow> (\<And>t. r = Inr t \<Longrightarrow> R s t \<Longrightarrow> step s (g t)) \<Longrightarrow> step s (case r of Inl f \<Rightarrow> Inl f | Inr t \<Rightarrow> g t)"
  by (auto simp: step_def split: sum.splits)

lemma step_case: "(\<And>x. r = Inr x \<Longrightarrow> step s (g x)) \<Longrightarrow> step s (case r of Inl f \<Rightarrow> Inl f | Inr x \<Rightarrow> g x)"
  by (cases r) simp_all

lemma step_if: "step s x \<Longrightarrow> step s y \<Longrightarrow> step s (if b then x else y)"
  by simp

lemma step_send: "step s (case sr_send_packet env s buf iface of Inl f \<Rightarrow> Inl f | Inr (rc, s') \<Rightarrow> Inr s')"
  by (auto simp: step_Inr intro: R_send split: sum.splits)

lemma arp_reply_step: "step s (send_arp_reply env s arp i)"
  unfolding send_arp_reply_def by (auto intro!: step_case step_send)

lemma arp_request_step: "step s (send_arp_request env s ip name)"
  unfolding send_arp_request_def by (auto intro!: step_case step_send split: option.splits)

lemma route_step:
  assumes "\<And>s a. step s (handle s a)"
  shows "step s (map_sum id snd (route_and_send_with handle env s frame))"
proof (cases "route_and_send_with handle env s frame")
  case (Inr x)
  then obtain rc s' where x: "x = (rc, s')" by fastforce
  with Inr have "s' = s \<or> (\<exists>ip f name a c. sr_arpcache_queuereq env (cache s) ip f name = Inr (a, c) \<and> handle (s\<lparr>cache := c\<rparr>) a = Inr s')"
    by (auto simp: route_and_send_with_def Let_def split: if_splits sum.splits option.splits)
  moreover have "R s s'" if "sr_arpcache_queuereq env (cache s) ip f name = Inr (a, c)" "handle (s\<lparr>cache := c\<rparr>) a = Inr s'" for ip f name a c
    using R_trans [OF R_queue [OF that(1)]] assms [of "s\<lparr>cache := c\<rparr>" a] that(2) by (simp add: step_Inr)
  ultimately show ?thesis using Inr x R_refl by (auto simp: step_Inr)
qed simp

lemma map_sum_case: "(case r of Inl f \<Rightarrow> Inl f | Inr (rc, s') \<Rightarrow> Inr s') = map_sum id snd r"
  by (cases r) auto

lemma error_step:
  assumes "\<And>s a. step s (handle s a)"
  shows "step s (send_icmp_error_with handle env s type code orig src)"
  unfolding send_icmp_error_with_def Let_def map_sum_case by (auto intro!: step_case route_step assms)

lemma loop_step:
  assumes "\<And>s a. step s (handle s a)"
  shows "step s (unreachable_loop handle env s req pkts)"
proof (induction pkts arbitrary: s)
  case (Cons p pkts)
  have "step s (case send_icmp_error_with handle env s 3 1 (pkt_buf p) 0 of Inl f \<Rightarrow> Inl f
      | Inr t \<Rightarrow> unreachable_loop handle env t req pkts)"
    by (intro step_bind error_step assms) (rule step_after [OF _ Cons.IH])
  with Cons.IH show ?case by (auto intro!: step_case)
qed simp

lemma body_step:
  assumes "\<And>s a. step s (handle s a)"
  shows "step s (handle_arpreq_body handle env s a)"
proof -
  have giveup: "step s (case unreachable_loop handle env s a ps of Inl f \<Rightarrow> Inl f | Inr s1 \<Rightarrow>
      (case deref_req (cache s1) a of Inl f \<Rightarrow> Inl f | Inr _ \<Rightarrow> Inr (s1\<lparr>cache := sr_arpreq_destroy (cache s1) a\<rparr>)))" for ps
    by (intro step_bind loop_step assms step_case) (simp add: step_Inr R_trans [OF _ R_destroy])
  have retry: "step s (case (case ps of [] \<Rightarrow> Inr s | p # _ \<Rightarrow> send_arp_request env s ip (pkt_iface p)) of Inl f \<Rightarrow> Inl f
      | Inr s1 \<Rightarrow> Inr (s1\<lparr>cache := (cache s1)\<lparr>requests := update_req (requests (cache s1)) a
         (\<lambda>r. r\<lparr>req_sent := env_time env, req_times_sent := req_times_sent r + 1\<rparr>)\<rparr>\<rparr>))" for ps ip
    by (rule step_bind) (auto simp: step_Inr arp_request_step R_trans [OF _ R_touch] split: list.splits)
  show ?thesis unfolding handle_arpreq_body_def by (intro giveup retry step_self step_if step_case)
qed

lemma handle_step: "step s (handle_arpreq env depth s a)"
  by (induction depth arbitrary: s a) (simp_all add: body_step)

lemma route_and_send_step: "step s (map_sum id snd (route_and_send env depth s frame))"
  unfolding route_and_send_def by (intro route_step handle_step)

lemma send_icmp_error_step: "step s (send_icmp_error env depth s type code orig src)"
  unfolding send_icmp_error_def by (intro error_step handle_step)

section \<open>Received frames and rounds\<close>

lemma step_send_then:
  assumes "\<And>s. step s (g s)"
  shows "step s (case sr_send_packet env s buf name of Inl f \<Rightarrow> Inl f | Inr (rc, s') \<Rightarrow> g s')"
proof (cases "sr_send_packet env s buf name")
  case (Inr x)
  with step_after [OF R_send, of env s buf name "fst x" "snd x"] assms show ?thesis by (simp add: case_prod_unfold)
qed simp

lemma drain_step: "step s (drain_packets env s sha pkts)"
  by (induction pkts arbitrary: s) (auto simp: Let_def intro!: step_case step_send_then)

lemma arp_packet_step: "step s (handle_arp_packet env s packet interface)"
proof -
  have "step s (let (req, c) = sr_arpcache_insert env (cache s) mac ip; s1 = s\<lparr>cache := c\<rparr>
      in case req of None \<Rightarrow> Inr s1 | Some (a, r) \<Rightarrow>
        (case drain_packets env s1 mac (req_packets r) of Inl f \<Rightarrow> Inl f
         | Inr s2 \<Rightarrow> Inr (s2\<lparr>cache := sr_arpreq_destroy (cache s2) a\<rparr>)))" for mac ip
  proof -
    obtain req c where ins: "sr_arpcache_insert env (cache s) mac ip = (req, c)" by fastforce
    have "step (s\<lparr>cache := c\<rparr>) (case drain_packets env (s\<lparr>cache := c\<rparr>) mac ps of Inl f \<Rightarrow> Inl f
         | Inr s2 \<Rightarrow> Inr (s2\<lparr>cache := sr_arpreq_destroy (cache s2) a\<rparr>))" for ps a
      by (intro step_bind drain_step) (simp add: step_Inr R_trans [OF _ R_destroy])
    with R_insert [OF ins] show ?thesis by (auto simp: ins Let_def step_Inr intro: step_after split: option.splits)
  qed
  then show ?thesis
    unfolding handle_arp_packet_def Let_def [of "ntohs _"] by (auto intro!: step_case arp_reply_step split: option.splits)
qed

lemma ip_packet_step: "step s (handle_ip_packet env depth s packet interface)"
proof -
  have echo: "step s (send_icmp_echo_reply env depth s packet)"
    unfolding send_icmp_echo_reply_def map_sum_case by (auto intro!: step_case route_and_send_step)
  have "step s (handle_local_ip env depth s packet ip n)" for ip n
    unfolding handle_local_ip_def Let_def by (auto intro!: step_case echo)
  moreover have "step s (forward_ip env depth s packet interface ip n)" for ip n
  proof -
    have fwd: "step s (case route_and_send env depth s f of Inl f \<Rightarrow> Inl f | Inr (rc, s') \<Rightarrow>
        if rc < 0 then send_icmp_error env depth s' 3 0 packet (in_iface_ip s' interface) else Inr s')" for f
      using route_and_send_step [of s env depth f]
      by (auto simp: step_Inr intro: step_after send_icmp_error_step split: sum.splits)
    show ?thesis unfolding forward_ip_def by (intro fwd send_icmp_error_step step_self step_if step_case)
  qed
  ultimately show ?thesis
    unfolding handle_ip_packet_def Let_def by (auto intro!: step_case split: option.splits)
qed

lemma packet_step: "step s (sr_handlepacket env depth s packet interface)"
  unfolding sr_handlepacket_def by (auto intro!: step_case arp_packet_step ip_packet_step)

lemma sweep_step: "step s (sweep_walk env depth visits s cur)"
proof (induction env depth visits s cur rule: sweep_walk.induct)
  case (3 env depth visits s req)
  have "step s (case handle_arpreq env depth s req of Inl f \<Rightarrow> Inl f
      | Inr s' \<Rightarrow> sweep_walk env depth visits s' (next_req (requests (cache s)) req))"
    if d: "deref_req (cache s) req = Inr r" for r
    by (rule step_bind [OF handle_step]) (use 3 d in \<open>auto intro: step_after\<close>)
  then show ?case by (auto simp: Let_def intro!: step_case)
qed simp_all

lemma round_step: "step s (sr_arpcache_timeout_round env depth s)"
  unfolding sr_arpcache_timeout_round_def sr_arpcache_sweepreqs_def by (rule step_after [OF R_expire sweep_step])

lemmas handlers = handle_step [unfolded step_def] packet_step [unfolded step_def] round_step [unfolded step_def]

end

section \<open>Addresses of requests are not reused\<close>

text \<open>A request that is queued later has an address that was not handed out before.\<close>

definition fresh_addrs :: "sr_instance \<Rightarrow> sr_instance \<Rightarrow> bool" where
  "fresh_addrs s t \<longleftrightarrow> next_addr (cache s) \<le> next_addr (cache t) \<and>
     (\<forall>a\<in>fst ` set (requests (cache t)). a \<in> fst ` set (requests (cache s)) \<or> next_addr (cache s) \<le> a)"

lemma fresh_addrs_subset:
  "next_addr (cache t) = next_addr (cache s) \<Longrightarrow> fst ` set (requests (cache t)) \<subseteq> fst ` set (requests (cache s)) \<Longrightarrow> fresh_addrs s t"
  by (auto simp: fresh_addrs_def)

lemma in_update_req: "(b, r) \<in> set (update_req rs a f) \<Longrightarrow> b \<in> fst ` set rs"
  by (metis fst_conv image_eqI map_fst_update_req set_map)

lemma in_unlink_req: "(b, r) \<in> set (unlink_req rs a) \<Longrightarrow> b \<in> fst ` set rs"
  using set_unlink_subset by force

lemma queuereq_addrs:
  "sr_arpcache_queuereq env c ip frame name = Inr (a, c') \<Longrightarrow>
     next_addr c \<le> next_addr c' \<and> (\<forall>a\<in>fst ` set (requests c'). a \<in> fst ` set (requests c) \<or> next_addr c \<le> a)"
  by (auto simp: sr_arpcache_queuereq_def add_req_def Let_def dest: in_update_req
      split: if_splits option.splits sum.splits prod.splits)

lemma insert_addrs:
  "sr_arpcache_insert env c mac ip = (req, c') \<Longrightarrow> next_addr c' = next_addr c \<and> fst ` set (requests c') \<subseteq> fst ` set (requests c)"
  using requests_insert_subset [of env c mac ip req c'] by (auto simp: sr_arpcache_insert_def split: prod.splits)

interpretation fa: operations fresh_addrs
proof
  show "fresh_addrs s u" if "fresh_addrs s t" "fresh_addrs t u" for s t u
    using that unfolding fresh_addrs_def by (meson order_trans)
  show "fresh_addrs s t" if "sr_send_packet env s buf iface = Inr (rc, t)" for env s buf iface rc t
    using sr_send_packet_frame(2) [OF that] by (simp add: fresh_addrs_def)
  show "fresh_addrs s (s\<lparr>cache := c\<rparr>)" if "sr_arpcache_queuereq env (cache s) ip frame name = Inr (a, c)" for env s ip frame name a c
    using queuereq_addrs [OF that] by (simp add: fresh_addrs_def)
  show "fresh_addrs s (s\<lparr>cache := c\<rparr>)" if "sr_arpcache_insert env (cache s) mac ip = (req, c)" for env s mac ip req c
    using insert_addrs [OF that] by (intro fresh_addrs_subset) simp_all
qed (auto simp: sr_arpreq_destroy_def expire_entries_def dest: in_update_req in_unlink_req intro!: fresh_addrs_subset)

end
