(* ===== verification/SR_Messages.thy ===== *)
theory SR_Messages
  imports SR_Main SR_Contract
begin

text \<open>
  The protocol of the server over typed messages: the structs of \<^verbatim>\<open>vnscommand.h\<close> as the bytes the server
  sends, what the client is to do with each of them, and that the main loop does this with a stream
  of such messages.
\<close>

section \<open>The messages\<close>

definition MAXHWENTRIES :: nat where "MAXHWENTRIES = 256"

definition c_close :: "bytes \<Rightarrow> bytes" where
  "c_close mErrorMessage = vns_message VNSCLOSE (strncpy mErrorMessage 256)"

definition c_banner :: "bytes \<Rightarrow> bytes" where
  "c_banner mBannerMessage = vns_message VNSBANNER (strncpy mBannerMessage 256)"

definition c_hwinfo :: "(u32 \<times> bytes) list \<Rightarrow> bytes" where
  "c_hwinfo mHWInfo = vns_message VNSHWINFO (hw_body mHWInfo)"

definition c_rtable :: "bytes \<Rightarrow> bytes \<Rightarrow> bytes" where
  "c_rtable mVirtualHostID rtable = vns_message VNS_RTABLE (strncpy mVirtualHostID IDSIZE @ rtable)"

definition c_auth_request :: "bytes \<Rightarrow> bytes" where
  "c_auth_request salt = vns_message VNS_AUTH_REQUEST salt"

definition c_auth_status :: "u8 \<Rightarrow> bytes \<Rightarrow> bytes" where
  "c_auth_status auth_ok msg = vns_message VNS_AUTH_STATUS (auth_ok # msg @ [0])"

datatype server_message =
    Close bytes
  | Packet bytes bytes
  | Banner bytes
  | Hwinfo "hw_if list"
  | Rtable bytes bytes
  | Auth_request bytes
  | Auth_status u8 bytes

fun message_bytes :: "server_message \<Rightarrow> bytes" where
  "message_bytes (Close text) = c_close text"
| "message_bytes (Packet name frame) = packet_message frame name"
| "message_bytes (Banner text) = c_banner text"
| "message_bytes (Hwinfo ds) = c_hwinfo (concat (map describe ds))"
| "message_bytes (Rtable vhost table) = c_rtable vhost table"
| "message_bytes (Auth_request salt) = c_auth_request salt"
| "message_bytes (Auth_status ok msg) = c_auth_status ok msg"

text \<open>What fits into the structs and into the 10000 bytes of a message.\<close>

fun message_ok :: "server_message \<Rightarrow> bool" where
  "message_ok (Close text) \<longleftrightarrow> 0 \<notin> set text \<and> length text < 256"
| "message_ok (Packet name frame) \<longleftrightarrow> length (cstr name) < 16 \<and> length frame \<le> 9976"
| "message_ok (Banner text) \<longleftrightarrow> 0 \<notin> set text \<and> length text < 256"
| "message_ok (Hwinfo ds) \<longleftrightarrow> list_all hw_if_wf ds \<and> length (concat (map describe ds)) \<le> MAXHWENTRIES"
| "message_ok (Rtable vhost table) \<longleftrightarrow> length (cstr vhost) < IDSIZE \<and> length table \<le> 9960"
| "message_ok (Auth_request salt) \<longleftrightarrow> length salt \<le> 9992"
| "message_ok (Auth_status ok msg) \<longleftrightarrow> 0 \<notin> set msg \<and> length msg \<le> 9990"

section \<open>What the client does\<close>

definition say :: "bytes \<Rightarrow> session \<Rightarrow> session" where
  "say text s = s\<lparr>shown := shown s @ [text]\<rparr>"

definition auth_answer :: "vns_env \<Rightarrow> session \<Rightarrow> bytes \<Rightarrow> bytes \<Rightarrow> bytes" where
  "auth_answer env s salt content =
     c_auth_reply (cstr (user (router s))) (sha1 (salt @ hashed_key (env_raw_key env) content))"

text \<open>The specification of one message, with the result that decides whether the session goes on (\<open>1\<close>).\<close>

fun understood :: "vns_env \<Rightarrow> nat \<Rightarrow> session \<Rightarrow> server_message \<Rightarrow> fault + (int \<times> session)" where
  "understood env depth s (Close text) = Inr (0, say text s)"
| "understood env depth s (Banner text) = Inr (1, say text s)"
| "understood env depth s (Packet name frame) =
     (case sr_get_interface (router s) name of
        None \<Rightarrow> if 42 \<le> length frame then Inl AssertFailed
          else map_sum id (\<lambda>sr. (1, s\<lparr>router := sr\<rparr>))
            (sr_handlepacket (os env) depth (log_frame (os env) frame (router s)) frame name)
      | Some i \<Rightarrow> if foreign_arp_request i frame then Inr (1, s)
          else map_sum id (\<lambda>sr. (1, s\<lparr>router := sr\<rparr>))
            (sr_handlepacket (os env) depth (log_frame (os env) frame (router s)) frame name))"
| "understood env depth s (Hwinfo ds) =
     (let sr = (router s)\<lparr>if_list := if_list (router s) @ interfaces_of env 0 ds\<rparr> in
      Inr (if sr_verify_routing_table sr = 0 then 1 else - 1, s\<lparr>router := sr\<rparr>))"
| "understood env depth s (Rtable vhost table) =
     Inr (1, s\<lparr>fs := (fs s)(str_bytes ''rtable.'' @ cstr vhost \<mapsto> table)\<rparr>)"
| "understood env depth s (Auth_request salt) =
     (case fs s (str_bytes ''auth_key'') of None \<Rightarrow> Inr (- 1, s) | Some content \<Rightarrow>
        if content = [] then Inr (- 1, s)
        else Inr (1, s\<lparr>router := (router s)\<lparr>sock_out := sock_out (router s) @ [auth_answer env s salt content]\<rparr>\<rparr>))"
| "understood env depth s (Auth_status ok msg) = (if ok = 0 then Inr (- 1, say msg s) else Inr (1, s))"

text \<open>The messages in turn, each after the rounds of the timeout thread made while it was awaited.\<close>

fun conversation ::
    "(nat \<Rightarrow> vns_env) \<Rightarrow> (nat \<Rightarrow> sr_env list) \<Rightarrow> nat \<Rightarrow> nat \<Rightarrow> session \<Rightarrow> server_message list \<Rightarrow> fault + (int \<times> session)" where
  "conversation envs rounds depth i s [] = Inr (1, s)"
| "conversation envs rounds depth i s (m # ms) =
     (case wait_rounds depth (rounds i) s of Inl f \<Rightarrow> Inl f | Inr s1 \<Rightarrow>
       (case understood (envs i) depth s1 m of Inl f \<Rightarrow> Inl f
        | Inr x \<Rightarrow> if fst x = 1 then conversation envs rounds depth (Suc i) (snd x) ms else Inr x))"

text \<open>What the client needs: working services, its arrays, and strings that end.\<close>

definition env_ready :: "vns_env \<Rightarrow> bool" where
  "env_ready env \<longleftrightarrow> services_ok env \<and> length (env_raw_key env) = 65 \<and> length (Message_Block (env_raw_sha env)) = 64"

definition session_ready :: "session \<Rightarrow> bool" where
  "session_ready s \<longleftrightarrow> 0 \<in> set (user (router s)) \<and> list_all (\<lambda>i. 0 \<in> set (if_name i)) (if_list (router s))"

section \<open>One message\<close>

lemma cstr_filled: "0 \<notin> set msg \<Longrightarrow> length msg < n \<Longrightarrow> c_string (strncpy msg n) = Inr msg"
  using cstr_id [of msg] strncpy_nul [of msg n] cstr_strncpy [of msg n] by (simp add: c_string_def)

lemma cstr_terminated: "0 \<notin> set msg \<Longrightarrow> cstr (msg @ [0]) = msg"
  by (induction msg) (simp_all add: cstr_def)

lemma describe_values: "list_all hw_if_wf ds \<Longrightarrow> list_all (\<lambda>e. length (snd e) = 32) (concat (map describe ds))"
  by (induction ds) (auto simp: describe_def hw_if_wf_def list_all_iff)

lemma message_understood:
  assumes "env_ready env" "session_ready s" "message_ok m"
  shows "handle_command env depth s (message_bytes m) 0 = understood env depth s m"
proof -
  have ok: "services_ok env" using assms(1) by (simp add: env_ready_def)
  note cmd = handle_vns_message dispatch_command_def vns_commands
  show ?thesis
  proof (cases m)
    case (Hwinfo ds)
    then have "hw_wf (concat (map describe ds))" using assms(3) describe_values by (simp add: hw_wf_def MAXHWENTRIES_def)
    with Hwinfo assms hwinfo_handled [of ds env s depth] services_okD(1) [OF ok] show ?thesis
      by (simp add: c_hwinfo_def session_ready_def Let_def)
  next
    case (Rtable vhost table)
    then show ?thesis using assms(3) rtable_effect [of vhost table env 0 depth s] services_okD(3) [OF ok] by (simp add: c_rtable_def IDSIZE_def)
  next
    case (Auth_request salt)
    have "auth_ready env (router s)" using assms(1,2) services_okD(1) [OF ok] by (simp add: auth_ready_def env_ready_def session_ready_def)
    note reply = auth_request_effect [OF this, of _ salt 0 depth]
    show ?thesis
    proof (cases "fs s (str_bytes ''auth_key'') \<in> {None, Some []}")
      case True
      then show ?thesis using Auth_request by (auto simp: c_auth_request_def cmd sr_handle_auth_request_def)
    next
      case False
      then show ?thesis using Auth_request reply assms(3) services_okD(2) [OF ok]
        by (auto simp: c_auth_request_def auth_answer_def length_auth_reply)
    qed
  next
    case (Auth_status ok msg)
    then show ?thesis
      using assms(2,3) auth_status_effect [of s ok 0 env depth "msg @ [0]"]
      by (auto simp: c_auth_status_def session_ready_def say_def cmd sr_handle_auth_status_def c_string_def cstr_terminated)
  qed (use assms(3) received_packet in \<open>simp_all add: c_close_def c_banner_def say_def cmd cstr_filled\<close>)
qed

lemma message_framed: "message_ok m \<Longrightarrow> framed (message_bytes m)"
proof (cases m)
  case (Hwinfo ds)
  assume "message_ok m"
  then have "length (hw_body (concat (map describe ds))) \<le> 9992"
    using Hwinfo length_hw_body [OF describe_values, of ds] by (simp add: MAXHWENTRIES_def)
  with Hwinfo framed_vns_message show ?thesis by (simp add: c_hwinfo_def)
qed (auto simp: c_close_def c_banner_def c_rtable_def c_auth_request_def c_auth_status_def packet_message_vns IDSIZE_def
    intro!: framed_vns_message)

interpretation sc: operations same_config
  by unfold_locales (auto intro: same_config_trans dest: sr_send_packet_frame simp: same_config_def)

lemma understood_ready:
  assumes "understood env depth s m = Inr (rc, t)" "session_ready s" "message_ok m"
  shows "session_ready t"
proof (cases m)
  case (Packet name frame)
  have "session_ready (s\<lparr>router := sr\<rparr>)"
    if "sr_handlepacket (os env) depth (log_frame (os env) frame (router s)) frame name = Inr sr" for sr
    using sc.handlers(2) [of "log_frame (os env) frame (router s)" "os env" depth frame name] that assms(2)
    by (simp add: session_ready_def same_config_def)
  then show ?thesis using assms(1,2) Packet by (auto simp: map_sum_def split: option.splits if_splits sum.splits)
next
  case (Hwinfo ds)
  then show ?thesis
    using assms described_nul [OF _ interfaces_described, of ds] by (auto simp: Let_def session_ready_def)
qed (use assms in \<open>auto simp: session_ready_def say_def split: option.splits if_splits\<close>)

section \<open>A conversation\<close>

lemma rounds_config: "timeout_rounds depth sr envs = Inr sr' \<Longrightarrow> same_config sr sr'"
proof (induction envs arbitrary: sr)
  case (Cons env envs)
  then obtain s1 where "sr_arpcache_timeout_round env depth sr = Inr s1" "timeout_rounds depth s1 envs = Inr sr'"
    by (auto split: sum.splits)
  with Cons.IH sc.handlers(3) [of sr env depth] show ?case by (auto intro: same_config_trans)
qed (simp add: same_config_def)

lemma wait_ready: "wait_rounds depth envs s = Inr t \<Longrightarrow> session_ready s \<Longrightarrow> session_ready t"
  using rounds_config [of depth "router s" envs]
  by (cases "timeout_rounds depth (router s) envs") (auto simp: wait_rounds_def session_ready_def same_config_def)

lemma serve_conversation:
  assumes "\<forall>n. env_ready (envs n)"
  shows "list_all message_ok ms \<Longrightarrow> session_ready s \<Longrightarrow>
    serve envs rounds depth i s (map message_bytes ms) = conversation envs rounds depth i s ms"
proof (induction ms arbitrary: i s)
  case (Cons m ms)
  have m: "message_ok m" using Cons.prems(1) by simp
  show ?case
  proof (cases "wait_rounds depth (rounds i) s")
    case (Inr s1)
    then have ready: "session_ready s1" using wait_ready Cons.prems(2) by blast
    have h: "handle_command (envs i) depth s1 (message_bytes m) 0 = understood (envs i) depth s1 m"
      using message_understood [OF _ ready m] assms by blast
    show ?thesis
      using Cons.IH Cons.prems(1) understood_ready [OF _ ready m] by (auto simp: h Inr split: sum.split)
  qed simp
qed simp

text \<open>
  C6.  The main loop refines the protocol: a stream of messages as \<^verbatim>\<open>vnscommand.h\<close> lays them out, cut into
  pieces in any way, has exactly the effect the specification gives for these messages one after the
  other, each after the rounds the timeout thread makes while it is awaited, until one of them ends
  the session or aborts the program; and then the loop returns.
\<close>

theorem session_protocol:
  assumes "clean es" "payload es = concat (map message_bytes ms) @ rest" "list_all message_ok ms"
    and "\<forall>n. env_ready (envs n)" "session_ready s" "ended (conversation envs rounds depth i s ms)"
  shows "\<exists>es'. main_loop envs rounds depth i (at_input s es) =
    Some (map_sum id (apsnd (\<lambda>t. at_input t es')) (conversation envs rounds depth i s ms))"
proof -
  have f: "list_all framed (map message_bytes ms)" using assms(3) message_framed by (simp add: list_all_iff)
  have ok: "\<forall>n. services_ok (envs n)" using assms(4) by (simp add: env_ready_def)
  have e: "serve envs rounds depth i s (map message_bytes ms) = conversation envs rounds depth i s ms"
    by (rule serve_conversation [OF assms(4,3,5)])
  from main_loop_serves [OF assms(1,2) f ok, of rounds depth i s, unfolded e, OF assms(6)] show ?thesis .
qed

theorem session_protocol_witness:
  "\<exists>es' i. main_loop (\<lambda>_. good_vns_env) (\<lambda>_. []) 1 0
      (at_input idle_session [Data (message_bytes (Banner [104, 105]) @ message_bytes (Hwinfo [eth1_description]))]) =
    Some (Inr (- 1, at_input (idle_session\<lparr>shown := [[104, 105]], router := (router idle_session)\<lparr>if_list := [i]\<rparr>\<rparr>) es')) \<and>
    described eth1_description i"
proof -
  let ?ms = "[Banner [104, 105], Hwinfo [eth1_description]]" and ?i = "hd (interfaces_of good_vns_env 0 [eth1_description])"
  have ok: "list_all message_ok ?ms"
    by (simp add: hw_if_wf_def eth1_description_def HWINTERFACE_def HWETHER_def HWETHIP_def describe_def MAXHWENTRIES_def)
      (simp add: str_bytes_def cstr_def)
  have env: "\<forall>n :: nat. env_ready good_vns_env"
    by (simp add: env_ready_def good_services) (simp add: good_vns_env_def blank_context_def)
  have s: "session_ready idle_session"
    by (simp add: session_ready_def idle_session_def empty_instance_def) (simp add: strncpy_nul str_bytes_def cstr_def)
  have c: "conversation (\<lambda>_. good_vns_env) (\<lambda>_. []) 1 0 idle_session ?ms =
      Inr (- 1, idle_session\<lparr>shown := [[104, 105]], router := (router idle_session)\<lparr>if_list := [?i]\<rparr>\<rparr>)"
    by (simp add: say_def Let_def verify_zero_iff) (simp add: idle_session_def empty_instance_def)
  have "described eth1_description ?i" using interfaces_described [of "[eth1_description]" good_vns_env 0] by simp
  moreover have e: "ended (conversation (\<lambda>_. good_vns_env) (\<lambda>_. []) 1 0 idle_session ?ms)" unfolding c by (simp add: ended_def)
  have "\<exists>es'. main_loop (\<lambda>_. good_vns_env) (\<lambda>_. []) 1 0 (at_input idle_session [Data (concat (map message_bytes ?ms))]) =
      Some (map_sum id (apsnd (\<lambda>t. at_input t es')) (conversation (\<lambda>_. good_vns_env) (\<lambda>_. []) 1 0 idle_session ?ms))"
    by (rule session_protocol [OF _ _ ok env s e, where rest = "[]"]) simp_all
  ultimately show ?thesis unfolding c by (auto simp del: interfaces_of.simps)
qed

end
