(* ===== verification/SR_Log.thy ===== *)
theory SR_Log
  imports SR_Main SR_Contract "HOL-Library.Sublist"
begin

text \<open>
  The packet log, read back: a reader of the pcap format, and that the log of a session in which records
  are written one after the other is a file it can read, in which every frame the router has handed
  to the server appears in order, cut to 1024 bytes.  Nothing in the code makes the two threads write their
  records one after the other: two records written at the same time can leave a log that says something
  else.
\<close>

section \<open>A reader of pcap files\<close>

type_synonym log_entry = "(u32 \<times> u32) \<times> bytes"

definition read_record :: "bytes \<Rightarrow> (log_entry \<times> bytes) option" where
  "read_record bs =
     (if length bs < 16 then None
      else let n = unat (ld32 bs 8) in
        if length bs < 16 + n then None
        else Some (((ld32 bs 0, ld32 bs 4), take n (drop 16 bs)), drop (16 + n) bs))"

function read_records :: "bytes \<Rightarrow> log_entry list option" where
  "read_records bs =
     (if bs = [] then Some []
      else case read_record bs of None \<Rightarrow> None | Some (r, rest) \<Rightarrow> map_option ((#) r) (read_records rest))"
  by pat_completeness auto
termination
  by (relation "measure length") (auto simp: read_record_def Let_def split: if_splits)

declare read_records.simps [simp del]

definition read_pcap :: "bytes \<Rightarrow> (u32 \<times> u32 \<times> log_entry list) option" where
  "read_pcap file =
     (if length file < 24 \<or> ld32 file 0 \<noteq> 0xa1b2c3d4 \<or> ld16 file 4 \<noteq> 2 \<or> ld16 file 6 \<noteq> 4 then None
      else map_option (\<lambda>rs. (ld32 file 16, ld32 file 20, rs)) (read_records (drop 24 file)))"

definition entry_bytes :: "log_entry \<Rightarrow> bytes" where
  "entry_bytes e = (let n = word_of_nat (length (snd e)) in
     sf_pkthdr_bytes \<lparr>ts_sec = fst (fst e), ts_usec = snd (fst e), sf_caplen = n, sf_len = n\<rparr> @ snd e)"

abbreviation entry_ok :: "log_entry \<Rightarrow> bool" where
  "entry_ok e \<equiv> length (snd e) < 2 ^ 32"

lemma read_record_entry:
  assumes "entry_ok e"
  shows "read_record (entry_bytes e @ rest) = Some (e, rest)"
proof -
  have n: "unat (word_of_nat (length (snd e)) :: u32) = length (snd e)"
    using assms by (simp add: unsigned_of_nat take_bit_eq_mod)
  have "ld32 (entry_bytes e @ rest) 0 = fst (fst e)" "ld32 (entry_bytes e @ rest) 4 = snd (fst e)"
    "ld32 (entry_bytes e @ rest) 8 = word_of_nat (length (snd e))" "length (entry_bytes e) = 16 + length (snd e)"
    "drop 16 (entry_bytes e @ rest) = snd e @ rest"
    by (simp_all add: entry_bytes_def sf_pkthdr_bytes_def Let_def ld32_def le32_def)
  moreover from this(5) have "drop (16 + length (snd e)) (entry_bytes e @ rest) = rest"
    by (metis add.commute append_eq_conv_conj drop_drop)
  ultimately show ?thesis using n by (cases e) (auto simp: read_record_def Let_def)
qed

lemma read_entries: "list_all entry_ok es \<Longrightarrow> read_records (concat (map entry_bytes es)) = Some es"
proof (induction es)
  case Nil
  show ?case by (simp add: read_records.simps)
next
  case (Cons e es)
  have "entry_bytes e \<noteq> []" by (simp add: entry_bytes_def sf_pkthdr_bytes_def Let_def le32_def)
  with Cons read_record_entry [of e] show ?case by (subst read_records.simps) simp
qed

lemma read_log:
  assumes "list_all entry_ok es"
  shows "read_pcap (sf_write_header linktype zone snaplen @ concat (map entry_bytes es)) = Some (snaplen, linktype, es)"
proof -
  let ?file = "sf_write_header linktype zone snaplen @ concat (map entry_bytes es)"
  have "ld32 ?file 0 = TCPDUMP_MAGIC" "ld16 ?file 4 = PCAP_VERSION_MAJOR" "ld16 ?file 6 = PCAP_VERSION_MINOR"
    "ld32 ?file 16 = snaplen" "ld32 ?file 20 = linktype" "drop 24 ?file = concat (map entry_bytes es)" "\<not> length ?file < 24"
    by (simp_all add: sf_write_header_def ld32_def ld16_def le32_def le16_def)
  then show ?thesis
    by (simp add: read_pcap_def read_entries [OF assms] TCPDUMP_MAGIC_def PCAP_VERSION_MAJOR_def PCAP_VERSION_MINOR_def)
qed

section \<open>What is logged\<close>

text \<open>The frames of the \<^verbatim>\<open>VNSPACKET\<close> messages in the output.\<close>

definition sent_frames :: "bytes list \<Rightarrow> bytes list" where
  "sent_frames out = map (drop 24) (filter (\<lambda>m. ld32 m 4 = htonl VNSPACKET) out)"

definition logged :: "sr_instance \<Rightarrow> sr_instance \<Rightarrow> bool" where
  "logged s t \<longleftrightarrow> (\<exists>es frames. list_all entry_ok es \<and>
     logfile t = map_option (\<lambda>fp. fp @ concat (map entry_bytes es)) (logfile s) \<and>
     sent_frames (sock_out t) = sent_frames (sock_out s) @ frames \<and> subseq (map (take 1024) frames) (map snd es))"

lemma sent_frames_append: "sent_frames (xs @ ys) = sent_frames xs @ sent_frames ys"
  by (simp add: sent_frames_def)

lemma sent_frames_packet: "sent_frames [packet_message f name] = [f]"
  by (simp add: sent_frames_def packet_message_def) (simp add: ld32_def le32_def)

lemma loggedI:
  "list_all entry_ok es \<Longrightarrow> logfile t = map_option (\<lambda>fp. fp @ concat (map entry_bytes es)) (logfile s) \<Longrightarrow>
   sent_frames (sock_out t) = sent_frames (sock_out s) @ frames \<Longrightarrow> subseq (map (take 1024) frames) (map snd es) \<Longrightarrow> logged s t"
  by (auto simp: logged_def)

lemma logged_same: "logfile t = logfile s \<Longrightarrow> sock_out t = sock_out s \<Longrightarrow> logged s t"
  by (rule loggedI [of "[]"]) (auto simp: option.map_ident)

lemma logged_trans:
  assumes "logged s t" "logged t u"
  shows "logged s u"
proof -
  obtain es fs es' fs' where "list_all entry_ok es" "logfile t = map_option (\<lambda>fp. fp @ concat (map entry_bytes es)) (logfile s)"
    "sent_frames (sock_out t) = sent_frames (sock_out s) @ fs" "subseq (map (take 1024) fs) (map snd es)"
    "list_all entry_ok es'" "logfile u = map_option (\<lambda>fp. fp @ concat (map entry_bytes es')) (logfile t)"
    "sent_frames (sock_out u) = sent_frames (sock_out t) @ fs'" "subseq (map (take 1024) fs') (map snd es')"
    using assms unfolding logged_def by blast
  then show ?thesis
    by (intro loggedI [of "es @ es'" _ _ "fs @ fs'"]) (auto simp: option.map_comp comp_def intro: list_emb_append_mono)
qed

lemma log_record_entry: "log_record env buf = entry_bytes (env_tod env, take 1024 buf)"
  by (simp add: log_record_def entry_bytes_def sf_pkthdr_bytes_def Let_def min_def)

lemma send_logged:
  assumes "sr_send_packet env s buf iface = Inr (rc, t)"
  shows "logged s t"
proof (cases "sizeof_eth \<le> length buf \<and> env_malloc env (length buf + 24)")
  case True
  let ?e = "(env_tod env, take 1024 buf)"
  have "logfile t = map_option (\<lambda>fp. fp @ entry_bytes ?e) (logfile s)"
    and "sock_out t = sock_out s \<or> sock_out t = sock_out s @ [packet_message buf iface]"
    using assms True by (auto simp: sr_send_packet_eq log_frame_def log_record_entry split: option.splits if_splits)
  then show ?thesis
    by (auto intro!: loggedI [of "[?e]"] simp: sent_frames_append sent_frames_packet)
next
  case False
  with assms show ?thesis by (auto simp: sr_send_packet_def Let_def layout split: if_splits intro: logged_same)
qed

interpretation lg: operations logged
  by unfold_locales (auto intro: logged_same logged_trans send_logged)

lemma log_packet_logged:
  assumes "sr_log_packet env s buf len = Inr t"
  shows "logged s t"
proof (cases "logfile s")
  case None
  then show ?thesis using assms by (auto simp: sr_log_packet_def intro: logged_same)
next
  case (Some fp)
  let ?n = "word_of_int (min PACKET_DUMP_SIZE len) :: u32"
  let ?e = "(env_tod env, take (unat ?n) buf)"
  have n: "unat ?n \<le> length buf" using assms Some by (auto simp: sr_log_packet_def log_header_def Let_def sr_dump_def dump_writes_def rd_bytes_def split: if_splits sum.splits)
  have m: "(if min PACKET_DUMP_SIZE len < PACKET_DUMP_SIZE then min PACKET_DUMP_SIZE len else PACKET_DUMP_SIZE) = min PACKET_DUMP_SIZE len"
    by simp
  have "length (take (unat ?n) buf) < 2 ^ 32" using n unsigned_less [of ?n, where 'a = nat] by (simp add: min_def)
  moreover have "word_of_nat (min (length buf) (unat ?n)) = ?n" using n by (simp add: min_absorb2)
  then have "t = s\<lparr>logfile := Some (fp @ entry_bytes ?e)\<rparr>"
    using assms Some n by (auto simp: sr_log_packet_def log_header_def Let_def sr_dump_def dump_writes_def rd_bytes_def entry_bytes_def m split: if_splits sum.splits)
  ultimately show ?thesis using Some by (intro loggedI [of "[?e]" _ _ "[]"]) auto
qed

section \<open>The log of a session\<close>

lemma vns_packet_logged:
  assumes "vns_packet env depth sr buf = Inr sr'"
  shows "logged sr sr'"
proof -
  have "sr' = sr \<or> (\<exists>packet n name sr1. sr_log_packet (os env) sr packet n = Inr sr1 \<and>
      sr_handlepacket (os env) depth sr1 packet name = Inr sr')"
    using assms by (auto simp: vns_packet_def Let_def split: sum.splits bool.splits)
  then show ?thesis
  proof
    assume "\<exists>packet n name sr1. sr_log_packet (os env) sr packet n = Inr sr1 \<and> sr_handlepacket (os env) depth sr1 packet name = Inr sr'"
    then obtain packet n name sr1 where 1: "sr_log_packet (os env) sr packet n = Inr sr1" "sr_handlepacket (os env) depth sr1 packet name = Inr sr'"
      by blast
    have "logged sr1 sr'" using lg.handlers(2) [of sr1 "os env" depth packet name] 1(2) by simp
    then show ?thesis using logged_trans log_packet_logged [OF 1(1)] by blast
  qed (simp add: logged_same)
qed

lemma hw_entry_logged: "hw_entry env buf i sr = Inr sr' \<Longrightarrow> logfile sr' = logfile sr \<and> sock_out sr' = sock_out sr"
  by (auto simp: hw_entry_def Let_def sr_add_interface_def sr_set_ether_ip_def sr_set_ether_addr_def
      split: sum.splits if_splits)

lemma hwinfo_loop_logged: "hwinfo_loop env buf is sr = Inr sr' \<Longrightarrow> logfile sr' = logfile sr \<and> sock_out sr' = sock_out sr"
proof (induction "is" arbitrary: sr)
  case (Cons i "is")
  then show ?case using hw_entry_logged [of env buf i sr] by (auto split: sum.splits)
qed simp

lemma sent_frames_reply: "sent_frames [c_auth_reply name digest] = []"
proof -
  have "ld32 (c_auth_reply name digest) 4 = htonl VNS_AUTH_REPLY" by (simp add: c_auth_reply_def ld32_def le32_def)
  moreover have "htonl VNS_AUTH_REPLY \<noteq> htonl VNSPACKET" by (simp add: htonl_inject) (simp add: vns_commands)
  ultimately show ?thesis by (simp add: sent_frames_def)
qed

lemma auth_request_logged:
  assumes "sr_handle_auth_request env files sr buf = Inr (rc, sr')"
  shows "logged sr sr'"
proof -
  have "sr' = sr \<or> (\<exists>name digest. sr' = sr\<lparr>sock_out := sock_out sr @ [c_auth_reply name digest]\<rparr>)"
    using assms by (simp add: sr_handle_auth_request_def Let_def split: option.splits if_splits sum.splits prod.splits) blast+
  then show ?thesis
    by (auto intro!: loggedI [of "[]"] simp: sent_frames_append sent_frames_reply option.map_ident)
qed

lemma handle_command_logged:
  assumes "handle_command env depth s buf expected = Inr (rc, t)"
  shows "logged (router s) (router t)"
proof -
  have "logged (router s) sr" if "sr_handle_hwinfo env (router s) b = Inr (n, sr)" for b n sr
    using that hwinfo_loop_logged by (auto simp: sr_handle_hwinfo_def Let_def intro: logged_same split: sum.splits)
  moreover have "logged (router s) (router s)" by (simp add: logged_same)
  ultimately have "dispatch_command env depth s b c = Inr (rc, t) \<Longrightarrow> logged (router s) (router t)" for b c
    using vns_packet_logged auth_request_logged unfolding dispatch_command_def by (fastforce split: if_splits sum.splits)
  then show ?thesis using assms by (auto simp: handle_command_def Let_def intro: logged_same split: sum.splits if_splits)
qed

text \<open>A message of the server writes no file but those for routing tables.\<close>

definition table_file :: "bytes \<Rightarrow> bool" where
  "table_file name \<longleftrightarrow> take 7 name = str_bytes ''rtable.''"

lemma table_file_rtable: "table_file (str_bytes ''rtable.'' @ h)"
  by (simp add: table_file_def str_bytes_def)

lemma handle_command_files:
  assumes "handle_command env depth s buf expected = Inr (rc, t)" "\<not> table_file name"
  shows "fs t name = fs s name"
proof -
  have "files name = fs s name" if "sr_handle_rtable env (fs s) b = Inr (n, files)" for b n files
    using that assms(2) table_file_rtable by (auto simp: sr_handle_rtable_def Let_def split: sum.splits if_splits)
  then have "dispatch_command env depth s b c = Inr (rc, t) \<Longrightarrow> fs t name = fs s name" for b c
    unfolding dispatch_command_def by (fastforce split: if_splits sum.splits)
  then show ?thesis using assms(1) by (auto simp: handle_command_def Let_def split: sum.splits if_splits)
qed

lemma expect_served:
  assumes "sr_read_from_server_expect env depth s expected = Some (Inr (rc, t))"
  shows "logged (router s) (router t)" "\<not> table_file name \<Longrightarrow> fs t name = fs s name"
  using assms by (cases rule: read_router_cases; metis handle_command_logged handle_command_files logged_same)+

lemma session_logged:
  "session_reachable start s \<Longrightarrow> logged (router start) (router s)"
proof (induction rule: session_reachable.induct)
  case start
  show ?case by (simp add: sr_init_def logged_same)
next
  case (receive s env depth rc t)
  then show ?case using expect_served(1) [of env depth s 0 rc t] logged_trans by (simp add: sr_read_from_server_def)
next
  case (tick s env depth sr)
  then show ?case using lg.handlers(3) [of "router s" env depth] logged_trans by simp
qed simp

text \<open>
  C18.  The packet log is a readable record of the session as long as the two threads do not write to it at
  the same time: after any messages of the server and any rounds of the timeout thread between them, the log is a
  complete pcap file with the Ethernet link type, and every frame the router has handed to the
  server since the start is one of its records, in the order of sending, cut to 1024 bytes.
\<close>

theorem packet_log_readable:
  assumes "session_reachable start s" "logfile (router start) = Some (sf_write_header LINKTYPE_ETHERNET 0 1024)"
  shows "\<exists>fp records frames. logfile (router s) = Some fp \<and> read_pcap fp = Some (1024, LINKTYPE_ETHERNET, records) \<and>
    sent_frames (sock_out (router s)) = sent_frames (sock_out (router start)) @ frames \<and>
    subseq (map (take 1024) frames) (map snd records)"
  using session_logged [OF assms(1)] assms(2) read_log by (auto simp: logged_def)

definition log_session :: session where
  "log_session = idle_session\<lparr>router := (example_router [])\<lparr>logfile := Some (sf_write_header LINKTYPE_ETHERNET 0 1024)\<rparr>\<rparr>"

definition asked :: bytes where
  "asked = sample_arp 1 [1, 2, 3, 4, 5, 6] client eth3_ip"

lemma log_session_reply:
  "\<exists>s. session_reachable log_session s \<and>
     sock_out (router s) = [packet_message (arp_answer (frame_arp asked) eth3) (if_name eth3)]"
proof -
  let ?s = "log_session\<lparr>router := sr_init (router log_session)\<rparr>" and ?m = "packet_message asked (if_named ''eth3'')"
  let ?r = "log_frame (good_env 0) asked (router ?s)"
  have init: "router ?s = (example_router [])\<lparr>logfile := Some (sf_write_header LINKTYPE_ETHERNET 0 1024)\<rparr>"
    by (simp add: log_session_def sr_init_def sr_arpcache_init_def example_router_def SR_ARPCACHE_SZ_def)
  have len: "length asked = 42" by (simp add: asked_def sample_arp_def eth_hdr_bytes_def arp_hdr_bytes_def)
  have arp: "arp_for_ip asked" "ntohs (ar_op (frame_arp asked)) = 1" "ar_tip (frame_arp asked) = if_ip eth3"
    by (simp_all add: asked_def sample_arp_facts eth3_def)
  have ifs: "sr_get_interface (router ?s) (if_named ''eth3'') = Some eth3" "sr_get_interface ?r (if_named ''eth3'') = Some eth3"
    using sr_get_interface_cong [of "router ?s" "example_router []"] sr_get_interface_cong [of ?r "example_router []"] init by simp_all
  have wf: "sr_wf 34 ?r" using example_router_34(1) init by (simp add: sr_wf_def)
  obtain sr where sr: "sr_handlepacket (good_env 0) 1 ?r asked (if_named ''eth3'') = Inr sr"
    "sock_out sr = [packet_message (arp_answer (frame_arp asked) eth3) (if_name eth3)]"
    using arp_request_effect [OF mem_ok_good_env wf arp(1) ifs(2) arp(2), of 0 1] arp(3) init by auto
  have "\<not> foreign_arp_request eth3 asked" using arp(3) by (simp add: foreign_arp_request_def)
  then have h: "handle_command good_vns_env 1 ?s ?m 0 = Inr (1, ?s\<lparr>router := sr\<rparr>)"
    using received_packet [of asked "if_named ''eth3''" good_vns_env 1 ?s] ifs(1) sr(1)
    by (simp add: len cstr_if_named str_bytes_def)
  let ?in = "?s\<lparr>inbox := inbox ?s @ [Data ?m]\<rparr>"
  have r: "session_reachable log_session ?in" by (intro session_reachable.arrive session_reachable.start)
  have i: "?in = at_input ?s [Data ?m]" by (simp add: at_input_def log_session_def idle_session_def)
  have fr: "framed ?m" using framed_vns_message by (simp add: packet_message_vns len)
  obtain es where "sr_read_from_server_expect good_vns_env 1 (at_input ?s [Data ?m]) 0 = Some (Inr (1, at_input (?s\<lparr>router := sr\<rparr>) es))"
    using read_framed [OF fr, of "[Data ?m]" "[]" good_vns_env 1 ?s "[]" 0] h by (auto simp: handle_command_at_input)
  then have "session_reachable log_session (at_input (?s\<lparr>router := sr\<rparr>) es)"
    using session_reachable.receive [OF r, of good_vns_env 1 1] unfolding i
    by (simp add: sr_read_from_server_def vns_env_wf_def good_vns_env_def)
  then show ?thesis using sr(2) by (intro exI [of _ "at_input (?s\<lparr>router := sr\<rparr>) es"]) simp
qed

theorem packet_log_readable_witness:
  "\<exists>s fp records. session_reachable log_session s \<and> logfile (router s) = Some fp \<and>
     read_pcap fp = Some (1024, LINKTYPE_ETHERNET, records) \<and> arp_answer (frame_arp asked) eth3 \<in> snd ` set records"
proof -
  obtain s where s: "session_reachable log_session s"
    "sock_out (router s) = [packet_message (arp_answer (frame_arp asked) eth3) (if_name eth3)]"
    using log_session_reply by blast
  have start: "logfile (router log_session) = Some (sf_write_header LINKTYPE_ETHERNET 0 1024)" "sock_out (router log_session) = []"
    by (simp_all add: log_session_def)
  obtain fp records frames where f: "logfile (router s) = Some fp" "read_pcap fp = Some (1024, LINKTYPE_ETHERNET, records)"
    "sent_frames (sock_out (router s)) = sent_frames (sock_out (router log_session)) @ frames"
    "subseq (map (take 1024) frames) (map snd records)"
    using packet_log_readable [OF s(1) start(1)] by blast
  have "frames = [arp_answer (frame_arp asked) eth3]" using f(3) s(2) start(2) by (simp add: sent_frames_packet) (simp add: sent_frames_def)
  moreover have "length (arp_answer (frame_arp asked) eth3) = 42"
    by (simp add: asked_def sample_arp_facts arp_answer_def eth_hdr_bytes_def arp_hdr_bytes_def eth3_def)
  ultimately have "arp_answer (frame_arp asked) eth3 \<in> set (map snd records)"
    using f(4) by (simp add: subseq_singleton_left)
  with s(1) f(1,2) show ?thesis by auto
qed

section \<open>Records written at the same time\<close>

text \<open>
  The main thread logs what it receives and what it sends without the lock of the cache, and the timeout thread
  logs what it sends; the calls of \<^verbatim>\<open>fwrite\<close> of two records can come in any order that keeps that
  of each record, an element of \<open>shuffles\<close>.
\<close>

lemma dump_writes_frame:
  "dump_writes (log_header env (int (length f))) f = Inr [sf_pkthdr_bytes (log_header env (int (length f))), take 1024 f]"
  "sf_pkthdr_bytes (log_header env (int (length f))) @ take 1024 f = entry_bytes (env_tod env, take 1024 f)"
proof -
  define n where "n = min 1024 (length f)"
  have n: "min PACKET_DUMP_SIZE (int (length f)) = int n" "(if int n < PACKET_DUMP_SIZE then int n else PACKET_DUMP_SIZE) = int n"
    "unat (word_of_int (int n) :: u32) = n" "n \<le> length f" "take n f = take 1024 f" "length (take 1024 f) = n"
    by (auto simp: n_def PACKET_DUMP_SIZE_def unsigned_of_nat take_bit_eq_mod min_def)
  then show "dump_writes (log_header env (int (length f))) f = Inr [sf_pkthdr_bytes (log_header env (int (length f))), take 1024 f]"
    by (simp add: dump_writes_def log_header_def Let_def rd_bytes_def)
  show "sf_pkthdr_bytes (log_header env (int (length f))) @ take 1024 f = entry_bytes (env_tod env, take 1024 f)"
    using n by (simp add: log_header_def entry_bytes_def Let_def del: length_take)
qed

lemma read_two_entries: "entry_ok d \<Longrightarrow> entry_ok e \<Longrightarrow> read_records (entry_bytes d @ entry_bytes e) = Some [d, e]"
  using read_entries [of "[d, e]"] by simp

lemma read_record_header:
  assumes "entry_ok e" "length (snd e) \<le> length body"
  shows "read_record (take 16 (entry_bytes e) @ body) = Some ((fst e, take (length (snd e)) body), drop (length (snd e)) body)"
proof -
  let ?e = "(fst e, take (length (snd e)) body)"
  have l: "length (snd ?e) = length (snd e)" using assms(2) by simp
  have "take 16 (entry_bytes e) @ body = entry_bytes ?e @ drop (length (snd e)) body"
    using l by (simp add: entry_bytes_def Let_def sf_pkthdr_bytes_def le32_def del: length_take)
  then show ?thesis using read_record_entry [of ?e "drop (length (snd e)) body"] assms(1) l by simp
qed



section \<open>The log of a whole run\<close>

lemma load_line_frame:
  "load_line env sr cleared bufs line = Inr (Some (sr', bufs')) \<Longrightarrow> logfile sr' = logfile sr \<and> sock_out sr' = sock_out sr"
  by (auto simp: load_line_def sr_add_rt_entry_def Let_def split: sum.splits option.splits if_splits)

lemma load_loop_frame:
  "load_loop env sr cleared bufs fp = Inr (rc, sr') \<Longrightarrow> logfile sr' = logfile sr \<and> sock_out sr' = sock_out sr"
proof (induction env sr cleared bufs fp rule: load_loop.induct)
  case (1 env sr cleared bufs fp)
  then show ?case
    using load_line_frame [of env sr cleared bufs "fst (fgets (BUFSIZ - 1) fp)"]
    by (subst (asm) load_loop.simps) (fastforce split: if_splits prod.splits sum.splits option.splits)
qed

lemma load_rt_wrap_frame:
  "sr_load_rt_wrap env fopen_ok raw files sr rtable = Inr (Some sr') \<Longrightarrow> logfile sr' = logfile sr \<and> sock_out sr' = sock_out sr"
  using load_loop_frame by (auto simp: sr_load_rt_wrap_def sr_load_rt_def split: sum.splits option.splits if_splits)

lemma set_up_log:
  assumes "set_up w opts files = Inr (Some sr)" "log_path opts = Some l"
  shows "logfile sr = Some (sf_write_header LINKTYPE_ETHERNET 0 1024) \<and> sock_out sr = sock_out (w_raw w)"
proof -
  obtain p where p: "opt_logfile opts = Some p" using assms(2) by (auto simp: log_path_def split: option.splits)
  let ?load = "case opt_template opts of
      None \<Rightarrow> (let sr = sr_init_instance (w_raw w) in
        sr_load_rt_wrap (w_env w) (w_fopen_ok w) (w_bufs w 0) files (sr\<lparr>template := (template sr)[0 := 0]\<rparr>) (opt_rtable opts))
    | Some tmpl \<Rightarrow> Inr (Some ((sr_init_instance (w_raw w))\<lparr>template := strncpy tmpl 30\<rparr>))"
  obtain sr1 where sr1: "?load = Inr (Some sr1)" using assms(1) by (auto simp: set_up_def split: sum.splits option.splits)
  have "sock_out sr1 = sock_out (w_raw w)"
    using sr1 load_rt_wrap_frame by (auto simp: Let_def sr_init_instance_def split: option.splits)
  moreover have "sock_out sr = sock_out sr1 \<and> logfile sr = Some (sf_write_header LINKTYPE_ETHERNET 0 1024)"
    using assms(1) p unfolding set_up_def sr1
    by (auto simp: Let_def sr_dump_open_def sr_set_user_def PACKET_DUMP_SIZE_def split: option.splits sum.splits if_splits)
  ultimately show ?thesis by simp
qed

text \<open>What the parts of the program after the set-up do to the router and to the log file.\<close>

definition served :: "bytes \<Rightarrow> session \<Rightarrow> session \<Rightarrow> bool" where
  "served l s t \<longleftrightarrow> logged (router s) (router t) \<and> fs t l = fs s l"

lemma served_trans: "served l s t \<Longrightarrow> served l t u \<Longrightarrow> served l s u"
  by (auto simp: served_def intro: logged_trans)

lemma read_served:
  "\<not> table_file l \<Longrightarrow> sr_read_from_server_expect env depth s expected = Some (Inr (rc, t)) \<Longrightarrow> served l s t"
  using expect_served by (simp add: served_def)

lemma sent_frames_open: "sent_frames [c_open sr] = []" "sent_frames [c_open_template sr] = []"
proof -
  have "ld32 (c_open sr) 4 = htonl VNSOPEN" "ld32 (c_open_template sr) 4 = htonl VNS_OPEN_TEMPLATE"
    by (simp_all add: c_open_def c_open_template_def ld32_def le32_def)
  moreover have "htonl VNSOPEN \<noteq> htonl VNSPACKET" "htonl VNS_OPEN_TEMPLATE \<noteq> htonl VNSPACKET"
    by (simp_all add: htonl_inject) (simp_all add: vns_commands)
  ultimately show "sent_frames [c_open sr] = []" "sent_frames [c_open_template sr] = []" by (simp_all add: sent_frames_def)
qed

lemma open_served:
  "served l s (s\<lparr>router := (router s)\<lparr>sock_out := sock_out (router s) @ [if b then c_open_template sr else c_open sr]\<rparr>\<rparr>)"
  by (auto simp: served_def sent_frames_append sent_frames_open option.map_ident intro!: loggedI [of "[]"])

lemma connect_served:
  assumes l: "\<not> table_file l" and c: "sr_connect_to_server envs depth con s = Some (Inr (rc, t))" "rc \<noteq> - 1"
  shows "served l s t"
proof -
  have con: "host_known con" "socket_ok con" "connect_ok con"
    using c by (auto simp: sr_connect_to_server_def split: if_splits)
  obtain s1 where s1: "sr_read_from_server_expect (envs 0) depth s VNS_AUTH_REQUEST = Some (Inr (1, s1))"
    using c con by (auto simp: sr_connect_to_server_def bind_Inr_iff split: if_splits)
  obtain s2 where s2: "sr_read_from_server_expect (envs 1) depth s1 VNS_AUTH_STATUS = Some (Inr (1, s2))"
    using c con s1 by (auto simp: sr_connect_to_server_def bind_Inr_iff split: if_splits)
  obtain tmpl where tmpl: "c_string (template (router s2)) = Inr tmpl"
    using c con s1 s2 by (auto simp: sr_connect_to_server_def split: sum.splits)
  let ?buf = "if tmpl \<noteq> [] then c_open_template (router s2) else c_open (router s2)"
  let ?s3 = "s2\<lparr>router := (router s2)\<lparr>sock_out := sock_out (router s2) @ [?buf]\<rparr>\<rparr>"
  have "t = ?s3 \<or> (\<exists>rc. sr_read_from_server_expect (envs 2) depth ?s3 VNS_RTABLE = Some (Inr (rc, t)))"
    using c con s1 s2 tmpl by (auto simp: sr_connect_to_server_def bind_Inr_iff Let_def split: if_splits)
  moreover have "served l s ?s3" using read_served [OF l s1] read_served [OF l s2] open_served served_trans by meson
  moreover have "served l s t" if "sr_read_from_server_expect (envs 2) depth ?s3 VNS_RTABLE = Some (Inr (rc', t))" for rc'
    using served_trans [OF calculation(2) read_served [OF l that]] .
  ultimately show ?thesis by blast
qed

lemma wait_served: "wait_rounds depth envs s = Inr t \<Longrightarrow> served l s t"
proof -
  have rounds: "timeout_rounds depth sr envs = Inr sr' \<Longrightarrow> logged sr sr'" for sr sr'
  proof (induction envs arbitrary: sr)
    case (Cons env envs)
    then obtain s1 where "sr_arpcache_timeout_round env depth sr = Inr s1" "timeout_rounds depth s1 envs = Inr sr'"
      by (auto split: sum.splits)
    with Cons.IH lg.handlers(3) [of sr env depth] show ?case by (auto intro: logged_trans)
  qed (simp add: logged_same)
  then show "wait_rounds depth envs s = Inr t \<Longrightarrow> served l s t"
    by (cases "timeout_rounds depth (router s) envs") (auto simp: wait_rounds_def served_def)
qed

lemma main_loop_served:
  assumes "main_loop envs rounds depth i s = Some r" "\<not> table_file l"
  shows "r = Inr (rc, t) \<Longrightarrow> served l s t"
proof (induction arbitrary: rc t rule: main_loop.raw_induct [OF _ assms(1)])
  case (1 loop envs rounds depth i s r)
  note IH = 1(1) and body = 1(2) and r = 1(3)
  obtain s1 where s1: "wait_rounds depth (rounds i) s = Inr s1" using body r by (auto split: sum.splits)
  obtain x where x: "sr_read_from_server (envs i) depth s1 = Some (Inr x)"
    "if fst x = 1 then loop envs rounds depth (Suc i) (snd x) = Some r else r = Inr x"
    using body r s1 by (auto simp: bind_Inr_iff split: if_splits)
  have "served l s1 (snd x)" using read_served [OF assms(2), of "envs i" depth s1 0 "fst x" "snd x"] x(1) by (simp add: sr_read_from_server_def)
  then have "served l s (snd x)" using wait_served [OF s1] served_trans by blast
  with x(2) r IH [of envs rounds depth "Suc i" "snd x" r rc t] show ?case by (auto split: if_splits intro: served_trans)
qed

lemma main_ends:
  assumes "main w depth argv s = Some (Inr (0, t))" "option_loop default_options (getopt_loop [] (tl argv)) = Some opts"
  obtains sr rc s1 where "set_up w opts (fs s) = Inr (Some sr)"
    "sr_connect_to_server (w_con_envs w) depth (w_con w) (s\<lparr>fs := open_log opts (fs s), router := sr\<rparr>) = Some (Inr (rc, s1))" "rc \<noteq> - 1"
    "run_session w depth opts s1 = Some (Inr (0, t))"
  using assms by (auto simp: main_def bind_Inr_iff split: sum.splits option.splits if_splits)

lemma run_session_ends:
  assumes "run_session w depth opts s = Some (Inr (0, t))"
  obtains sr rc u where "sr_load_rt_wrap (w_env w) (w_fopen_ok w) (w_bufs w 1) (fs s) (router s) (opt_rtable opts) = Inr (Some sr)"
    "main_loop (w_envs w) (w_rounds w) depth 0 (s\<lparr>router := sr_init sr\<rparr>) = Some (Inr (rc, u))" "t = sr_destroy_instance opts u"
  using assms by (auto simp: run_session_def bind_Inr_iff split: sum.splits option.splits if_splits)

lemma destroy_log:
  assumes "logfile (router s) = Some fp" "log_path opts = Some l" "fs s l = Some []"
  shows "fs (sr_destroy_instance opts s) l = Some fp"
  using assms by (simp add: sr_destroy_instance_def sr_dump_close_def)

text \<open>
  A run of the program that ends normally leaves a readable log, if the rounds of the timeout thread are those
  of \<open>w_rounds\<close>, made while the main thread waits: with the option for a log file, whatever
  the server sent, the file is a complete pcap file with the Ethernet link type, and the frames the
  router has handed to the server, cut to 1024 bytes, are among its records, in the order of sending.
\<close>

lemma run_leaves_readable_log:
  assumes "main w depth argv s = Some (Inr (0, t))" "option_loop default_options (getopt_loop [] (tl argv)) = Some opts"
    and "log_path opts = Some l" "\<not> table_file l" "sock_out (w_raw w) = []"
  shows "\<exists>fp records. fs t l = Some fp \<and> read_pcap fp = Some (1024, LINKTYPE_ETHERNET, records) \<and>
    subseq (map (take 1024) (sent_frames (sock_out (router t)))) (map snd records)"
proof -
  obtain sr rc0 s1 where su: "set_up w opts (fs s) = Inr (Some sr)"
    and co: "sr_connect_to_server (w_con_envs w) depth (w_con w) (s\<lparr>fs := open_log opts (fs s), router := sr\<rparr>) = Some (Inr (rc0, s1))" "rc0 \<noteq> - 1"
    and run: "run_session w depth opts s1 = Some (Inr (0, t))"
    by (rule main_ends [OF assms(1,2)])
  obtain sr2 rc u where ld: "sr_load_rt_wrap (w_env w) (w_fopen_ok w) (w_bufs w 1) (fs s1) (router s1) (opt_rtable opts) = Inr (Some sr2)"
    and ml: "main_loop (w_envs w) (w_rounds w) depth 0 (s1\<lparr>router := sr_init sr2\<rparr>) = Some (Inr (rc, u))" and t: "t = sr_destroy_instance opts u"
    by (rule run_session_ends [OF run])
  let ?s0 = "s\<lparr>fs := open_log opts (fs s), router := sr\<rparr>"
  have "served l s1 (s1\<lparr>router := sr_init sr2\<rparr>)"
    using load_rt_wrap_frame [OF ld] by (simp add: served_def logged_same sr_init_def)
  then have sv: "served l ?s0 u"
    using connect_served [OF assms(4) co] main_loop_served [OF ml assms(4) refl] served_trans by blast
  have start: "logfile sr = Some (sf_write_header LINKTYPE_ETHERNET 0 1024)" "sock_out sr = []"
    using set_up_log [OF su assms(3)] assms(5) by simp_all
  obtain es frames where u: "list_all entry_ok es"
    "logfile (router u) = Some (sf_write_header LINKTYPE_ETHERNET 0 1024 @ concat (map entry_bytes es))"
    "sent_frames (sock_out (router u)) = frames" "subseq (map (take 1024) frames) (map snd es)"
    using sv start by (auto simp: served_def logged_def sent_frames_def)
  have "fs u l = Some []" using sv assms(3) by (simp add: served_def open_log_def)
  from destroy_log [OF u(2) assms(3) this] have "fs t l = Some (sf_write_header LINKTYPE_ETHERNET 0 1024 @ concat (map entry_bytes es))"
    by (simp add: t)
  moreover have "router t = router u" by (simp add: t sr_destroy_instance_def split: option.split)
  ultimately show ?thesis using read_log [OF u(1)] u(3,4) by auto
qed

text \<open>A run: the server describes \<^verbatim>\<open>eth1\<close>, a host asks for its address, the server says goodbye.\<close>

definition asked1 :: bytes where
  "asked1 = sample_arp 1 [9, 8, 7, 6, 5, 4] server1 eth1_ip"

definition hello :: bytes where
  "hello = vns_message VNSHWINFO (hw_body (concat (map describe [eth1_description])))"

lemma hello_handled:
  "\<exists>i. described eth1_description i \<and>
     handle_command good_vns_env 1 sample_entered hello 0 =
       Inr (1, sample_entered\<lparr>router := (router sample_entered)\<lparr>if_list := [i]\<rparr>\<rparr>)"
proof -
  have d: "list_all hw_if_wf [eth1_description]"
    by (simp add: hw_if_wf_def eth1_description_def HWINTERFACE_def HWETHER_def HWETHIP_def)
      (simp add: str_bytes_def cstr_def)
  have w: "hw_wf (concat (map describe [eth1_description]))" by (simp add: hw_wf_def describe_def eth1_description_def)
  obtain i where i: "described eth1_description i" "handle_command good_vns_env 1 sample_entered hello 0 =
      Inr (if sr_verify_routing_table ((router sample_entered)\<lparr>if_list := [i]\<rparr>) = 0 then 1 else - 1,
        sample_entered\<lparr>router := (router sample_entered)\<lparr>if_list := [i]\<rparr>\<rparr>)"
    using hwinfo_effect [OF d w, of good_vns_env sample_entered 1] by (auto simp: hello_def sample_entered_simps list_all2_Cons1)
  have "if_name i = rt_interface sample_route" using i(1) by (simp add: described_def eth1_description_def sample_route_def)
  then have "sr_verify_routing_table ((router sample_entered)\<lparr>if_list := [i]\<rparr>) = 0"
    by (simp add: verify_zero_iff sample_entered_simps sr_get_interface_def strncmp_eq_def)
  with i show ?thesis by auto
qed

lemma asked1_handled:
  assumes "described eth1_description i" "router s = (router sample_entered)\<lparr>if_list := [i]\<rparr>"
  shows "\<exists>sr f. length f = 42 \<and> handle_command good_vns_env 1 s (packet_message asked1 (if_name i)) 0 = Inr (1, s\<lparr>router := sr\<rparr>) \<and>
    sock_out sr = sock_out (router sample_entered) @ [packet_message f (if_name i)]"
proof -
  let ?r = "log_frame (good_env 0) asked1 (router s)"
  have i: "if_name i = strncpy (str_bytes ''eth1'') 32" "if_addr i = [1, 2, 3, 4, 5, 6]" "if_ip i = eth1_ip"
    using assms(1) by (simp_all add: described_def eth1_description_def)
  have "sr_wf 34 (router s)"
    using init_state_wf [of "(configured good_world ada_options [sample_route])\<lparr>if_list := [i]\<rparr>"] i assms(2)
    by (simp add: sample_entered_def entered_def sr_init_def sr_wf_def if_wf_def sr_IFACE_NAMELEN_def)
  then have wf: "sr_wf 34 ?r" by (simp add: sr_wf_def)
  have len: "length asked1 = 42" by (simp add: asked1_def sample_arp_def eth_hdr_bytes_def arp_hdr_bytes_def)
  have arp: "arp_for_ip asked1" "ntohs (ar_op (frame_arp asked1)) = 1" "ar_tip (frame_arp asked1) = if_ip i"
    by (simp_all add: asked1_def sample_arp_facts i)
  have ifs: "sr_get_interface (router s) (if_name i) = Some i" "sr_get_interface ?r (if_name i) = Some i"
    by (simp_all add: assms(2) sr_get_interface_def strncmp_eq_def)
  obtain sr where sr: "sr_handlepacket (good_env 0) 1 ?r asked1 (if_name i) = Inr sr"
    "sock_out sr = sock_out ?r @ [packet_message (arp_answer (frame_arp asked1) i) (if_name i)]"
    using arp_request_effect [OF mem_ok_good_env wf arp(1) ifs(2) arp(2), of 0 1] arp(3) by auto
  have "length (cstr (if_name i)) < 16" by (simp add: i cstr_strncpy) (simp add: str_bytes_def cstr_def)
  moreover have "\<not> foreign_arp_request i asked1" using arp(3) by (simp add: foreign_arp_request_def)
  ultimately have h: "handle_command good_vns_env 1 s (packet_message asked1 (if_name i)) 0 = Inr (1, s\<lparr>router := sr\<rparr>)"
    using received_packet [of asked1 "if_name i" good_vns_env 1 s] ifs(1) sr(1) by (simp add: len)
  have "length (arp_answer (frame_arp asked1) i) = 42"
    by (simp add: asked1_def sample_arp_facts arp_answer_def eth_hdr_bytes_def arp_hdr_bytes_def i)
  with h sr(2) assms(2) show ?thesis by (intro exI [of _ sr] exI [of _ "arp_answer (frame_arp asked1) i"]) simp
qed

lemma sent_frames_greeting: "sent_frames (greeting sr salt key) = []"
  using sent_frames_append [of "[c_auth_reply (cstr (user sr)) (sha1 (salt @ key))]" "[open_request sr]"]
  by (simp add: greeting_def open_request_def sent_frames_reply sent_frames_open)

lemma run_leaves_readable_log_witness:
  "\<exists>msgs t fp records f. main good_world 1 sample_argv (at_input sample_start (sample_input msgs)) = Some (Inr (0, t)) \<and>
     fs t (str_bytes ''p'') = Some fp \<and> read_pcap fp = Some (1024, LINKTYPE_ETHERNET, records) \<and>
     sent_frames (sock_out (router t)) = [f] \<and> length f = 42 \<and> f \<in> snd ` set records"
proof -
  obtain i where i: "described eth1_description i" "handle_command good_vns_env 1 sample_entered hello 0 =
       Inr (1, sample_entered\<lparr>router := (router sample_entered)\<lparr>if_list := [i]\<rparr>\<rparr>)" using hello_handled by blast
  let ?s = "sample_entered\<lparr>router := (router sample_entered)\<lparr>if_list := [i]\<rparr>\<rparr>" and ?m = "packet_message asked1 (if_name i)"
  obtain sr f where f: "length f = 42" "handle_command good_vns_env 1 ?s ?m 0 = Inr (1, ?s\<lparr>router := sr\<rparr>)"
    "sock_out sr = sock_out (router sample_entered) @ [packet_message f (if_name i)]"
    using asked1_handled [OF i(1), of ?s] by auto
  have len: "length asked1 = 42" by (simp add: asked1_def sample_arp_def eth_hdr_bytes_def arp_hdr_bytes_def)
  have fr: "list_all framed [hello, ?m, goodbye]"
    using framed_vns_message by (simp add: goodbye_props(1) packet_message_vns len hello_def length_hw_body describe_def eth1_description_def)
  let ?t = "?s\<lparr>router := sr, shown := [[98, 121, 101]]\<rparr>"
  have sv: "serve (w_envs good_world) (w_rounds good_world) 1 0 sample_entered [hello, ?m, goodbye] = Inr (0, ?t)"
    using i(2) f(2) by (simp add: sample_entered_simps goodbye_props wait_sample)
  obtain es' where run: "main good_world 1 sample_argv (at_input sample_start (sample_input [hello, ?m, goodbye])) =
      Some (Inr (0, sr_destroy_instance ada_options (at_input ?t es')))"
    using sample_run [OF fr sv] by auto
  let ?u = "sr_destroy_instance ada_options (at_input ?t es')"
  have "router ?u = sr" by (simp add: sr_destroy_instance_def split: option.split)
  moreover have "sock_out (router sample_entered) = greeting (configured good_world ada_options [sample_route]) [1, 2, 3] (replicate 64 107)"
    by (simp add: sample_entered_def entered_def sr_init_def) (simp add: configured_def good_world_def empty_instance_def)
  ultimately have out: "sent_frames (sock_out (router ?u)) = [f]"
    using f(3) by (simp add: sent_frames_append sent_frames_packet sent_frames_greeting)
  have p: "\<not> table_file (str_bytes ''p'')" "sock_out (w_raw good_world) = []"
    by (simp_all add: table_file_def good_world_def empty_instance_def) (simp add: str_bytes_def)
  obtain fp records where "fs ?u (str_bytes ''p'') = Some fp" "read_pcap fp = Some (1024, LINKTYPE_ETHERNET, records)"
    "subseq (map (take 1024) (sent_frames (sock_out (router ?u)))) (map snd records)"
    using run_leaves_readable_log [OF run sample_setting(1) ada_options_simps(4) p] by auto
  moreover from this(3) [unfolded out] have "f \<in> snd ` set records" using f(1) by (simp add: subseq_singleton_left)
  ultimately show ?thesis using run out f(1) by blast
qed

end
