(* ===== verification/SR_Threads.thy ===== *)
theory SR_Threads
  imports SR_Safety SR_Contract "HOL-Library.Sublist"
begin

text \<open>
  The two threads of the router.  The timeout thread holds the lock of the cache for a whole round; the
  main thread takes it inside each operation of the cache.  What the main thread does between two such
  operations can be preceded by rounds of the other thread: \<^verbatim>\<open>route_and_send\<close> calls \<^verbatim>\<open>handle_arpreq\<close>
  with a pointer it got under the lock, and \<^verbatim>\<open>handle_arp_packet\<close> sends the frames of a request after
  it has been taken off the queue.  Here each region under the lock, and each frame that is sent, is
  one step.  \<open>SR_Interleave\<close> takes these steps apart further.
\<close>

section \<open>What a round promises to the main thread\<close>

text \<open>
  The rest of the program as one thread sees it: steps that keep an invariant, and a relation each
  of them respects.
\<close>

locale interference =
  fixes inv :: "'s \<Rightarrow> bool" and other :: "'s \<Rightarrow> 's \<Rightarrow> bool" and rely :: "'s \<Rightarrow> 's \<Rightarrow> bool"
  assumes rely_refl: "rely s s"
    and rely_trans: "rely s t \<Longrightarrow> rely t u \<Longrightarrow> rely s u"
    and other_inv: "inv s \<Longrightarrow> other s t \<Longrightarrow> inv t"
    and other_rely: "inv s \<Longrightarrow> other s t \<Longrightarrow> rely s t"
begin

lemma others:
  assumes "other\<^sup>*\<^sup>* s t" "inv s"
  shows "inv t \<and> rely s t"
  using assms
proof (induction rule: rtranclp_induct)
  case (step t u)
  then show ?case using other_inv other_rely rely_trans by blast
qed (simp add: rely_refl)

lemma stable_others:
  assumes "\<And>s t. P s \<Longrightarrow> rely s t \<Longrightarrow> P t" "other\<^sup>*\<^sup>* s t" "inv s" "P s"
  shows "P t"
  using others [OF assms(2,3)] assms(1,4) by blast

end

definition a_round :: "sr_instance \<Rightarrow> sr_instance \<Rightarrow> bool" where
  "a_round s t \<longleftrightarrow> (\<exists>env depth. sr_arpcache_timeout_round env depth s = Inr t)"

definition undisturbed :: "sr_instance \<Rightarrow> sr_instance \<Rightarrow> bool" where
  "undisturbed s t \<longleftrightarrow> evolves s t \<and> fresh_addrs s t"

interpretation rd: interference "sr_wf 34" a_round undisturbed
proof
  fix s t
  assume wf: "sr_wf 34 s" and "a_round s t"
  then obtain env depth where r: "sr_arpcache_timeout_round env depth s = Inr t" by (auto simp: a_round_def)
  then show "sr_wf 34 t" "undisturbed s t"
    using timeout_round_keeps [of 34 s env depth] fa.handlers(3) [of s env depth] wf by (simp_all add: keeps_Inr undisturbed_def)
qed (auto simp: undisturbed_def fa.R_refl intro: evolves_trans fa.R_trans)

text \<open>A request that has been taken off the queue: its address does not come back.\<close>

definition detached :: "addr \<Rightarrow> sr_instance \<Rightarrow> bool" where
  "detached a s \<longleftrightarrow> a < next_addr (cache s) \<and> a \<notin> fst ` set (requests (cache s))"

lemma detached_stable: "detached a s \<Longrightarrow> undisturbed s t \<Longrightarrow> detached a t"
  by (fastforce simp: detached_def undisturbed_def fresh_addrs_def)

section \<open>The two halves of route_and_send\<close>

text \<open>Everything up to the queueing of the frame; \<open>None\<close> is the result \<open>-1\<close>.\<close>

definition route_queue :: "sr_env \<Rightarrow> sr_instance \<Rightarrow> bytes \<Rightarrow> fault + (addr \<times> sr_instance) option" where
  "route_queue env sr frame =
     (if length frame < sizeof_eth + sizeof_ip then Inr None
      else case get_ip frame sizeof_eth of Inl f \<Rightarrow> Inl f | Inr ip \<Rightarrow>
        (case rt_exact_match sr (ip_dst ip) of None \<Rightarrow> Inr None | Some rt \<Rightarrow>
          (case sr_get_interface sr (rt_interface rt) of None \<Rightarrow> Inr None | Some out_iface \<Rightarrow>
            let next_hop = (if rt_gw rt = 0 then ip_dst ip else rt_gw rt) in
            case get_eth frame 0 of Inl f \<Rightarrow> Inl f | Inr eth \<Rightarrow>
              (case put_eth frame 0 (eth\<lparr>ether_shost := if_addr out_iface, ether_type := htons ethertype_ip\<rparr>) of
                 Inl f \<Rightarrow> Inl f
               | Inr frame1 \<Rightarrow>
                   (case sr_arpcache_queuereq env (cache sr) next_hop frame1 (if_name out_iface) of
                      Inl f \<Rightarrow> Inl f
                    | Inr (req, c) \<Rightarrow> Inr (Some (req, sr\<lparr>cache := c\<rparr>)))))))"

lemma route_and_send_halves:
  "route_and_send_with handle env sr frame =
     (case route_queue env sr frame of Inl f \<Rightarrow> Inl f | Inr None \<Rightarrow> Inr (- 1, sr)
      | Inr (Some (a, sr1)) \<Rightarrow> (case handle sr1 a of Inl f \<Rightarrow> Inl f | Inr sr' \<Rightarrow> Inr (0, sr')))"
  by (simp add: route_and_send_with_def route_queue_def Let_def split: sum.split option.split)

section \<open>The parts of handle_arp_packet\<close>

text \<open>
  Up to the end of \<^verbatim>\<open>sr_arpcache_insert\<close>, with the request it took off the queue, the hardware address of the
  reply and the frames to send, if there are any.
\<close>

definition arp_begin :: "sr_env \<Rightarrow> sr_instance \<Rightarrow> bytes \<Rightarrow> bytes \<Rightarrow> fault + ((addr \<times> bytes \<times> sr_packet list) option \<times> sr_instance)" where
  "arp_begin env sr packet interface =
     (if length packet < sizeof_eth + sizeof_arp then Inr (None, sr)
      else case get_arp packet sizeof_eth of Inl f \<Rightarrow> Inl f | Inr arp \<Rightarrow>
        if ntohs (ar_hrd arp) \<noteq> arp_hrd_ethernet \<or> ntohs (ar_pro arp) \<noteq> ethertype_ip then Inr (None, sr)
        else case sr_get_interface sr interface of None \<Rightarrow> Inr (None, sr) | Some recv_iface \<Rightarrow>
          let op = ntohs (ar_op arp) in
          if op = arp_op_request then
            (if ar_tip arp = if_ip recv_iface
             then (case send_arp_reply env sr arp recv_iface of Inl f \<Rightarrow> Inl f | Inr sr' \<Rightarrow> Inr (None, sr'))
             else Inr (None, sr))
          else if op = arp_op_reply then
            (let (req, c) = sr_arpcache_insert env (cache sr) (ar_sha arp) (ar_sip arp) in
             Inr (map_option (\<lambda>(a, r). (a, ar_sha arp, req_packets r)) req, sr\<lparr>cache := c\<rparr>))
          else Inr (None, sr))"

text \<open>One turn of the loop that sends the frames.\<close>

definition drain_one :: "sr_env \<Rightarrow> sr_instance \<Rightarrow> bytes \<Rightarrow> sr_packet \<Rightarrow> fault + sr_instance" where
  "drain_one env sr sha pkt =
     (if length (pkt_buf pkt) < sizeof_eth then Inr sr
      else case get_eth (pkt_buf pkt) 0 of Inl f \<Rightarrow> Inl f | Inr eth \<Rightarrow>
        let eth1 = (case sr_get_interface sr (pkt_iface pkt) of None \<Rightarrow> eth
                    | Some out_iface \<Rightarrow> eth\<lparr>ether_shost := if_addr out_iface\<rparr>) in
        case put_eth (pkt_buf pkt) 0 (eth1\<lparr>ether_dhost := sha\<rparr>) of Inl f \<Rightarrow> Inl f | Inr buf \<Rightarrow>
          (case sr_send_packet env sr buf (pkt_iface pkt) of Inl f \<Rightarrow> Inl f | Inr (rc, sr') \<Rightarrow> Inr sr'))"

lemma drain_packets_Cons:
  "drain_packets env sr sha (p # ps) = (case drain_one env sr sha p of Inl f \<Rightarrow> Inl f | Inr sr' \<Rightarrow> drain_packets env sr' sha ps)"
  by (simp add: drain_one_def Let_def split: sum.split)

lemma handle_arp_parts:
  "handle_arp_packet env sr packet interface =
     (case arp_begin env sr packet interface of Inl f \<Rightarrow> Inl f | Inr (None, sr1) \<Rightarrow> Inr sr1
      | Inr (Some (a, sha, pkts), sr1) \<Rightarrow>
          (case drain_packets env sr1 sha pkts of Inl f \<Rightarrow> Inl f
           | Inr sr2 \<Rightarrow> Inr (sr2\<lparr>cache := sr_arpreq_destroy (cache sr2) a\<rparr>)))"
  by (auto simp: handle_arp_packet_def arp_begin_def Let_def split: sum.split option.split prod.split)

section \<open>Interleaving\<close>

datatype main_pc = Idle | Queued addr | Draining addr bytes "sr_packet list"

record threads =
  shared :: sr_instance
  pc :: main_pc

datatype thread_action = Main_Queue bytes | Main_Handle | Main_Arp bytes bytes | Main_Send | Main_Free | Timeout_Round

text \<open>\<open>None\<close> is an action that is not enabled.  Each step has its own environment: time passes between them.\<close>

fun thread_step :: "nat \<Rightarrow> threads \<Rightarrow> sr_env \<times> thread_action \<Rightarrow> (fault + threads) option" where
  "thread_step depth t (env, Main_Queue frame) =
     (case pc t of Idle \<Rightarrow> Some (case route_queue env (shared t) frame of Inl f \<Rightarrow> Inl f | Inr None \<Rightarrow> Inr t
          | Inr (Some (a, sr)) \<Rightarrow> Inr \<lparr>shared = sr, pc = Queued a\<rparr>)
      | _ \<Rightarrow> None)"
| "thread_step depth t (env, Main_Handle) =
     (case pc t of Queued a \<Rightarrow> Some (case handle_arpreq env depth (shared t) a of Inl f \<Rightarrow> Inl f
          | Inr sr \<Rightarrow> Inr \<lparr>shared = sr, pc = Idle\<rparr>)
      | _ \<Rightarrow> None)"
| "thread_step depth t (env, Main_Arp packet interface) =
     (case pc t of Idle \<Rightarrow> Some (case arp_begin env (shared t) packet interface of Inl f \<Rightarrow> Inl f
          | Inr (None, sr) \<Rightarrow> Inr \<lparr>shared = sr, pc = Idle\<rparr>
          | Inr (Some (a, sha, pkts), sr) \<Rightarrow> Inr \<lparr>shared = sr, pc = Draining a sha pkts\<rparr>)
      | _ \<Rightarrow> None)"
| "thread_step depth t (env, Main_Send) =
     (case pc t of Draining a sha (p # ps) \<Rightarrow> Some (case drain_one env (shared t) sha p of Inl f \<Rightarrow> Inl f
          | Inr sr \<Rightarrow> Inr \<lparr>shared = sr, pc = Draining a sha ps\<rparr>)
      | _ \<Rightarrow> None)"
| "thread_step depth t (env, Main_Free) =
     (case pc t of Draining a sha [] \<Rightarrow>
        Some (Inr \<lparr>shared = (shared t)\<lparr>cache := sr_arpreq_destroy (cache (shared t)) a\<rparr>, pc = Idle\<rparr>)
      | _ \<Rightarrow> None)"
| "thread_step depth t (env, Timeout_Round) =
     Some (case sr_arpcache_timeout_round env depth (shared t) of Inl f \<Rightarrow> Inl f
       | Inr sr \<Rightarrow> Inr (t\<lparr>shared := sr\<rparr>))"

fun run_threads :: "nat \<Rightarrow> threads \<Rightarrow> (sr_env \<times> thread_action) list \<Rightarrow> (fault + threads) option" where
  "run_threads depth t [] = Some (Inr t)"
| "run_threads depth t (act # acts) =
     (case thread_step depth t act of None \<Rightarrow> None | Some (Inl f) \<Rightarrow> Some (Inl f)
      | Some (Inr t') \<Rightarrow> run_threads depth t' acts)"

lemma run_threads_append:
  "run_threads depth t (xs @ ys) =
     (case run_threads depth t xs of Some (Inr t') \<Rightarrow> run_threads depth t' ys | r \<Rightarrow> r)"
  by (induction xs arbitrary: t) (simp_all split: option.split sum.split)

text \<open>Without rounds in between the steps are the functions of the code.\<close>

lemma run_serial:
  "route_queue env sr frame = Inr (Some (a, sr1)) \<Longrightarrow>
     run_threads depth \<lparr>shared = sr, pc = Idle\<rparr> [(env, Main_Queue frame), (env, Main_Handle)] =
       Some (map_sum id (\<lambda>x. \<lparr>shared = snd x, pc = Idle\<rparr>) (route_and_send env depth sr frame))"
  by (simp add: route_and_send_def route_and_send_halves split: sum.split)

lemma run_drain:
  "run_threads depth \<lparr>shared = sr, pc = Draining a sha pkts\<rparr> (map (\<lambda>_. (env, Main_Send)) pkts @ [(env, Main_Free)]) =
     Some (case drain_packets env sr sha pkts of Inl f \<Rightarrow> Inl f
       | Inr sr2 \<Rightarrow> Inr \<lparr>shared = sr2\<lparr>cache := sr_arpreq_destroy (cache sr2) a\<rparr>, pc = Idle\<rparr>)"
  by (induction pkts arbitrary: sr) (simp_all add: drain_packets_Cons del: drain_packets.simps(2) split: sum.split)

lemma run_serial_arp:
  "arp_begin env sr packet interface = Inr (Some (a, sha, pkts), sr1) \<Longrightarrow>
     run_threads depth \<lparr>shared = sr, pc = Idle\<rparr> ((env, Main_Arp packet interface) # map (\<lambda>_. (env, Main_Send)) pkts @ [(env, Main_Free)]) =
       Some (map_sum id (\<lambda>sr'. \<lparr>shared = sr', pc = Idle\<rparr>) (handle_arp_packet env sr packet interface))"
  by (simp add: handle_arp_parts run_drain split: sum.split)

section \<open>The race\<close>

lemma handle_fresh_total:
  assumes "mem_ok env" "sr_wf m sr" "map_of (requests (cache sr)) a = Some r" "\<not> expired (env_time env) r"
  shows "\<exists>sr'. handle_arpreq env (Suc d) sr a = Inr sr'"
proof (cases "req_packets r")
  case Nil
  then show ?thesis using assms(3,4) by (simp add: handle_arpreq_body_def deref_req_def expired_def)
next
  case (Cons p ps)
  show ?thesis
  proof (cases "sr_get_interface sr (pkt_iface p)")
    case None
    then have "send_arp_request env sr (req_ip r) (pkt_iface p) = Inr sr" by (simp add: send_arp_request_def)
    then show ?thesis using assms(3,4) Cons by (simp add: handle_arpreq_body_def deref_req_def expired_def)
  next
    case (Some i)
    from handle_fresh_effect [OF assms Cons Some] show ?thesis by blast
  qed
qed

lemma route_queue_eq:
  assumes "34 \<le> length frame" "list_all if_wf (if_list sr)"
  shows "route_queue env sr frame =
    (case route_for sr (ip_dst (frame_ip frame)) of None \<Rightarrow> Inr None | Some (hop, i) \<Rightarrow>
       (case sr_arpcache_queuereq env (cache sr) hop (rewrite_l2 (if_addr i) frame) (if_name i) of Inl f \<Rightarrow> Inl f
        | Inr (req, c) \<Rightarrow> Inr (Some (req, sr\<lparr>cache := c\<rparr>))))"
proof -
  have mac: "length (if_addr i) = 6" if "sr_get_interface sr name = Some i" for name i
    using assms(2) sr_get_interface_Some [OF that] by (auto simp: list_all_iff if_wf_def)
  have len: "\<not> length frame < sizeof_eth + sizeof_ip" using assms(1) by (simp add: layout)
  have eth: "\<exists>e. get_eth frame 0 = Inr e" using assms(1) eth.get_in [of 0 frame] by (simp add: layout)
  show ?thesis
    using eth len put_eth_rewrite [OF assms(1) mac]
    by (auto simp: route_queue_def get_ip_frame [OF assms(1)] route_for_def next_hop_of_def Let_def split: option.splits)
qed

lemma route_queue_wf:
  assumes "sr_wf m sr" "m \<le> length frame" "34 \<le> length frame" "route_queue env sr frame = Inr (Some (a, sr1))"
  shows "sr_wf m sr1 \<and> same_config sr sr1 \<and> (\<exists>r. map_of (requests (cache sr1)) a = Some r)"
proof -
  have ifs: "list_all if_wf (if_list sr)" using assms(1) by (simp add: sr_wf_def)
  obtain hop i c where r: "route_for sr (ip_dst (frame_ip frame)) = Some (hop, i)"
    and q: "sr_arpcache_queuereq env (cache sr) hop (rewrite_l2 (if_addr i) frame) (if_name i) = Inr (a, c)" "sr1 = sr\<lparr>cache := c\<rparr>"
    using assms(4) unfolding route_queue_eq [OF assms(3) ifs] by (auto split: option.splits sum.splits)
  have "length (if_addr i) = 6" using sr_wf_if [OF assms(1) route_for_iface [OF r]] by simp
  then have f: "length (rewrite_l2 (if_addr i) frame) = length frame" "rewrite_l2 (if_addr i) frame \<noteq> []"
    using assms(3) by (auto simp: length_rewrite_l2 dest: arg_cong [where f = length])
  have wf: "arpcache_wf (cache sr)" using assms(1) by (simp add: sr_wf_def)
  have "sr_wf m sr1"
    using queuereq_wf [OF q(1) wf] queued_ge_queuereq [OF q(1), of m] f assms(1-3) q(2) by (simp add: sr_wf_def)
  moreover have "\<exists>r. map_of (requests c) a = Some r"
    using q(1) f(2)
  proof (rule queuereq_cases)
    fix r
    assume "find_req (requests (cache sr)) hop = Some (a, r)" and c: "c = (cache sr)\<lparr>requests := update_req (requests (cache sr)) a
      (push_packet (queued_packet (rewrite_l2 (if_addr i) frame) (if_name i)))\<rparr>"
    then have "map_of (requests (cache sr)) a = Some r" using find_req_Some wf_map_of [OF wf] by metis
    then show ?thesis by (simp add: c map_of_update_req [OF wf_distinct [OF wf]])
  qed simp
  ultimately show ?thesis using q(2) by (simp add: same_config_def)
qed

lemma round_between:
  assumes "mem_ok env" "sr_wf 42 sr" "own_unrouted sr" "42 \<le> length frame"
    and "route_queue env sr frame = Inr (Some (a, sr1))" "flat (env_time env) sr1" "2 \<le> depth"
    and "map_of (requests (cache sr1)) a = Some r"
  shows "if expired (env_time env) r
    then run_threads depth \<lparr>shared = sr, pc = Idle\<rparr> [(env, Main_Queue frame), (env, Timeout_Round), (env, Main_Handle)] = Some (Inl UseAfterFree)
    else \<exists>sr'. run_threads depth \<lparr>shared = sr, pc = Idle\<rparr> [(env, Main_Queue frame), (env, Timeout_Round), (env, Main_Handle)] =
      Some (Inr \<lparr>shared = sr', pc = Idle\<rparr>)"
proof -
  have s1: "sr_wf 42 sr1" "same_config sr sr1" using route_queue_wf [OF assms(2,4) _ assms(5)] assms(4) by simp_all
  have own: "own_unrouted sr1" using own_unrouted_config [OF s1(2)] assms(3) by simp
  obtain sr2 where r2: "sr_arpcache_timeout_round env depth sr1 = Inr sr2" "sr_wf 42 sr2"
    "\<And>a r. (a, r) \<in> set (requests (cache sr1)) \<Longrightarrow> a \<in> fst ` set (requests (cache sr2)) \<longleftrightarrow> \<not> expired (env_time env) r"
    "\<And>a r. (a, r) \<in> set (requests (cache sr2)) \<Longrightarrow> \<not> expired (env_time env) r"
    using timeout_round_prunes [OF assms(1) s1(1) own assms(6,7)] by metis
  obtain d where d: "depth = Suc d" using assms(7) by (cases depth) auto
  have a: "a \<in> fst ` set (requests (cache sr2)) \<longleftrightarrow> \<not> expired (env_time env) r"
    using r2(3) map_of_SomeD [OF assms(8)] by blast
  have run: "run_threads depth \<lparr>shared = sr, pc = Idle\<rparr> [(env, Main_Queue frame), (env, Timeout_Round), (env, Main_Handle)] =
      Some (case handle_arpreq env depth sr2 a of Inl f \<Rightarrow> Inl f | Inr sr' \<Rightarrow> Inr \<lparr>shared = sr', pc = Idle\<rparr>)"
    using assms(5) r2(1) by (simp split: sum.split)
  show ?thesis
  proof (cases "expired (env_time env) r")
    case True
    then have "map_of (requests (cache sr2)) a = None" using a by (simp add: map_of_eq_None_iff)
    then have "handle_arpreq env depth sr2 a = Inl UseAfterFree" by (simp add: d handle_arpreq_body_def deref_req_def)
    then show ?thesis using True run by simp
  next
    case False
    then obtain q where q: "map_of (requests (cache sr2)) a = Some q" using a by (metis map_of_eq_None_iff not_None_eq)
    from handle_fresh_total [OF assms(1) r2(2) q r2(4) [OF map_of_SomeD [OF q]], of d] obtain sr' where
      "handle_arpreq env depth sr2 a = Inr sr'" by (auto simp: d)
    then show ?thesis using False run by simp
  qed
qed

text \<open>
  C34.  The lock does not protect the request between its two uses: if a round of the timeout thread
  takes place after the frame has been queued, the main thread goes on with a freed request exactly
  when that request was due to be given up; otherwise it finishes as it should.
\<close>

theorem unlocked_request_race:
  assumes "mem_ok env" "sr_wf 42 sr" "own_unrouted sr" "42 \<le> length frame"
    and "route_queue env sr frame = Inr (Some (a, sr1))" "ranked (env_time env) (\<lambda>_. 0) sr1" "2 \<le> depth"
    and "map_of (requests (cache sr1)) a = Some r"
  shows "if expired (env_time env) r
    then run_threads depth \<lparr>shared = sr, pc = Idle\<rparr> [(env, Main_Queue frame), (env, Timeout_Round), (env, Main_Handle)] = Some (Inl UseAfterFree)
    else \<exists>sr'. run_threads depth \<lparr>shared = sr, pc = Idle\<rparr> [(env, Main_Queue frame), (env, Timeout_Round), (env, Main_Handle)] =
      Some (Inr \<lparr>shared = sr', pc = Idle\<rparr>)"
  by (rule round_between [OF assms])

text \<open>The example: the frame goes to \<^term>\<open>server1\<close>, whose request has been tried five times.\<close>

definition raced_frame :: bytes where
  "raced_frame = rewrite_l2 (if_addr eth1) (sample_frame client server1 9)"

definition raced_request :: sr_arpreq where
  "raced_request = sample_req server1 0 5 [\<lparr>pkt_buf = raced_frame, pkt_iface = strncpy (if_named ''eth1'') 32\<rparr>,
     \<lparr>pkt_buf = sample_frame client server1 9, pkt_iface = if_named ''eth1''\<rparr>]"

lemma raced_queue:
  "\<exists>sr1. route_queue (good_env 10) sweep_router (sample_frame client server1 9) = Inr (Some (1, sr1)) \<and>
     map_of (requests (cache sr1)) 1 = Some raced_request \<and> flat 10 sr1"
proof -
  let ?f = "sample_frame client server1 9"
  have wf: "sr_wf 42 sweep_router" by (simp add: sweep_router_def example_wf)
  have ifs: "list_all if_wf (if_list sweep_router)" using wf by (simp add: sr_wf_def)
  have len: "34 \<le> length ?f" by simp
  have mac: "length (if_addr eth1) = 6" by (simp add: eth1_def)
  have ne: "raced_frame \<noteq> []" using length_rewrite_l2 [OF len mac] by (auto simp: raced_frame_def)
  have hop: "route_for sweep_router (ip_dst (frame_ip ?f)) = Some (server1, eth1)"
    by (simp add: sample_frame_ip sweep_router_def)
  let ?c = "(cache sweep_router)\<lparr>requests := [(1, raced_request),
      (0, sample_req server2 0 3 [\<lparr>pkt_buf = sample_frame client server2 9, pkt_iface = if_named ''eth2''\<rparr>])]\<rparr>"
  have q: "sr_arpcache_queuereq (good_env 10) (cache sweep_router) server1 raced_frame (if_name eth1) = Inr (1, ?c)"
    using ne by (simp add: sr_arpcache_queuereq_def add_req_def sweep_router_def sample_req_def good_env_def raced_request_def
        sr_IFACE_NAMELEN_def eth1_def)
  have "error_hop sweep_router raced_frame = Some client"
    using sample_error_hop(3) [of _ server1 9] frame_ip_rewrite_l2 [OF len mac]
    by (simp add: error_hop_def raced_frame_def sweep_router_def)
  moreover have "error_hop (sweep_router\<lparr>cache := ?c\<rparr>) = error_hop sweep_router" by (rule error_hop_config) (simp add: same_config_def)
  moreover have "error_hop sweep_router ?f = Some client" by (simp add: sweep_router_def)
  ultimately have "flat 10 (sweep_router\<lparr>cache := ?c\<rparr>)"
    by (simp add: ranked_def raced_request_def sample_req_def expired_def)
  then show ?thesis using q by (simp add: route_queue_eq [OF len ifs] hop flip: raced_frame_def)
qed

theorem unlocked_request_race_witness:
  "run_threads 2 \<lparr>shared = sweep_router, pc = Idle\<rparr>
     [(good_env 10, Main_Queue (sample_frame client server1 9)), (good_env 10, Timeout_Round), (good_env 10, Main_Handle)] = Some (Inl UseAfterFree)"
proof -
  have f: "sr_wf 42 sweep_router" "own_unrouted sweep_router" by (simp_all add: sweep_router_def example_wf)
  obtain sr1 where 1: "route_queue (good_env 10) sweep_router (sample_frame client server1 9) = Inr (Some (1, sr1))"
    "map_of (requests (cache sr1)) 1 = Some raced_request" "flat (env_time (good_env 10)) sr1" using raced_queue by auto
  have "expired (env_time (good_env 10)) raced_request" by (simp add: raced_request_def sample_req_def expired_def)
  moreover have "42 \<le> length (sample_frame client server1 9)" by simp
  ultimately show ?thesis
    using unlocked_request_race [OF mem_ok_good_env f _ 1(1,3) order_refl 1(2)] by simp
qed

section \<open>What holds at every point of an interleaving\<close>

definition pc_ok :: "main_pc \<Rightarrow> sr_instance \<Rightarrow> bool" where
  "pc_ok p s \<longleftrightarrow> (case p of Idle \<Rightarrow> True | Queued a \<Rightarrow> a < next_addr (cache s)
     | Draining a sha pkts \<Rightarrow> detached a s \<and> length sha = 6 \<and> list_all (\<lambda>p. 34 \<le> length (pkt_buf p)) pkts)"

definition threads_ok :: "threads \<Rightarrow> bool" where
  "threads_ok t \<longleftrightarrow> sr_wf 34 (shared t) \<and> pc_ok (pc t) (shared t)"

lemma pc_ok_stable: "pc_ok p s \<Longrightarrow> undisturbed s t \<Longrightarrow> pc_ok p t"
  using detached_stable [of _ s t] by (auto simp: pc_ok_def undisturbed_def fresh_addrs_def split: main_pc.splits)

lemma route_queue_short: "length frame < 34 \<Longrightarrow> route_queue env sr frame = Inr None"
  by (simp add: route_queue_def layout)

lemma route_queue_total:
  assumes "mem_ok env" "sr_wf 34 sr"
  obtains r where "route_queue env sr frame = Inr r"
proof (cases "34 \<le> length frame")
  case True
  have ifs: "list_all if_wf (if_list sr)" using assms(2) by (simp add: sr_wf_def)
  show thesis
  proof (cases "route_for sr (ip_dst (frame_ip frame))")
    case None
    then show thesis using that [of None] by (simp add: route_queue_eq [OF True ifs])
  next
    case (Some x)
    obtain hop i where x: "x = (hop, i)" by fastforce
    obtain a c where "sr_arpcache_queuereq env (cache sr) hop (rewrite_l2 (if_addr i) frame) (if_name i) = Inr (a, c)"
      by (rule queuereq_total [OF assms(1)])
    then show thesis using that [of "Some (a, sr\<lparr>cache := c\<rparr>)"] Some x by (simp add: route_queue_eq [OF True ifs])
  qed
qed (use that route_queue_short in simp)

lemma remove1_addr: "distinct (map fst rs) \<Longrightarrow> (a, r) \<in> set rs \<Longrightarrow> a \<notin> fst ` set (remove1 (a, r) rs)"
  by (induction rs) (auto simp: rev_image_eqI)

lemma insert_detaches:
  assumes "sr_arpcache_insert env c mac ip = (Some (a, r), c')" "arpcache_wf c"
  shows "a < next_addr c' \<and> a \<notin> fst ` set (requests c') \<and> (a, r) \<in> set (requests c)"
proof -
  have f: "find_req (requests c) ip = Some (a, r)" and c': "requests c' = remove1 (a, r) (requests c)" "next_addr c' = next_addr c"
    using assms(1) by (auto simp: sr_arpcache_insert_def detach_req_spec split: option.splits)
  have m: "(a, r) \<in> set (requests c)" using find_req_Some [OF f] by simp
  then show ?thesis using remove1_addr [of "requests c"] c' assms(2) by (auto simp: arpcache_wf_def)
qed

lemma arp_begin_ok:
  assumes wf: "sr_wf 34 sr" and b: "arp_begin env sr packet interface = Inr (next, sr1)"
  shows "sr_wf 34 sr1" "evolves sr sr1" "next = Some (a, sha, pkts) \<Longrightarrow> pc_ok (Draining a sha pkts) sr1"
proof -
  have reply: "sr_wf 34 t \<and> evolves sr t" if "send_arp_reply env sr arp i = Inr t" "length (ar_sha arp) = 6" "sr_get_interface sr interface = Some i"
    for arp i t
    using send_arp_reply_keeps [OF wf that(2), of i env] that sr_wf_get_interface [OF wf that(3)] by (simp add: keeps_Inr)
  have c: "arpcache_wf (cache sr)" "queued_ge 34 (cache sr)" using wf by (simp_all add: sr_wf_def)
  have ins: "sr_wf 34 (sr\<lparr>cache := c\<rparr>)" if "sr_arpcache_insert env (cache sr) mac ip = (req, c)" for mac ip req c
    using wf insert_wf [OF that] requests_insert_subset [OF that] queued_ge_subset [of c "cache sr" 34] by (simp add: sr_wf_def)
  have drn: "pc_ok (Draining a mac (req_packets r)) (sr\<lparr>cache := c\<rparr>)"
    if "sr_arpcache_insert env (cache sr) mac ip = (Some (a, r), c)" "length mac = 6" for mac ip a r c
    using insert_detaches [OF that(1) c(1)] that(2) c(2) by (auto simp: pc_ok_def detached_def queued_ge_def list_all_iff)
  note facts = b [unfolded arp_begin_def Let_def] get_arp_wf [of packet sizeof_eth]
  show "sr_wf 34 sr1" "evolves sr sr1"
    using facts wf reply ins by (auto split: if_splits sum.splits option.splits prod.splits)
  show "pc_ok (Draining a sha pkts) sr1" if "next = Some (a, sha, pkts)"
    using facts drn that by (auto split: if_splits sum.splits option.splits prod.splits)
qed

lemma arp_begin_total:
  assumes "mem_ok env" "sr_wf 34 sr"
  shows "\<exists>x. arp_begin env sr packet interface = Inr x"
proof -
  have "\<exists>arp. get_arp packet sizeof_eth = Inr arp \<and> length (ar_sha arp) = 6" if "\<not> length packet < sizeof_eth + sizeof_arp"
    using that get_arp_frame [of packet] frame_arp_wf [of packet] by (simp add: layout)
  moreover have "\<exists>t. send_arp_reply env sr arp i = Inr t" if "length (ar_sha arp) = 6" "sr_get_interface sr interface = Some i" for arp i
    using send_arp_reply_effect [OF assms that(2,1)] by metis
  ultimately show ?thesis
    by (fastforce simp: arp_begin_def Let_def split: option.split prod.split)
qed

lemma drain_one_single: "drain_packets env sr sha [p] = drain_one env sr sha p"
  by (simp add: drain_packets_Cons del: drain_packets.simps(2) split: sum.split)

lemma drain_one_ok:
  assumes "sr_wf 34 sr" "length sha = 6" "drain_one env sr sha p = Inr sr1"
  shows "sr_wf 34 sr1" "undisturbed sr sr1"
  using drain_keeps [OF assms(1,2), of env "[p]", unfolded drain_one_single] fa.drain_step [of sr env sha "[p]", unfolded drain_one_single] assms(3)
  by (simp_all add: keeps_Inr undisturbed_def fa.step_Inr)

lemma drain_one_sends:
  assumes "mem_ok env" "sr_wf 34 sr" "length sha = 6" "34 \<le> length (pkt_buf p)"
  obtains sr1 where "drain_one env sr sha p = Inr sr1" "sr_wf 34 sr1" "undisturbed sr sr1" "sock_out sr1 = sock_out sr @ deliveries sr sha [p]"
  using drain_effect [OF assms(1,3,2), of "[p]", unfolded drain_one_single] assms(4) drain_one_ok [OF assms(2,3)] by auto

text \<open>A step keeps the invariant; a step other than the handling of a request does not fault.\<close>

lemma queue_step_ok:
  assumes "threads_ok t" "route_queue env (shared t) frame = Inr (Some (a, sr))"
  shows "threads_ok \<lparr>shared = sr, pc = Queued a\<rparr> \<and> evolves (shared t) sr"
proof -
  have wf: "sr_wf 34 (shared t)" using assms(1) by (simp add: threads_ok_def)
  have len: "34 \<le> length frame" using assms(2) route_queue_short [of frame env "shared t"] by (cases "34 \<le> length frame") auto
  have s: "sr_wf 34 sr" "same_config (shared t) sr" "\<exists>r. map_of (requests (cache sr)) a = Some r"
    using route_queue_wf [OF wf len len assms(2)] by simp_all
  have "sock_out sr = sock_out (shared t)"
    using assms(2) by (auto simp: route_queue_def Let_def split: if_splits sum.splits option.splits)
  with s show ?thesis by (auto simp: threads_ok_def pc_ok_def evolves_def dest: wf_key_less [OF sr_wf_arpcache])
qed

lemma thread_step_keeps:
  assumes ok: "threads_ok t" and st: "thread_step depth t (env, act) = Some (Inr t')"
  shows "threads_ok t' \<and> evolves (shared t) (shared t')"
proof -
  have wf: "sr_wf 34 (shared t)" and p: "pc_ok (pc t) (shared t)" using ok by (simp_all add: threads_ok_def)
  show ?thesis
  proof (cases act)
    case (Main_Queue frame)
    then show ?thesis
      using st ok queue_step_ok [OF ok, of env frame] by (fastforce split: main_pc.splits sum.splits option.splits)
  next
    case Main_Handle
    then obtain a where a: "pc t = Queued a" using st by (auto split: main_pc.splits)
    with st Main_Handle obtain sr where "handle_arpreq env depth (shared t) a = Inr sr" "t' = \<lparr>shared = sr, pc = Idle\<rparr>"
      by (auto split: sum.splits)
    then show ?thesis
      using handle_arpreq_keeps [of 34 "shared t" env depth a] wf by (simp add: keeps_Inr threads_ok_def pc_ok_def)
  next
    case (Main_Arp packet interface)
    with st obtain x sr where b: "arp_begin env (shared t) packet interface = Inr (x, sr)"
      "t' = \<lparr>shared = sr, pc = (case x of None \<Rightarrow> Idle | Some (a, sha, pkts) \<Rightarrow> Draining a sha pkts)\<rparr>"
      by (auto split: main_pc.splits sum.splits option.splits)
    then show ?thesis
      using arp_begin_ok [OF wf b(1)] by (auto simp: threads_ok_def pc_ok_def [of Idle] split: option.splits)
  next
    case Main_Send
    then obtain a sha q ps where a: "pc t = Draining a sha (q # ps)" using st by (auto split: main_pc.splits list.splits)
    with st Main_Send obtain sr where d: "drain_one env (shared t) sha q = Inr sr" "t' = \<lparr>shared = sr, pc = Draining a sha ps\<rparr>"
      by (auto split: sum.splits)
    have "length sha = 6" using p a by (simp add: pc_ok_def)
    from drain_one_ok [OF wf this d(1)] pc_ok_stable [OF p] a d(2) show ?thesis
      by (fastforce simp: threads_ok_def undisturbed_def pc_ok_def)
  next
    case Main_Free
    then obtain a sha where a: "pc t = Draining a sha []" using st by (auto split: main_pc.splits list.splits)
    have "sr_wf 34 ((shared t)\<lparr>cache := sr_arpreq_destroy (cache (shared t)) a\<rparr>)"
      using wf destroy_wf queued_ge_destroy by (simp add: sr_wf_def)
    then show ?thesis using st Main_Free a by (auto simp: threads_ok_def pc_ok_def)
  next
    case Timeout_Round
    with st obtain sr where r: "sr_arpcache_timeout_round env depth (shared t) = Inr sr" "t' = t\<lparr>shared := sr\<rparr>"
      by (auto split: sum.splits)
    then have "a_round (shared t) sr" by (auto simp: a_round_def)
    with rd.other_inv [OF wf this] rd.other_rely [OF wf this] pc_ok_stable [OF p] r(2) show ?thesis
      by (simp add: threads_ok_def undisturbed_def)
  qed
qed

lemma main_step_safe:
  assumes ok: "threads_ok t" and mem: "mem_ok env" and act: "act \<noteq> Main_Handle" "act \<noteq> Timeout_Round"
  shows "thread_step depth t (env, act) \<noteq> Some (Inl f)"
proof -
  have wf: "sr_wf 34 (shared t)" and p: "pc_ok (pc t) (shared t)" using ok by (simp_all add: threads_ok_def)
  show ?thesis
  proof (cases act)
    case (Main_Queue frame)
    obtain r where "route_queue env (shared t) frame = Inr r" by (rule route_queue_total [OF mem wf])
    with Main_Queue show ?thesis by (simp split: main_pc.split option.split)
  next
    case (Main_Arp packet interface)
    with arp_begin_total [OF mem wf, of packet interface] show ?thesis by (auto split: main_pc.split option.splits)
  next
    case Main_Send
    have "\<exists>sr. drain_one env (shared t) sha q = Inr sr" if "pc t = Draining a sha (q # ps)" for a sha q ps
      using drain_one_sends [OF mem wf, of sha q] p that by (auto simp: pc_ok_def)
    then have "drain_one env (shared t) sha q \<noteq> Inl f" if "pc t = Draining a sha (q # ps)" for a sha q ps using that by fastforce
    with Main_Send show ?thesis by (auto split: main_pc.splits list.splits sum.splits)
  qed (use act in \<open>simp_all split: main_pc.split list.split\<close>)
qed

inductive threads_reachable :: "sr_instance \<Rightarrow> threads \<Rightarrow> bool" for start :: sr_instance where
  init: "threads_reachable start \<lparr>shared = sr_init start, pc = Idle\<rparr>"
| step: "threads_reachable start t \<Longrightarrow> thread_step depth t act = Some (Inr t') \<Longrightarrow> threads_reachable start t'"

lemma reachable_ok:
  assumes "threads_reachable start t" "list_all if_wf (if_list start)"
  shows "threads_ok t \<and> evolves start (shared t)"
  using assms
proof (induction rule: threads_reachable.induct)
  case init
  then show ?case by (simp add: threads_ok_def pc_ok_def init_state_wf) (simp add: sr_init_def)
next
  case (step t depth act t')
  obtain env a where "act = (env, a)" by fastforce
  with step thread_step_keeps [of t depth env a t'] evolves_trans [of start "shared t" "shared t'"] show ?case by simp
qed

lemma run_reachable:
  "threads_reachable start t \<Longrightarrow> run_threads depth t acts = Some (Inr t') \<Longrightarrow> threads_reachable start t'"
proof (induction acts arbitrary: t)
  case (Cons act acts)
  then show ?case using threads_reachable.step [OF Cons.prems(1), of depth act] by (auto split: option.splits sum.splits)
qed simp

text \<open>
  However the two threads are interleaved, at every point the state is well formed, the configuration is
  unchanged and output is only appended; the request whose frames the main thread is sending is
  not on the queue of the timeout thread; and no step of the main thread faults, if memory
  suffices, other than the handling of a request with a pointer kept outside the lock.
\<close>

lemma interleavings_keep_invariant:
  assumes "threads_reachable start t" "list_all if_wf (if_list start)"
  shows "sr_wf 34 (shared t) \<and> same_config start (shared t) \<and> (\<exists>new. sock_out (shared t) = sock_out start @ new) \<and>
    (\<forall>a sha pkts. pc t = Draining a sha pkts \<longrightarrow> a \<notin> fst ` set (requests (cache (shared t)))) \<and>
    (\<forall>env act depth f. mem_ok env \<longrightarrow> act \<noteq> Main_Handle \<longrightarrow> act \<noteq> Timeout_Round \<longrightarrow>
       thread_step depth t (env, act) \<noteq> Some (Inl f))"
proof -
  have ok: "threads_ok t" "evolves start (shared t)" using reachable_ok [OF assms] by simp_all
  then have "a \<notin> fst ` set (requests (cache (shared t)))" if "pc t = Draining a sha pkts" for a sha pkts
    using that by (simp add: threads_ok_def pc_ok_def detached_def)
  with ok main_step_safe [OF ok(1)] show ?thesis by (simp add: threads_ok_def evolves_def)
qed

text \<open>The example: a frame for \<^term>\<open>server1\<close> has been queued and its next hop has answered.\<close>

lemma pending_none: "(\<And>ip. pending c ip = None) \<Longrightarrow> requests c = []"
proof (cases "requests c")
  case (Cons x rs)
  assume "\<And>ip. pending c ip = None"
  from this [of "req_ip (snd x)"] Cons show ?thesis by (cases x) (simp add: pending_def)
qed simp

lemma draining_example:
  "\<exists>t a f. threads_reachable (example_router []) t \<and> pc t = Draining a [1, 2, 3, 4, 5, 6] [queued_packet f (if_name eth1)] \<and>
     requests (cache (shared t)) = []"
proof -
  let ?e = "example_router []" and ?f = "sample_frame client server1 9"
  have init: "sr_init ?e = ?e" by (simp add: sr_init_def sr_arpcache_init_def example_router_def SR_ARPCACHE_SZ_def)
  have wf: "sr_wf 34 ?e" "list_all if_wf (if_list ?e)" using example_router_34(1) by (simp_all add: sr_wf_def)
  have len: "34 \<le> length ?f" by simp
  have route: "route_for ?e (ip_dst (frame_ip ?f)) = Some (server1, eth1)" by (simp add: sample_frame_ip)
  obtain a0 c0 where "sr_arpcache_queuereq (good_env 10) (cache ?e) server1 (rewrite_l2 (if_addr eth1) ?f) (if_name eth1) = Inr (a0, c0)"
    by (rule queuereq_total [OF mem_ok_good_env])
  then have q: "route_queue (good_env 10) ?e ?f = Inr (Some (a0, ?e\<lparr>cache := c0\<rparr>))"
    by (simp add: route_queue_eq [OF len wf(2)] route)
  obtain sr where rs: "route_and_send (good_env 10) (Suc 0) ?e ?f = Inr (0, sr)"
    "queued_for (good_env 10) ?e server1 eth1 (rewrite_l2 (if_addr eth1) ?f) sr"
    by (rule route_effect [OF mem_ok_good_env wf(1) example_router_34(2) len route])
  have r1: "threads_reachable ?e \<lparr>shared = sr, pc = Idle\<rparr>"
  proof (rule run_reachable)
    show "threads_reachable ?e \<lparr>shared = ?e, pc = Idle\<rparr>" using threads_reachable.init [of ?e] by (simp add: init)
    show "run_threads (Suc 0) \<lparr>shared = ?e, pc = Idle\<rparr> [(good_env 10, Main_Queue ?f), (good_env 10, Main_Handle)] =
        Some (Inr \<lparr>shared = sr, pc = Idle\<rparr>)" unfolding run_serial [OF q] by (simp add: rs(1))
  qed
  then have wf1: "sr_wf 34 sr" "arpcache_wf (cache sr)" "same_config ?e sr"
    using reachable_ok [OF r1 wf(2)] by (simp_all add: threads_ok_def sr_wf_def evolves_def)
  let ?g = "queued_packet (rewrite_l2 (if_addr eth1) ?f) (if_name eth1)"
  have pend: "pending (cache sr) = [server1 \<mapsto> [?g]]"
    using rs(2) by (auto simp: queued_for_def fun_eq_iff example_nothing_pending)
  let ?a = "sample_arp 2 [1, 2, 3, 4, 5, 6] server1 eth1_ip"
  have arp: "arp_for_ip ?a" "ntohs (ar_op (frame_arp ?a)) = 2" "ar_sip (frame_arp ?a) = server1" "ar_sha (frame_arp ?a) = [1, 2, 3, 4, 5, 6]"
    by (simp_all add: sample_arp_facts)
  obtain req c where ins: "sr_arpcache_insert (good_env 11) (cache sr) [1, 2, 3, 4, 5, 6] server1 = (req, c)" by fastforce
  note pi = pending_insert [OF ins wf1(2)]
  obtain a r where req: "req = Some (a, r)" "req_packets r = [?g]" using pi pend by (cases req) auto
  have "requests c = []" using pi pend by (intro pending_none) auto
  moreover have "sr_get_interface sr (if_named ''eth1'') = Some eth1"
    using sr_get_interface_cong [OF same_configD(1) [OF wf1(3)]] by simp
  then have "arp_begin (good_env 11) sr ?a (if_named ''eth1'') = Inr (Some (a, [1, 2, 3, 4, 5, 6], [?g]), sr\<lparr>cache := c\<rparr>)"
    using arp ins req get_arp_frame [of ?a]
    by (simp add: arp_begin_def arp_for_ip_def Let_def layout arp_op_request_def arp_op_reply_def)
  ultimately show ?thesis
    using threads_reachable.step [OF r1, of 1 "(good_env 11, Main_Arp ?a (if_named ''eth1''))"]
    by (intro exI [of _ "\<lparr>shared = sr\<lparr>cache := c\<rparr>, pc = Draining a [1, 2, 3, 4, 5, 6] [?g]\<rparr>"] exI [of _ a]
        exI [of _ "rewrite_l2 (if_addr eth1) ?f"]) simp
qed

lemma example_ifs: "list_all if_wf (if_list (example_router rs))"
  by (simp add: if_wf_def eth1_def eth2_def eth3_def)

lemma interleavings_keep_invariant_witness:
  "\<exists>t a sha pkts. threads_reachable (example_router []) t \<and> pc t = Draining a sha pkts \<and> pkts \<noteq> [] \<and>
     a \<notin> fst ` set (requests (cache (shared t))) \<and> (\<forall>depth f. thread_step depth t (good_env 12, Main_Send) \<noteq> Some (Inl f))"
proof -
  obtain t a f where t: "threads_reachable (example_router []) t" "pc t = Draining a [1, 2, 3, 4, 5, 6] [queued_packet f (if_name eth1)]"
    using draining_example by blast
  note inv = interleavings_keep_invariant [OF t(1) example_ifs]
  have "a \<notin> fst ` set (requests (cache (shared t)))" using inv t(2) by blast
  moreover have "thread_step depth t (good_env 12, Main_Send) \<noteq> Some (Inl g)" for depth g using inv mem_ok_good_env [of 12] by blast
  ultimately show ?thesis using t by blast
qed

section \<open>Frames are sent while rounds take place\<close>

text \<open>One step: a round that faults, or a round or a send that leads on.\<close>

lemma drain_or_fault:
  assumes ok: "threads_ok \<lparr>shared = sr, pc = Draining a sha pkts\<rparr>" and mem: "mem_ok env"
    and acts: "filter (\<lambda>act. act \<noteq> Timeout_Round) (act # acts) = replicate (length pkts) Main_Send"
  obtains (fault) f where "act = Timeout_Round" "sr_arpcache_timeout_round env depth sr = Inl f"
    | (go) sr1 qs sent new where "thread_step depth \<lparr>shared = sr, pc = Draining a sha pkts\<rparr> (env, act) = Some (Inr \<lparr>shared = sr1, pc = Draining a sha qs\<rparr>)"
        "filter (\<lambda>act. act \<noteq> Timeout_Round) acts = replicate (length qs) Main_Send"
        "deliveries sr sha pkts = sent @ deliveries sr sha qs" "sock_out sr1 = sock_out sr @ new" "subseq sent new"
proof -
  have wf: "sr_wf 34 sr" and p: "pc_ok (Draining a sha pkts) sr" using ok by (simp_all add: threads_ok_def)
  show thesis
  proof (cases "act = Timeout_Round")
    case True
    show thesis
    proof (cases "sr_arpcache_timeout_round env depth sr")
      case (Inl f)
      with True fault show thesis by blast
    next
      case (Inr sr1)
      then have "evolves sr sr1" using timeout_round_keeps [of 34 sr env depth] wf by (simp add: keeps_Inr)
      then obtain new where "sock_out sr1 = sock_out sr @ new" by (auto simp: evolves_def)
      then show thesis using True Inr acts go [of sr1 pkts "[]" new] by simp
    qed
  next
    case False
    then obtain q qs where pk: "pkts = q # qs" "act = Main_Send" using acts by (cases pkts) auto
    obtain sr1 where d: "drain_one env sr sha q = Inr sr1" "sock_out sr1 = sock_out sr @ deliveries sr sha [q]"
      by (rule drain_one_sends [OF mem wf, of sha q]) (use p pk in \<open>auto simp: pc_ok_def\<close>)
    then show thesis
      using go [of sr1 qs "deliveries sr sha [q]" "deliveries sr sha [q]"] pk acts by (simp add: deliveries_def)
  qed
qed

lemma deliveries_evolves: "evolves s t \<Longrightarrow> deliveries t = deliveries s"
  using sr_get_interface_cong [of t s] by (simp add: fun_eq_iff deliveries_def evolves_def same_config_def)

lemma drain_body:
  assumes "threads_ok \<lparr>shared = sr, pc = Draining a sha pkts\<rparr>" "list_all (\<lambda>x. mem_ok (fst x)) body"
    and "filter (\<lambda>act. act \<noteq> Timeout_Round) (map snd body) = replicate (length pkts) Main_Send"
  shows "(\<exists>pre env post t f. body = pre @ (env, Timeout_Round) # post \<and>
      run_threads depth \<lparr>shared = sr, pc = Draining a sha pkts\<rparr> pre = Some (Inr t) \<and>
      sr_arpcache_timeout_round env depth (shared t) = Inl f) \<or>
    (\<exists>sr' new. run_threads depth \<lparr>shared = sr, pc = Draining a sha pkts\<rparr> body = Some (Inr \<lparr>shared = sr', pc = Draining a sha []\<rparr>) \<and>
      sock_out sr' = sock_out sr @ new \<and> subseq (deliveries sr sha pkts) new)"
  using assms
proof (induction body arbitrary: sr pkts)
  case Nil
  then show ?case by (simp add: deliveries_def)
next
  case (Cons x body)
  obtain env act where x: "x = (env, act)" by fastforce
  let ?t = "\<lparr>shared = sr, pc = Draining a sha pkts\<rparr>"
  have mem: "mem_ok env" "list_all (\<lambda>x. mem_ok (fst x)) body"
    and acts: "filter (\<lambda>act. act \<noteq> Timeout_Round) (act # map snd body) = replicate (length pkts) Main_Send"
    using Cons.prems(2,3) x by simp_all
  from Cons.prems(1) mem(1) acts show ?case
  proof (cases rule: drain_or_fault [where depth = depth])
    case fault
    then have "x # body = [] @ (env, Timeout_Round) # body" "run_threads depth ?t [] = Some (Inr ?t)" using x by simp_all
    with fault(2) show ?thesis by (metis threads.select_convs(1))
  next
    case (go sr1 qs sent new)
    have ok1: "threads_ok \<lparr>shared = sr1, pc = Draining a sha qs\<rparr>" "evolves sr sr1"
      using thread_step_keeps [OF Cons.prems(1), of depth env act] go(1) by simp_all
    from Cons.IH [OF ok1(1) mem(2) go(2)] show ?thesis
    proof (elim disjE exE conjE)
      fix pre e post t f
      assume "body = pre @ (e, Timeout_Round) # post" "run_threads depth \<lparr>shared = sr1, pc = Draining a sha qs\<rparr> pre = Some (Inr t)"
        "sr_arpcache_timeout_round e depth (shared t) = Inl f"
      then show ?thesis using go(1) x by (intro disjI1 exI [of _ "x # pre"] exI [of _ e] exI [of _ post] exI [of _ t] exI [of _ f]) simp
    next
      fix sr' new'
      assume "run_threads depth \<lparr>shared = sr1, pc = Draining a sha qs\<rparr> body = Some (Inr \<lparr>shared = sr', pc = Draining a sha []\<rparr>)"
        "sock_out sr' = sock_out sr1 @ new'" "subseq (deliveries sr1 sha qs) new'"
      then show ?thesis
        using go x deliveries_evolves [OF ok1(2)] list_emb_append_mono [OF go(5), of "deliveries sr sha qs" new']
        by (intro disjI2 exI [of _ sr'] exI [of _ "new @ new'"]) simp
    qed
  qed
qed

text \<open>
  C27.  The frames released by an ARP reply are sent whatever the timeout thread does meanwhile: with rounds
  at any points between the sends, either a round itself faults, or the main thread finishes, and
  the messages for the released frames, in their order, are among what has been sent.
\<close>

theorem interleaved_delivery:
  assumes "threads_reachable start t" "list_all if_wf (if_list start)" "pc t = Draining a sha pkts"
    and "list_all (\<lambda>x. mem_ok (fst x)) body"
    and "filter (\<lambda>act. act \<noteq> Timeout_Round) (map snd body) = replicate (length pkts) Main_Send"
  shows "(\<exists>pre env' post t1 f. body = pre @ (env', Timeout_Round) # post \<and> run_threads depth t pre = Some (Inr t1) \<and>
      sr_arpcache_timeout_round env' depth (shared t1) = Inl f) \<or>
    (\<exists>sr' new. run_threads depth t (body @ [(env, Main_Free)]) = Some (Inr \<lparr>shared = sr', pc = Idle\<rparr>) \<and>
      sock_out sr' = sock_out (shared t) @ new \<and> subseq (deliveries (shared t) sha pkts) new)"
proof -
  have t: "t = \<lparr>shared = shared t, pc = Draining a sha pkts\<rparr>" using assms(3) by (cases t) simp
  have "threads_ok \<lparr>shared = shared t, pc = Draining a sha pkts\<rparr>" using reachable_ok [OF assms(1,2)] t by simp
  from drain_body [OF this assms(4,5), of depth, folded t] show ?thesis
  proof (elim disjE exE conjE)
    fix sr' new
    assume "run_threads depth t body = Some (Inr \<lparr>shared = sr', pc = Draining a sha []\<rparr>)"
      "sock_out sr' = sock_out (shared t) @ new" "subseq (deliveries (shared t) sha pkts) new"
    then show ?thesis
      by (intro disjI2 exI [of _ "sr'\<lparr>cache := sr_arpreq_destroy (cache sr') a\<rparr>"] exI [of _ new]) (simp add: run_threads_append)
  qed blast
qed

theorem interleaved_delivery_witness:
  "\<exists>t a f sr' new. threads_reachable (example_router []) t \<and> pc t = Draining a [1, 2, 3, 4, 5, 6] [queued_packet f (if_name eth1)] \<and>
     run_threads 2 t [(good_env 12, Timeout_Round), (good_env 12, Main_Send), (good_env 13, Main_Free)] =
       Some (Inr \<lparr>shared = sr', pc = Idle\<rparr>) \<and>
     sock_out sr' = sock_out (shared t) @ new \<and>
     packet_message (delivered [1, 2, 3, 4, 5, 6] eth1 f) (strncpy (if_name eth1) 32) \<in> set new"
proof -
  obtain t a f where t: "threads_reachable (example_router []) t" "pc t = Draining a [1, 2, 3, 4, 5, 6] [queued_packet f (if_name eth1)]"
    "requests (cache (shared t)) = []" using draining_example by blast
  let ?b = "[(good_env 12, Timeout_Round), (good_env 12, Main_Send)]" and ?p = "queued_packet f (if_name eth1)"
  have ok: "sr_arpcache_timeout_round (good_env 12) 2 (shared t) \<noteq> Inl g" for g
    using t(3) by (simp add: sr_arpcache_timeout_round_def sr_arpcache_sweepreqs_def first_req_def expire_entries_def)
  have nofault: "\<not> (\<exists>pre env' post t1 g. ?b = pre @ (env', Timeout_Round) # post \<and> run_threads 2 t pre = Some (Inr t1) \<and>
      sr_arpcache_timeout_round env' 2 (shared t1) = Inl g)"
    using ok by (auto simp: Cons_eq_append_conv)
  obtain sr' new where r: "run_threads 2 t (?b @ [(good_env 13, Main_Free)]) = Some (Inr \<lparr>shared = sr', pc = Idle\<rparr>)"
    "sock_out sr' = sock_out (shared t) @ new" "subseq (deliveries (shared t) [1, 2, 3, 4, 5, 6] [?p]) new"
  proof -
    have "list_all (\<lambda>x. mem_ok (fst x)) ?b" "filter (\<lambda>act. act \<noteq> Timeout_Round) (map snd ?b) = replicate (length [?p]) Main_Send"
      by simp_all
    from interleaved_delivery [OF t(1) example_ifs t(2) this, of 2 "good_env 13"] nofault that show thesis by blast
  qed
  have "same_config (example_router []) (shared t)" using reachable_ok [OF t(1) example_ifs] by (simp add: evolves_def)
  from sr_get_interface_cong [OF same_configD(1) [OF this]] have "sr_get_interface (shared t) (pkt_iface ?p) = Some eth1"
    using example_interfaces(1) [of "[]"] sr_get_interface_name_cong [of "strncpy (if_name eth1) 32" "if_named ''eth1''" "example_router []"]
    by (simp add: eth1_def layout)
  then have "packet_message (delivered [1, 2, 3, 4, 5, 6] eth1 f) (strncpy (if_name eth1) 32) \<in> set new"
    using r(3) by (simp add: deliveries_def subseq_singleton_left)
  with t(1,2) r(1,2) show ?thesis by (intro exI) (auto simp del: run_threads.simps)
qed

end
