(* ===== verification/SR_Machine.thy ===== *)
theory SR_Machine
  imports SR_Threads
begin

text \<open>
  The handlers as the processor runs them: a stack of tasks, each of which is a part of the code between two calls
  of the mutually recursive functions.  \<open>task_step\<close> does one part and pushes what it calls; \<open>run_tasks\<close>
  repeats this until the stack is empty and has no bound, so that a recursion without end is a
  run without a value.  The theorem of this theory is that the functions of \<open>SR_Router\<close>, with a
  large enough nesting bound, and the runs of the stack have the same results.
\<close>

section \<open>Tasks\<close>

text \<open>
  \<open>Route\<close> carries the received packet and its interface when the failure of the route is to be
  reported; \<open>Giveup\<close> and \<open>Drain\<close> the packets the loops have not visited yet; \<open>Ask\<close> and \<open>Touch\<close> the
  time \<^verbatim>\<open>handle_arpreq\<close> has read.
\<close>

datatype task =
    Receive bytes bytes
  | Icmp_Error u8 u8 bytes u32
  | Route bytes "(bytes \<times> bytes) option"
  | Handle addr
  | Ask addr int
  | Touch addr int
  | Giveup addr "sr_packet list"
  | Learn bytes u32
  | Drain addr bytes "sr_packet list"
  | Round
  | Sweep "addr option"

definition arp_tasks :: "sr_env \<Rightarrow> sr_instance \<Rightarrow> bytes \<Rightarrow> bytes \<Rightarrow> fault + (task list \<times> sr_instance)" where
  "arp_tasks env sr packet interface =
     (if length packet < sizeof_eth + sizeof_arp then Inr ([], sr)
      else case get_arp packet sizeof_eth of Inl f \<Rightarrow> Inl f | Inr arp \<Rightarrow>
        if ntohs (ar_hrd arp) \<noteq> arp_hrd_ethernet \<or> ntohs (ar_pro arp) \<noteq> ethertype_ip then Inr ([], sr)
        else case sr_get_interface sr interface of None \<Rightarrow> Inr ([], sr) | Some recv_iface \<Rightarrow>
          let op = ntohs (ar_op arp) in
          if op = arp_op_request then
            (if ar_tip arp = if_ip recv_iface
             then (case send_arp_reply env sr arp recv_iface of Inl f \<Rightarrow> Inl f | Inr sr' \<Rightarrow> Inr ([], sr'))
             else Inr ([], sr))
          else if op = arp_op_reply then Inr ([Learn (ar_sha arp) (ar_sip arp)], sr)
          else Inr ([], sr))"

definition local_tasks :: "sr_env \<Rightarrow> bytes \<Rightarrow> sr_ip_hdr \<Rightarrow> nat \<Rightarrow> fault + task list" where
  "local_tasks env packet ip ip_hdr_len =
     (if ip_p ip = ip_protocol_icmp then
        let icmp_off = sizeof_eth + ip_hdr_len in
        if length packet < icmp_off + sizeof_t08 then Inr []
        else case get_t08 packet icmp_off of Inl f \<Rightarrow> Inl f | Inr icmp \<Rightarrow>
          if icmp_type icmp = 8 then
            (let icmp_len = length packet - icmp_off; orig = icmp_sum icmp in
             case put_t08 packet icmp_off (icmp\<lparr>icmp_sum := 0\<rparr>) of Inl f \<Rightarrow> Inl f | Inr zeroed \<Rightarrow>
               (case rd_bytes zeroed icmp_off icmp_len of Inl f \<Rightarrow> Inl f | Inr region \<Rightarrow>
                  if orig \<noteq> cksum region then Inr []
                  else if \<not> env_malloc env (length packet) then Inr []
                  else case echo_reply_frame packet of Inl f \<Rightarrow> Inl f | Inr buf \<Rightarrow> Inr [Route buf None]))
          else Inr []
      else Inr [])"

definition forward_tasks :: "sr_env \<Rightarrow> sr_instance \<Rightarrow> bytes \<Rightarrow> bytes \<Rightarrow> sr_ip_hdr \<Rightarrow> nat \<Rightarrow> fault + task list" where
  "forward_tasks env sr packet interface ip ip_hdr_len =
     (if ip_ttl ip \<le> 1 then Inr [Icmp_Error 11 0 packet (in_iface_ip sr interface)]
      else if \<not> env_malloc env (length packet) then Inr []
      else case put_ip_with_sum packet sizeof_eth ip_hdr_len (ip\<lparr>ip_ttl := ip_ttl ip - 1\<rparr>) of Inl f \<Rightarrow> Inl f
        | Inr frame \<Rightarrow> Inr [Route frame (Some (packet, interface))])"

definition ip_tasks :: "sr_env \<Rightarrow> sr_instance \<Rightarrow> bytes \<Rightarrow> bytes \<Rightarrow> fault + task list" where
  "ip_tasks env sr packet interface =
     (if length packet < sizeof_eth + sizeof_ip then Inr []
      else case get_ip packet sizeof_eth of Inl f \<Rightarrow> Inl f | Inr ip \<Rightarrow>
        let ip_hdr_len = unat (ip_hl ip) * 4 in
        if ip_hdr_len < sizeof_ip then Inr []
        else if length packet < sizeof_eth + ip_hdr_len then Inr []
        else if unat (ntohs (ip_len ip)) < ip_hdr_len then Inr []
        else case put_ip packet sizeof_eth (ip\<lparr>ip_sum := 0\<rparr>) of Inl f \<Rightarrow> Inl f | Inr zeroed \<Rightarrow>
          (case rd_bytes zeroed sizeof_eth ip_hdr_len of Inl f \<Rightarrow> Inl f | Inr hdr \<Rightarrow>
             if ip_sum ip \<noteq> cksum hdr then Inr []
             else case find_iface_for_ip sr (ip_dst ip) of
                 Some for_iface \<Rightarrow> local_tasks env packet ip ip_hdr_len
               | None \<Rightarrow> forward_tasks env sr packet interface ip ip_hdr_len))"

definition error_tasks :: "sr_env \<Rightarrow> sr_instance \<Rightarrow> u8 \<Rightarrow> u8 \<Rightarrow> bytes \<Rightarrow> u32 \<Rightarrow> fault + task list" where
  "error_tasks env sr type code orig src_ip_nbo =
     (if length orig < sizeof_eth + sizeof_ip then Inr []
      else case get_ip orig sizeof_eth of Inl f \<Rightarrow> Inl f | Inr orig_ip \<Rightarrow>
        let src = icmp_error_source sr orig_ip src_ip_nbo in
        if src = 0 then Inr []
        else if \<not> env_malloc env (sizeof_eth + sizeof_ip + sizeof_t11) then Inr []
        else (case icmp_error_frame orig_ip orig type code src of Inl f \<Rightarrow> Inl f | Inr buf \<Rightarrow> Inr [Route buf None]))"

text \<open>What a task does to the state, and the tasks it is replaced by.\<close>

definition stay :: "sr_instance \<Rightarrow> fault + task list \<Rightarrow> fault + (task list \<times> sr_instance)" where
  "stay sr r = (case r of Inl f \<Rightarrow> Inl f | Inr ts \<Rightarrow> Inr (ts, sr))"

definition go_on :: "task list \<Rightarrow> fault + sr_instance \<Rightarrow> fault + (task list \<times> sr_instance)" where
  "go_on ts r = (case r of Inl f \<Rightarrow> Inl f | Inr sr \<Rightarrow> Inr (ts, sr))"

definition receive_task :: "sr_env \<Rightarrow> sr_instance \<Rightarrow> bytes \<Rightarrow> bytes \<Rightarrow> fault + (task list \<times> sr_instance)" where
  "receive_task env sr packet interface =
     (if length packet < sizeof_eth then Inr ([], sr)
      else case ethertype packet of Inl f \<Rightarrow> Inl f | Inr etype \<Rightarrow>
        if etype = ethertype_arp then arp_tasks env sr packet interface
        else if etype = ethertype_ip then stay sr (ip_tasks env sr packet interface)
        else Inr ([], sr))"

definition route_task :: "sr_env \<Rightarrow> sr_instance \<Rightarrow> bytes \<Rightarrow> (bytes \<times> bytes) option \<Rightarrow> fault + (task list \<times> sr_instance)" where
  "route_task env sr frame origin =
     (case route_queue env sr frame of Inl f \<Rightarrow> Inl f
      | Inr None \<Rightarrow> Inr (case origin of None \<Rightarrow> [] | Some (packet, interface) \<Rightarrow>
          [Icmp_Error 3 0 packet (in_iface_ip sr interface)], sr)
      | Inr (Some (a, sr1)) \<Rightarrow> Inr ([Handle a], sr1))"

definition handle_task :: "sr_env \<Rightarrow> sr_instance \<Rightarrow> addr \<Rightarrow> fault + (task list \<times> sr_instance)" where
  "handle_task env sr a =
     (case deref_req (cache sr) a of Inl f \<Rightarrow> Inl f | Inr req \<Rightarrow>
        if env_time env - req_sent req < 1 then Inr ([], sr)
        else if 5 \<le> req_times_sent req then Inr ([Giveup a (req_packets req)], sr)
        else Inr ([Ask a (env_time env)], sr))"

definition ask_task :: "sr_env \<Rightarrow> sr_instance \<Rightarrow> addr \<Rightarrow> int \<Rightarrow> fault + (task list \<times> sr_instance)" where
  "ask_task env sr a now =
     (case deref_req (cache sr) a of Inl f \<Rightarrow> Inl f | Inr req \<Rightarrow>
        go_on [Touch a now] (case req_packets req of [] \<Rightarrow> Inr sr
          | pkt # _ \<Rightarrow> send_arp_request env sr (req_ip req) (pkt_iface pkt)))"

definition touch_task :: "sr_instance \<Rightarrow> addr \<Rightarrow> int \<Rightarrow> fault + (task list \<times> sr_instance)" where
  "touch_task sr a now =
     (case deref_req (cache sr) a of Inl f \<Rightarrow> Inl f | Inr _ \<Rightarrow>
        Inr ([], sr\<lparr>cache := (cache sr)\<lparr>requests := update_req (requests (cache sr)) a
          (\<lambda>r. r\<lparr>req_sent := now, req_times_sent := req_times_sent r + 1\<rparr>)\<rparr>\<rparr>))"

fun giveup_task :: "sr_instance \<Rightarrow> addr \<Rightarrow> sr_packet list \<Rightarrow> fault + (task list \<times> sr_instance)" where
  "giveup_task sr a [] =
     (case deref_req (cache sr) a of Inl f \<Rightarrow> Inl f
      | Inr _ \<Rightarrow> Inr ([], sr\<lparr>cache := sr_arpreq_destroy (cache sr) a\<rparr>))"
| "giveup_task sr a (pkt # pkts) =
     (case deref_req (cache sr) a of Inl f \<Rightarrow> Inl f | Inr _ \<Rightarrow>
        if length (pkt_buf pkt) < sizeof_eth + sizeof_ip then Inr ([Giveup a pkts], sr)
        else Inr ([Icmp_Error 3 1 (pkt_buf pkt) 0, Giveup a pkts], sr))"

definition learn_task :: "sr_env \<Rightarrow> sr_instance \<Rightarrow> bytes \<Rightarrow> u32 \<Rightarrow> fault + (task list \<times> sr_instance)" where
  "learn_task env sr sha sip =
     (let (req, c) = sr_arpcache_insert env (cache sr) sha sip in
      Inr (case req of None \<Rightarrow> [] | Some (a, r) \<Rightarrow> [Drain a sha (req_packets r)], sr\<lparr>cache := c\<rparr>))"

fun drain_task :: "sr_env \<Rightarrow> sr_instance \<Rightarrow> addr \<Rightarrow> bytes \<Rightarrow> sr_packet list \<Rightarrow> fault + (task list \<times> sr_instance)" where
  "drain_task env sr a sha [] = Inr ([], sr\<lparr>cache := sr_arpreq_destroy (cache sr) a\<rparr>)"
| "drain_task env sr a sha (pkt # pkts) = go_on [Drain a sha pkts] (drain_one env sr sha pkt)"

definition round_task :: "sr_env \<Rightarrow> sr_instance \<Rightarrow> fault + (task list \<times> sr_instance)" where
  "round_task env sr =
     (let c = expire_entries (env_time env) (cache sr) in Inr ([Sweep (first_req c)], sr\<lparr>cache := c\<rparr>))"

fun sweep_task :: "sr_instance \<Rightarrow> addr option \<Rightarrow> fault + (task list \<times> sr_instance)" where
  "sweep_task sr None = Inr ([], sr)"
| "sweep_task sr (Some req) =
     (case deref_req (cache sr) req of Inl f \<Rightarrow> Inl f
      | Inr _ \<Rightarrow> Inr ([Handle req, Sweep (next_req (requests (cache sr)) req)], sr))"

fun task_step :: "sr_env \<Rightarrow> sr_instance \<Rightarrow> task \<Rightarrow> fault + (task list \<times> sr_instance)" where
  "task_step env sr (Receive packet interface) = receive_task env sr packet interface"
| "task_step env sr (Icmp_Error type code orig src) = stay sr (error_tasks env sr type code orig src)"
| "task_step env sr (Route frame origin) = route_task env sr frame origin"
| "task_step env sr (Handle a) = handle_task env sr a"
| "task_step env sr (Ask a now) = ask_task env sr a now"
| "task_step env sr (Touch a now) = touch_task sr a now"
| "task_step env sr (Giveup a pkts) = giveup_task sr a pkts"
| "task_step env sr (Learn sha sip) = learn_task env sr sha sip"
| "task_step env sr (Drain a sha pkts) = drain_task env sr a sha pkts"
| "task_step env sr Round = round_task env sr"
| "task_step env sr (Sweep cur) = sweep_task sr cur"

lemmas task_defs [simp] = receive_task_def route_task_def handle_task_def ask_task_def touch_task_def learn_task_def round_task_def

partial_function (option) run_tasks :: "sr_env \<Rightarrow> task list \<Rightarrow> sr_instance \<Rightarrow> (fault + sr_instance) option" where
  "run_tasks env ts sr =
     (case ts of [] \<Rightarrow> Some (Inr sr) | t # us \<Rightarrow>
        (case task_step env sr t of Inl f \<Rightarrow> Some (Inl f) | Inr (vs, sr') \<Rightarrow> run_tasks env (vs @ us) sr'))"

lemma run_Nil [simp]: "run_tasks env [] sr = Some (Inr sr)"
  by (simp add: run_tasks.simps)

lemma run_Cons:
  "run_tasks env (t # us) sr =
     (case task_step env sr t of Inl f \<Rightarrow> Some (Inl f) | Inr (vs, sr') \<Rightarrow> run_tasks env (vs @ us) sr')"
  by (subst run_tasks.simps) simp

section \<open>The handlers are runs\<close>

text \<open>What is left to do after a result: nothing when it is a fault.\<close>

definition then_run :: "sr_env \<Rightarrow> task list \<Rightarrow> fault + sr_instance \<Rightarrow> (fault + sr_instance) option" where
  "then_run env us r = (case r of Inl f \<Rightarrow> Some (Inl f) | Inr sr \<Rightarrow> run_tasks env us sr)"

lemma then_run_simps [simp]: "then_run env us (Inl f) = Some (Inl f)" "then_run env us (Inr sr) = run_tasks env us sr"
  by (simp_all add: then_run_def)

lemma send_arp_request_cache: "send_arp_request env sr ip name = Inr sr' \<Longrightarrow> cache sr' = cache sr"
  by (auto simp: send_arp_request_def dest: sr_send_packet_frame(2) split: option.splits if_splits sum.splits)

text \<open>The contract of the inner \<^verbatim>\<open>handle_arpreq\<close>: unless it runs out of its bound, it is what the stack does.\<close>

locale handler_runs =
  fixes env :: sr_env and handle :: arpreq_handler
  assumes handle_run: "handle sr a \<noteq> Inl OutOfFuel \<Longrightarrow> run_tasks env (Handle a # us) sr = then_run env us (handle sr a)"
begin

definition after_route :: "(bytes \<times> bytes) option \<Rightarrow> fault + (int \<times> sr_instance) \<Rightarrow> task list \<Rightarrow> (fault + sr_instance) option" where
  "after_route origin r us =
     (case r of Inl f \<Rightarrow> Some (Inl f) | Inr (rc, sr) \<Rightarrow>
        (case origin of Some (packet, interface) \<Rightarrow>
             if rc < 0 then run_tasks env (Icmp_Error 3 0 packet (in_iface_ip sr interface) # us) sr else run_tasks env us sr
           | None \<Rightarrow> run_tasks env us sr))"

lemma route_run:
  assumes "route_and_send_with handle env sr frame \<noteq> Inl OutOfFuel"
  shows "run_tasks env (Route frame origin # us) sr = after_route origin (route_and_send_with handle env sr frame) us"
proof (cases "route_queue env sr frame")
  case (Inr x)
  show ?thesis
  proof (cases x)
    case (Some y)
    obtain a sr1 where y: "y = (a, sr1)" by fastforce
    then have "handle sr1 a \<noteq> Inl OutOfFuel" using assms Inr Some by (auto simp: route_and_send_halves split: sum.splits)
    from handle_run [OF this] show ?thesis using Inr Some y
      by (simp add: run_Cons [of env "Route _ _"] after_route_def route_and_send_halves split: sum.split option.split)
  qed (use Inr in \<open>simp add: run_Cons [of env "Route _ _"] after_route_def route_and_send_halves split: option.split\<close>)
qed (simp add: run_Cons [of env "Route _ _"] after_route_def route_and_send_halves)

lemma error_run:
  "send_icmp_error_with handle env sr type code orig src \<noteq> Inl OutOfFuel \<Longrightarrow>
     run_tasks env (Icmp_Error type code orig src # us) sr = then_run env us (send_icmp_error_with handle env sr type code orig src)"
  using route_run [of sr _ None us]
  by (auto simp: run_Cons [of env "Icmp_Error _ _ _ _"] send_icmp_error_with_def error_tasks_def stay_def after_route_def Let_def
      split: sum.splits)

lemma loop_run:
  "unreachable_loop handle env sr a pkts \<noteq> Inl OutOfFuel \<Longrightarrow>
     run_tasks env (Giveup a pkts # us) sr = then_run env (Giveup a [] # us) (unreachable_loop handle env sr a pkts)"
proof (induction pkts arbitrary: sr)
  case (Cons p pkts)
  show ?case
  proof (cases "length (pkt_buf p) < sizeof_eth + sizeof_ip")
    case True
    with Cons show ?thesis by (auto simp: run_Cons [of env "Giveup _ (_ # _)"] split: sum.splits)
  next
    case False
    show ?thesis
    proof (cases "deref_req (cache sr) a")
      case (Inr r)
      then have "send_icmp_error_with handle env sr 3 1 (pkt_buf p) 0 \<noteq> Inl OutOfFuel" using Cons.prems False by auto
      from error_run [OF this] Cons Inr False show ?thesis
        by (auto simp: run_Cons [of env "Giveup _ (_ # _)"] split: sum.splits)
    qed (simp add: run_Cons)
  qed
qed simp

lemma body_run:
  assumes "handle_arpreq_body handle env sr a \<noteq> Inl OutOfFuel"
  shows "run_tasks env (Handle a # us) sr = then_run env us (handle_arpreq_body handle env sr a)"
proof (cases "deref_req (cache sr) a")
  case (Inr req)
  consider "env_time env - req_sent req < 1" | "\<not> env_time env - req_sent req < 1" "5 \<le> req_times_sent req"
    | "\<not> env_time env - req_sent req < 1" "\<not> 5 \<le> req_times_sent req" by blast
  then show ?thesis
  proof cases
    case 2
    then have "unreachable_loop handle env sr a (req_packets req) \<noteq> Inl OutOfFuel"
      using assms Inr by (auto simp: handle_arpreq_body_def)
    from loop_run [OF this] 2 Inr show ?thesis
      by (simp add: handle_arpreq_body_def run_Cons [of env "Handle _"] run_Cons [of env "Giveup _ []"] split: sum.split)
  next
    case 3
    have touch: "run_tasks env (Touch a (env_time env) # us) sr1 = run_tasks env us (sr1\<lparr>cache := (cache sr1)\<lparr>requests :=
        update_req (requests (cache sr1)) a (\<lambda>r. r\<lparr>req_sent := env_time env, req_times_sent := req_times_sent r + 1\<rparr>)\<rparr>\<rparr>)"
      if "cache sr1 = cache sr" for sr1
      using that Inr by (simp add: run_Cons)
    show ?thesis
    proof (cases "req_packets req")
      case (Cons p ps)
      then show ?thesis using 3 Inr touch
        by (auto simp: handle_arpreq_body_def run_Cons [of env "Handle _"] run_Cons [of env "Ask _ _"] go_on_def
            split: sum.split dest: send_arp_request_cache)
    qed (use 3 Inr touch in \<open>simp add: handle_arpreq_body_def run_Cons [of env "Handle _"] run_Cons [of env "Ask _ _"] go_on_def\<close>)
  qed (use Inr in \<open>simp add: handle_arpreq_body_def run_Cons\<close>)
qed (simp add: handle_arpreq_body_def run_Cons)

end

lemma handle_arpreq_runs: "handler_runs env (handle_arpreq env depth)"
proof (induction depth)
  case 0
  show ?case by unfold_locales simp
next
  case (Suc depth)
  show ?case using handler_runs.body_run [OF Suc] by unfold_locales simp
qed

interpretation hr: handler_runs env "handle_arpreq env depth" for env depth
  by (rule handle_arpreq_runs)

section \<open>Frames and rounds are runs\<close>

definition then_tasks :: "sr_env \<Rightarrow> task list \<Rightarrow> sr_instance \<Rightarrow> fault + task list \<Rightarrow> (fault + sr_instance) option" where
  "then_tasks env us sr r = (case r of Inl f \<Rightarrow> Some (Inl f) | Inr ts \<Rightarrow> run_tasks env (ts @ us) sr)"

lemma then_tasks_simps [simp]:
  "then_tasks env us sr (Inl f) = Some (Inl f)" "then_tasks env us sr (Inr ts) = run_tasks env (ts @ us) sr"
  by (simp_all add: then_tasks_def)

lemma then_tasks_stay:
  "(case stay sr r of Inl f \<Rightarrow> Some (Inl f) | Inr (ts, sr') \<Rightarrow> run_tasks env (ts @ us) sr') = then_tasks env us sr r"
  by (cases r) (simp_all add: stay_def)

lemmas run_route = hr.route_run [folded route_and_send_def]
lemmas run_error = hr.error_run [folded send_icmp_error_def]

lemma run_local:
  assumes "handle_local_ip env depth sr packet ip n \<noteq> Inl OutOfFuel"
  shows "then_tasks env us sr (local_tasks env packet ip n) =
    then_run env us (handle_local_ip env depth sr packet ip n)"
  using assms run_route [where env = env and depth = depth and origin = None and us = us]
  by (auto simp: handle_local_ip_def local_tasks_def send_icmp_echo_reply_def hr.after_route_def Let_def split: sum.splits)

lemma run_forward:
  assumes "forward_ip env depth sr packet interface ip n \<noteq> Inl OutOfFuel"
  shows "then_tasks env us sr (forward_tasks env sr packet interface ip n) =
    then_run env us (forward_ip env depth sr packet interface ip n)"
  using assms run_route [where env = env and depth = depth and origin = "Some (packet, interface)" and us = us] run_error [where env = env and depth = depth]
  by (auto simp: forward_ip_def forward_tasks_def hr.after_route_def split: sum.splits if_splits)

lemma run_ip:
  "handle_ip_packet env depth sr packet interface \<noteq> Inl OutOfFuel \<Longrightarrow>
     then_tasks env us sr (ip_tasks env sr packet interface) =
       then_run env us (handle_ip_packet env depth sr packet interface)"
  using run_local [of env depth sr packet _ _ us] run_forward [of env depth sr packet interface _ _ us]
  by (auto simp: handle_ip_packet_def ip_tasks_def Let_def split: sum.splits option.splits)

lemma run_drain_tasks:
  "run_tasks env (Drain a sha pkts # us) sr = then_run env us (case drain_packets env sr sha pkts of Inl f \<Rightarrow> Inl f
     | Inr sr2 \<Rightarrow> Inr (sr2\<lparr>cache := sr_arpreq_destroy (cache sr2) a\<rparr>))"
  by (induction pkts arbitrary: sr)
    (simp_all add: run_Cons [of env "Drain _ _ _"] go_on_def drain_packets_Cons del: drain_packets.simps(2) split: sum.split)

lemma run_arp:
  "(case arp_tasks env sr packet interface of Inl f \<Rightarrow> Some (Inl f) | Inr (ts, sr') \<Rightarrow> run_tasks env (ts @ us) sr') =
     then_run env us (handle_arp_packet env sr packet interface)"
  by (auto simp: arp_tasks_def handle_arp_packet_def run_Cons [of env "Learn _ _"] run_drain_tasks Let_def
      split: sum.split option.split prod.split)

lemma run_receive:
  assumes "sr_handlepacket env depth sr packet interface \<noteq> Inl OutOfFuel"
  shows "run_tasks env (Receive packet interface # us) sr = then_run env us (sr_handlepacket env depth sr packet interface)"
proof (cases "ethertype packet")
  case (Inr etype)
  with assms run_arp [of env us sr packet interface] run_ip [of env depth sr packet interface us] show ?thesis
    by (auto simp: run_Cons [of env "Receive _ _"] sr_handlepacket_def then_tasks_stay split: if_splits)
qed (simp add: run_Cons sr_handlepacket_def)

lemma run_sweep:
  "sweep_walk env depth visits sr cur \<noteq> Inl OutOfFuel \<Longrightarrow>
     run_tasks env (Sweep cur # us) sr = then_run env us (sweep_walk env depth visits sr cur)"
proof (induction env depth visits sr cur rule: sweep_walk.induct)
  case (3 env depth visits sr req)
  show ?case
  proof (cases "deref_req (cache sr) req")
    case (Inr r)
    then have "handle_arpreq env depth sr req \<noteq> Inl OutOfFuel" using 3(2) by (auto simp: Let_def)
    from hr.handle_run [OF this] 3 Inr show ?thesis
      by (auto simp: run_Cons [of env "Sweep (Some _)"] Let_def split: sum.splits)
  qed (simp add: run_Cons)
qed (simp_all add: run_Cons)

lemma run_round:
  "sr_arpcache_timeout_round env depth sr \<noteq> Inl OutOfFuel \<Longrightarrow>
     run_tasks env (Round # us) sr = then_run env us (sr_arpcache_timeout_round env depth sr)"
  using run_sweep [of env depth] by (simp add: run_Cons [of env Round] sr_arpcache_timeout_round_def sr_arpcache_sweepreqs_def Let_def)

section \<open>Runs are handlers\<close>

text \<open>The function each task stands for, with a nesting bound and a bound on the visits of the sweeper.\<close>

fun task_sem :: "sr_env \<Rightarrow> nat \<Rightarrow> nat \<Rightarrow> sr_instance \<Rightarrow> task \<Rightarrow> fault + sr_instance" where
  "task_sem env d v sr (Receive packet interface) = sr_handlepacket env d sr packet interface"
| "task_sem env d v sr (Icmp_Error type code orig src) = send_icmp_error env d sr type code orig src"
| "task_sem env d v sr (Route frame origin) =
     (case route_and_send env d sr frame of Inl f \<Rightarrow> Inl f | Inr (rc, sr') \<Rightarrow>
        (case origin of None \<Rightarrow> Inr sr' | Some (packet, interface) \<Rightarrow>
           if rc < 0 then send_icmp_error env d sr' 3 0 packet (in_iface_ip sr' interface) else Inr sr'))"
| "task_sem env d v sr (Handle a) = handle_arpreq env d sr a"
| "task_sem env d v sr (Giveup a pkts) =
     (case unreachable_loop (handle_arpreq env d) env sr a pkts of Inl f \<Rightarrow> Inl f | Inr sr1 \<Rightarrow>
        map_sum id snd (task_step env sr1 (Giveup a [])))"
| "task_sem env d v sr (Ask a now) =
     (case task_step env sr (Ask a now) of Inl f \<Rightarrow> Inl f | Inr (_, sr1) \<Rightarrow> map_sum id snd (task_step env sr1 (Touch a now)))"
| "task_sem env d v sr (Touch a now) = map_sum id snd (task_step env sr (Touch a now))"
| "task_sem env d v sr (Learn sha sip) =
     (let (req, c) = sr_arpcache_insert env (cache sr) sha sip; sr1 = sr\<lparr>cache := c\<rparr>
      in case req of None \<Rightarrow> Inr sr1 | Some (a, r) \<Rightarrow>
        (case drain_packets env sr1 sha (req_packets r) of Inl f \<Rightarrow> Inl f
         | Inr sr2 \<Rightarrow> Inr (sr2\<lparr>cache := sr_arpreq_destroy (cache sr2) a\<rparr>)))"
| "task_sem env d v sr (Drain a sha pkts) =
     (case drain_packets env sr sha pkts of Inl f \<Rightarrow> Inl f
      | Inr sr2 \<Rightarrow> Inr (sr2\<lparr>cache := sr_arpreq_destroy (cache sr2) a\<rparr>))"
| "task_sem env d v sr Round =
     (let c = expire_entries (env_time env) (cache sr) in sweep_walk env d v (sr\<lparr>cache := c\<rparr>) (first_req c))"
| "task_sem env d v sr (Sweep cur) = sweep_walk env d v sr cur"

primrec tasks_sem :: "sr_env \<Rightarrow> nat \<Rightarrow> nat \<Rightarrow> sr_instance \<Rightarrow> task list \<Rightarrow> fault + sr_instance" where
  "tasks_sem env d v sr [] = Inr sr"
| "tasks_sem env d v sr (t # ts) = (case task_sem env d v sr t of Inl f \<Rightarrow> Inl f | Inr sr' \<Rightarrow> tasks_sem env d v sr' ts)"

lemma tasks_sem_append:
  "tasks_sem env d v sr (ts @ us) = (case tasks_sem env d v sr ts of Inl f \<Rightarrow> Inl f | Inr sr' \<Rightarrow> tasks_sem env d v sr' us)"
  by (induction ts arbitrary: sr) (simp_all split: sum.split)

lemma sweep_walk_fuel:
  "d \<le> d' \<Longrightarrow> v \<le> v' \<Longrightarrow> fuel_le (sweep_walk env d v sr cur) (sweep_walk env d' v' sr cur)"
proof (induction env d v sr cur arbitrary: v' rule: sweep_walk.induct)
  case (2 env d sr req)
  show ?case by (simp add: fuel_le_def)
next
  case (3 env d v sr req)
  then obtain w where w: "v' = Suc w" "v \<le> w" by (cases v') auto
  show ?case
  proof (cases "deref_req (cache sr) req")
    case (Inr r)
    note IH = 3(1) [OF Inr refl _ 3(2) w(2)]
    show ?thesis
    proof (cases "handle_arpreq env d sr req")
      case (Inl f)
      then have "f = OutOfFuel \<or> handle_arpreq env d' sr req = Inl f"
        using handle_arpreq_fuel [OF 3(2), of env sr req] by (auto simp: fuel_le_def)
      with Inl Inr w(1) show ?thesis by (auto simp: Let_def fuel_le_def)
    next
      case (Inr s1)
      then have "handle_arpreq env d' sr req = Inr s1"
        using handle_arpreq_fuel [OF 3(2), of env sr req] by (auto simp: fuel_le_def)
      with IH [OF Inr] \<open>deref_req (cache sr) req = Inr r\<close> Inr w(1) show ?thesis by (simp add: Let_def)
    qed
  qed (simp add: w(1))
qed simp

lemma task_sem_fuel:
  assumes "d \<le> d'" "v \<le> v'"
  shows "fuel_le (task_sem env d v sr t) (task_sem env d' v' sr t)"
proof -
  note h = handle_arpreq_fuel [OF assms(1)] and w = sweep_walk_fuel [OF assms]
  show ?thesis
    by (cases t; simp only: task_sem.simps route_and_send_def send_icmp_error_def Let_def)
      (intro fuel_le_intros fuel_le_refl send_icmp_error_fuel route_and_send_fuel unreachable_loop_fuel h w
        sr_handlepacket_fuel assms)+
qed

lemma tasks_sem_fuel:
  "d \<le> d' \<Longrightarrow> v \<le> v' \<Longrightarrow> fuel_le (tasks_sem env d v sr ts) (tasks_sem env d' v' sr ts)"
  by (induction ts arbitrary: sr) (simp_all add: fuel_le_bind task_sem_fuel)

text \<open>One step with the bounds of what follows is at most the function with larger bounds.\<close>

lemma local_fault: "local_tasks env packet ip n = Inl f \<Longrightarrow> handle_local_ip env d sr packet ip n = Inl f"
  by (auto simp: handle_local_ip_def local_tasks_def send_icmp_echo_reply_def Let_def split: if_splits sum.splits)

lemma forward_fault: "forward_tasks env sr packet interface ip n = Inl f \<Longrightarrow> forward_ip env d sr packet interface ip n = Inl f"
  by (auto simp: forward_ip_def forward_tasks_def split: if_splits sum.splits)

lemma local_sem:
  "local_tasks env packet ip n = Inr us \<Longrightarrow> tasks_sem env d v sr us = handle_local_ip env d sr packet ip n"
  by (auto simp: handle_local_ip_def local_tasks_def send_icmp_echo_reply_def Let_def split: if_splits sum.splits)

lemma forward_sem:
  "forward_tasks env sr packet interface ip n = Inr us \<Longrightarrow> tasks_sem env d v sr us = forward_ip env d sr packet interface ip n"
  by (auto simp: forward_ip_def forward_tasks_def split: if_splits sum.splits)

lemma ip_sem:
  "ip_tasks env sr packet interface = Inr us \<Longrightarrow> tasks_sem env d v sr us = handle_ip_packet env d sr packet interface"
  by (auto simp: handle_ip_packet_def ip_tasks_def Let_def local_sem forward_sem split: if_splits sum.splits option.splits)

lemma arp_sem:
  "arp_tasks env sr packet interface = Inr (us, sr') \<Longrightarrow> tasks_sem env d v sr' us = handle_arp_packet env sr packet interface"
  by (auto simp: handle_arp_packet_def arp_tasks_def Let_def split: if_splits sum.splits option.splits prod.splits)

lemma receive_sem:
  "task_step env sr (Receive packet interface) = Inr (us, sr') \<Longrightarrow>
     tasks_sem env d v sr' us = sr_handlepacket env d sr packet interface"
  by (auto simp: sr_handlepacket_def stay_def ip_sem arp_sem split: if_splits sum.splits)

lemma handle_sem:
  "task_step env sr (Handle a) = Inr (us, sr') \<Longrightarrow> tasks_sem env d v sr' us = handle_arpreq env (Suc d) sr a"
  by (auto simp: handle_arpreq_body_def go_on_def send_arp_request_cache split: if_splits sum.splits option.splits list.splits)

lemma giveup_sem:
  "task_step env sr (Giveup a pkts) = Inr (us, sr') \<Longrightarrow> tasks_sem env d v sr' us = task_sem env d v sr (Giveup a pkts)"
  by (cases pkts) (auto simp: send_icmp_error_def split: if_splits sum.splits)

lemma drain_sem:
  "task_step env sr (Drain a sha pkts) = Inr (us, sr') \<Longrightarrow> tasks_sem env d v sr' us = task_sem env d v sr (Drain a sha pkts)"
  by (cases pkts) (auto simp: go_on_def drain_packets_Cons simp del: drain_packets.simps(2) split: sum.splits)

lemma sweep_sem:
  "task_step env sr (Sweep cur) = Inr (us, sr') \<Longrightarrow> tasks_sem env d v sr' us = task_sem env d (Suc v) sr (Sweep cur)"
  by (cases cur) (auto simp: Let_def split: sum.splits)

lemma error_sem:
  "task_step env sr (Icmp_Error type code orig src) = Inr (us, sr') \<Longrightarrow>
     tasks_sem env d v sr' us = send_icmp_error env d sr type code orig src"
  by (auto simp: send_icmp_error_def send_icmp_error_with_def error_tasks_def stay_def route_and_send_def Let_def
      split: if_splits sum.splits)

lemma route_sem:
  "task_step env sr (Route frame origin) = Inr (us, sr') \<Longrightarrow>
     tasks_sem env d v sr' us = task_sem env d v sr (Route frame origin)"
  by (auto simp: route_and_send_def route_and_send_halves split: sum.splits option.splits)

lemma learn_sem:
  "task_step env sr (Learn sha sip) = Inr (us, sr') \<Longrightarrow> tasks_sem env d v sr' us = task_sem env d v sr (Learn sha sip)"
  by (auto simp: Let_def split: prod.splits option.splits sum.splits)

lemma ask_sem:
  "task_step env sr (Ask a now) = Inr (us, sr') \<Longrightarrow> tasks_sem env d v sr' us = task_sem env d v sr (Ask a now)"
  by (auto simp: go_on_def split: sum.splits)

lemma touch_sem:
  "task_step env sr (Touch a now) = Inr (us, sr') \<Longrightarrow> tasks_sem env d v sr' us = task_sem env d v sr (Touch a now)"
  by (auto split: sum.splits)

lemma round_sem: "task_step env sr Round = Inr (us, sr') \<Longrightarrow> tasks_sem env d v sr' us = task_sem env d v sr Round"
  by (auto simp: Let_def split: sum.splits)

text \<open>All tasks but \<^verbatim>\<open>handle_arpreq\<close> and the step of the sweeper leave the bounds as they are.\<close>

lemma step_sem_bounds:
  assumes "task_step env sr t = Inr (us, sr')"
  obtains d1 v1 where "d1 \<le> Suc d" "v1 \<le> Suc v" "tasks_sem env d v sr' us = task_sem env d1 v1 sr t"
proof (cases t)
  case (Handle a)
  have "task_step env sr (Handle a) = Inr (us, sr')" using assms Handle by simp
  from handle_sem [OF this] Handle that [of "Suc d" v] show thesis by simp
next
  case (Sweep cur)
  have "task_step env sr (Sweep cur) = Inr (us, sr')" using assms Sweep by simp
  from sweep_sem [OF this, of d v] Sweep that [of d "Suc v"] show thesis by simp
next
  case (Receive packet interface)
  have "task_step env sr (Receive packet interface) = Inr (us, sr')" using assms Receive by simp
  from receive_sem [OF this] Receive that [of d v] show thesis by simp
next
  case (Icmp_Error type code orig src)
  have "task_step env sr (Icmp_Error type code orig src) = Inr (us, sr')" using assms Icmp_Error by simp
  from error_sem [OF this] Icmp_Error that [of d v] show thesis by simp
qed (use assms that [of d v] route_sem giveup_sem ask_sem touch_sem learn_sem drain_sem round_sem in \<open>metis le_SucI order_refl\<close>)+

lemma step_sem:
  assumes "task_step env sr t = Inr (us, sr')"
  shows "fuel_le (tasks_sem env d v sr' us) (task_sem env (Suc d) (Suc v) sr t)"
  using step_sem_bounds [OF assms, of d v] task_sem_fuel [of _ "Suc d" _ "Suc v" env sr t] by metis

lemma arp_fault: "arp_tasks env sr packet interface = Inl f \<Longrightarrow> handle_arp_packet env sr packet interface = Inl f"
  by (auto simp: handle_arp_packet_def arp_tasks_def Let_def split: if_splits sum.splits option.splits)

lemma ip_fault: "ip_tasks env sr packet interface = Inl f \<Longrightarrow> handle_ip_packet env d sr packet interface = Inl f"
  by (auto simp: handle_ip_packet_def ip_tasks_def Let_def local_fault forward_fault split: if_splits sum.splits option.splits)

lemma step_fault:
  assumes "task_step env sr t = Inl f"
  shows "task_sem env (Suc d) (Suc v) sr t = Inl f"
proof (cases t)
  case (Receive packet interface)
  then show ?thesis using assms
    by (auto simp: sr_handlepacket_def stay_def arp_fault ip_fault split: if_splits sum.splits)
next
  case (Giveup a pkts)
  then show ?thesis using assms by (cases pkts) (auto split: if_splits sum.splits)
next
  case (Drain a sha pkts)
  then show ?thesis using assms
    by (cases pkts) (auto simp: go_on_def drain_packets_Cons simp del: drain_packets.simps(2) split: sum.splits)
next
  case (Sweep cur)
  then show ?thesis using assms by (cases cur) (auto split: sum.splits)
qed (use assms in \<open>auto simp: send_icmp_error_def send_icmp_error_with_def error_tasks_def stay_def route_and_send_def
    route_and_send_halves handle_arpreq_body_def Let_def split: if_splits sum.splits option.splits prod.splits\<close>)

text \<open>No task fails for want of a bound.\<close>

lemma access_faults:
  "rd_bytes buf off n = Inl f \<Longrightarrow> f \<noteq> OutOfFuel" "get_struct n of_bytes buf off = Inl f \<Longrightarrow> f \<noteq> OutOfFuel"
  "put_struct to_bytes buf off h = Inl f \<Longrightarrow> f \<noteq> OutOfFuel" "put_ip_with_sum buf off n ip = Inl f \<Longrightarrow> f \<noteq> OutOfFuel"
  "put_t08_with_sum buf off icmp = Inl f \<Longrightarrow> f \<noteq> OutOfFuel"
  by (auto simp: rd_bytes_def get_struct_def put_struct_def wr_bytes_def put_ip_with_sum_def put_t08_with_sum_def
      split: if_splits sum.splits)

lemma frame_faults:
  "arp_frame dhost arp = Inl f \<Longrightarrow> f \<noteq> OutOfFuel" "echo_reply_frame orig = Inl f \<Longrightarrow> f \<noteq> OutOfFuel"
  "icmp_error_frame ip orig type code src = Inl f \<Longrightarrow> f \<noteq> OutOfFuel" "ethertype packet = Inl f \<Longrightarrow> f \<noteq> OutOfFuel"
  by (auto simp: arp_frame_def echo_reply_frame_def icmp_error_frame_def ethertype_def Let_def dest: access_faults split: sum.splits)

lemma operation_faults:
  "sr_send_packet env sr buf iface = Inl f \<Longrightarrow> f \<noteq> OutOfFuel" "deref_req c a = Inl f \<Longrightarrow> f \<noteq> OutOfFuel"
  "sr_arpcache_queuereq env c ip packet iface = Inl f \<Longrightarrow> f \<noteq> OutOfFuel"
  by (auto simp: deref_req_Inl sr_arpcache_queuereq_def add_req_def Let_def dest: sr_send_packet_fault
      split: if_splits sum.splits option.splits)

lemmas no_fuel_faults = access_faults frame_faults operation_faults

lemma send_faults:
  "send_arp_reply env sr arp i = Inl f \<Longrightarrow> f \<noteq> OutOfFuel" "send_arp_request env sr ip name = Inl f \<Longrightarrow> f \<noteq> OutOfFuel"
  "drain_one env sr sha pkt = Inl f \<Longrightarrow> f \<noteq> OutOfFuel" "route_queue env sr frame = Inl f \<Longrightarrow> f \<noteq> OutOfFuel"
  by (auto simp: send_arp_reply_def send_arp_request_def drain_one_def route_queue_def Let_def
      dest: no_fuel_faults split: if_splits sum.splits option.splits)

lemma tasks_faults:
  "arp_tasks env sr packet interface = Inl f \<Longrightarrow> f \<noteq> OutOfFuel" "local_tasks env packet ip n = Inl f \<Longrightarrow> f \<noteq> OutOfFuel"
  "forward_tasks env sr packet interface ip n = Inl f \<Longrightarrow> f \<noteq> OutOfFuel"
  "error_tasks env sr type code orig src = Inl f \<Longrightarrow> f \<noteq> OutOfFuel"
  by (auto simp: arp_tasks_def local_tasks_def forward_tasks_def error_tasks_def Let_def
      dest: no_fuel_faults send_faults split: if_splits sum.splits option.splits)

lemma ip_tasks_fault: "ip_tasks env sr packet interface = Inl f \<Longrightarrow> f \<noteq> OutOfFuel"
  by (auto simp: ip_tasks_def Let_def dest: no_fuel_faults tasks_faults split: if_splits sum.splits option.splits)

lemma task_step_fault:
  assumes "task_step env sr t = Inl f"
  shows "f \<noteq> OutOfFuel"
proof (cases t)
  case (Giveup a pkts)
  then show ?thesis using assms by (cases pkts) (auto dest: no_fuel_faults split: sum.splits if_splits)
next
  case (Drain a sha pkts)
  then show ?thesis using assms by (cases pkts) (auto simp: go_on_def dest: send_faults split: sum.splits)
next
  case (Sweep cur)
  then show ?thesis using assms by (cases cur) (auto dest: no_fuel_faults split: sum.splits)
qed (use assms in \<open>auto simp: stay_def go_on_def Let_def dest: no_fuel_faults send_faults tasks_faults ip_tasks_fault
    split: if_splits sum.splits option.splits list.splits prod.splits\<close>)

lemma run_sem:
  assumes "run_tasks env ts sr = Some r"
  shows "r \<noteq> Inl OutOfFuel \<and> (\<exists>d v. tasks_sem env d v sr ts = r)"
proof (induction rule: run_tasks.raw_induct [OF _ assms])
  case (1 run env ts sr r)
  show ?case
  proof (cases ts)
    case (Cons t us)
    show ?thesis
    proof (cases "task_step env sr t")
      case (Inl f)
      then have "tasks_sem env (Suc 0) (Suc 0) sr ts = r" using 1(2) Cons Inl step_fault [OF Inl] by auto
      then show ?thesis using 1(2) Cons Inl task_step_fault [OF Inl] by auto
    next
      case (Inr x)
      obtain vs sr' where x: "x = (vs, sr')" by fastforce
      then obtain d v where r: "r \<noteq> Inl OutOfFuel" "tasks_sem env d v sr' (vs @ us) = r" using 1 Cons Inr by fastforce
      then have "fuel_le r (tasks_sem env (Suc d) (Suc v) sr ts)"
        using step_sem [OF Inr [unfolded x], of d v] tasks_sem_fuel [of d "Suc d" v "Suc v" env _ us] Cons
        by (auto simp: tasks_sem_append intro!: fuel_le_bind)
      with r(1) show ?thesis by (metis fuel_le_def)
    qed
  qed (use 1 in auto)
qed

section \<open>The visits of the sweeper\<close>

text \<open>
  The queue only loses requests and gains new ones at its head, so the requests behind the one the sweeper visits are
  among those that were there when it started.
\<close>

lemma subseq_set: "subseq xs ys \<Longrightarrow> set xs \<subseteq> set ys"
  using list_emb_set [of "(=)" xs ys] by auto

lemma subseq_behind:
  assumes "subseq (p @ b # q) (xs @ b # ys)" "distinct (xs @ b # ys)"
  shows "subseq q ys"
proof -
  obtain us vs where 1: "xs @ b # ys = us @ vs" "subseq (b # q) vs" using list_emb_appendD [OF assms(1)] by blast
  obtain us2 vs2 where 2: "vs = us2 @ b # vs2" "subseq q vs2" using list_emb_ConsD [OF 1(2)] by auto
  have "xs @ b # ys = (us @ us2) @ b # vs2" using 1(1) 2(1) by simp
  then have "ys = vs2" using assms(2) by (metis append_Cons_eq_iff distinct.simps(2) distinct_append not_distinct_conv_prefix)
  then show ?thesis using 2(2) by simp
qed

lemma subseq_unlink: "subseq (map fst (unlink_req rs a)) (map fst rs)"
  by (induction rs a rule: unlink_req.induct) auto

lemma subseq_remove1: "subseq (map f (remove1 x xs)) (map f xs)"
  by (induction xs) auto

definition queue_order :: "sr_instance \<Rightarrow> sr_instance \<Rightarrow> bool" where
  "queue_order s t \<longleftrightarrow> next_addr (cache s) \<le> next_addr (cache t) \<and>
     (\<exists>new old. map fst (requests (cache t)) = new @ old \<and> list_all (\<lambda>a. next_addr (cache s) \<le> a) new \<and>
        subseq old (map fst (requests (cache s))))"

lemma queue_order_subseq:
  "next_addr (cache t) = next_addr (cache s) \<Longrightarrow> subseq (map fst (requests (cache t))) (map fst (requests (cache s))) \<Longrightarrow> queue_order s t"
  by (auto simp: queue_order_def intro: exI [of _ "[]"])

lemma queue_order_trans:
  assumes "queue_order s t" "queue_order t u"
  shows "queue_order s u"
proof -
  obtain new1 old1 where 1: "map fst (requests (cache t)) = new1 @ old1" "list_all (\<lambda>a. next_addr (cache s) \<le> a) new1"
    "subseq old1 (map fst (requests (cache s)))" "next_addr (cache s) \<le> next_addr (cache t)" using assms(1) by (auto simp: queue_order_def)
  obtain new2 old2 where 2: "map fst (requests (cache u)) = new2 @ old2" "list_all (\<lambda>a. next_addr (cache t) \<le> a) new2"
    "subseq old2 (new1 @ old1)" "next_addr (cache t) \<le> next_addr (cache u)" using assms(2) 1(1) by (auto simp: queue_order_def)
  from 2(3) obtain p q where pq: "old2 = p @ q" "subseq p new1" "subseq q old1" by (auto simp: subseq_append_iff)
  have "list_all (\<lambda>a. next_addr (cache s) \<le> a) (new2 @ p)"
    using 1(2,4) 2(2) subseq_set [OF pq(2)] by (auto simp: list_all_iff)
  moreover have "subseq q (map fst (requests (cache s)))" using subseq_order.order_trans [OF pq(3) 1(3)] .
  moreover have "map fst (requests (cache u)) = (new2 @ p) @ q" using 2(1) pq(1) by simp
  ultimately show ?thesis using 1(4) 2(4) unfolding queue_order_def by (meson order_trans)
qed

lemma queuereq_order:
  "sr_arpcache_queuereq env c ip frame name = Inr (a, c') \<Longrightarrow>
     next_addr c \<le> next_addr c' \<and> (\<exists>new. map fst (requests c') = new @ map fst (requests c) \<and> list_all (\<lambda>a. next_addr c \<le> a) new)"
  by (auto simp: sr_arpcache_queuereq_def add_req_def Let_def split: if_splits option.splits sum.splits prod.splits)

lemma insert_order:
  "sr_arpcache_insert env c mac ip = (req, c') \<Longrightarrow>
     next_addr c' = next_addr c \<and> subseq (map fst (requests c')) (map fst (requests c))"
  by (auto simp: sr_arpcache_insert_def detach_req_spec subseq_remove1 split: option.splits)

interpretation qo: operations queue_order
proof
  show "queue_order s u" if "queue_order s t" "queue_order t u" for s t u by (rule queue_order_trans [OF that])
  show "queue_order s t" if "sr_send_packet env s buf iface = Inr (rc, t)" for env s buf iface rc t
    using sr_send_packet_frame(2) [OF that] by (intro queue_order_subseq) simp_all
  show "queue_order s (s\<lparr>cache := c\<rparr>)" if "sr_arpcache_queuereq env (cache s) ip frame name = Inr (a, c)" for env s ip frame name a c
    using queuereq_order [OF that] by (auto simp: queue_order_def)
  show "queue_order s (s\<lparr>cache := c\<rparr>)" if "sr_arpcache_insert env (cache s) mac ip = (req, c)" for env s mac ip req c
    using insert_order [OF that] by (intro queue_order_subseq) simp_all
qed (auto simp: sr_arpreq_destroy_def expire_entries_def subseq_unlink intro!: queue_order_subseq)

lemma behind_shrinks:
  assumes "queue_order s t" "arpcache_wf (cache s)" "map fst (requests (cache s)) = xs @ b # ys"
    and "b \<in> set (map fst (requests (cache t)))"
  obtains p q where "map fst (requests (cache t)) = p @ b # q" "length q \<le> length ys"
proof -
  obtain new old where o: "map fst (requests (cache t)) = new @ old" "list_all (\<lambda>a. next_addr (cache s) \<le> a) new"
    "subseq old (map fst (requests (cache s)))" using assms(1) by (auto simp: queue_order_def)
  have "b \<in> set (map fst (requests (cache s)))" using assms(3) by simp
  then have "b < next_addr (cache s)" using assms(2) by (auto simp: arpcache_wf_def)
  then have "b \<in> set old" using assms(4) o(1,2) by (auto simp: list_all_iff)
  then obtain p q where pq: "old = p @ b # q" by (auto simp: in_set_conv_decomp)
  then have "subseq q ys" using subseq_behind [of p b q xs ys] o(3) wf_distinct [OF assms(2)] assms(3) by simp
  then show thesis using that [of "new @ p" q] o(1) pq list_emb_length [of "(=)" q ys] by simp
qed

lemma sweep_visits:
  assumes "sweep_walk env d v sr (Some a) \<noteq> Inl OutOfFuel" "sr_wf 34 sr" "map fst (requests (cache sr)) = xs @ a # ys" "length ys < n"
  shows "sweep_walk env d n sr (Some a) = sweep_walk env d v sr (Some a)"
  using assms
proof (induction v arbitrary: sr a xs ys n)
  case (Suc v)
  obtain k where n: "n = Suc k" "length ys \<le> k" using Suc.prems(4) by (cases n) auto
  have wf: "arpcache_wf (cache sr)" using Suc.prems(2) by (simp add: sr_wf_def)
  have nxt: "next_req (requests (cache sr)) a = (case ys of [] \<Rightarrow> None | y # _ \<Rightarrow> Some y)"
    by (rule next_req_links [OF Suc.prems(3) wf_distinct [OF wf]])
  have rest: "sweep_walk env d k s1 (next_req (requests (cache sr)) a) = sweep_walk env d v s1 (next_req (requests (cache sr)) a)"
    if h: "handle_arpreq env d sr a = Inr s1" and e: "sweep_walk env d v s1 (next_req (requests (cache sr)) a) \<noteq> Inl OutOfFuel" for s1
  proof (cases ys)
    case (Cons b ys')
    have s1: "sr_wf 34 s1" "queue_order sr s1"
      using handle_arpreq_keeps [of 34 sr env d a] qo.handlers(1) [of sr env d a] h Suc.prems(2) by (simp_all add: keeps_Inr)
    obtain j where k: "k = Suc j" using n(2) Cons by (cases k) auto
    show ?thesis
    proof (cases "b \<in> set (map fst (requests (cache s1)))")
      case True
      then obtain p q where "map fst (requests (cache s1)) = p @ b # q" "length q \<le> length ys'"
        using behind_shrinks [OF s1(2) wf, of "xs @ [a]" b ys'] Suc.prems(3) Cons by auto
      with Suc.IH [of s1 b p q k] e s1(1) nxt Cons n(2) show ?thesis by simp
    next
      case False
      then have "deref_req (cache s1) b = Inl UseAfterFree" by (simp add: deref_req_Inl map_of_eq_None_iff)
      with e nxt Cons k show ?thesis by (cases v) auto
    qed
  qed (simp add: nxt)
  show ?case using Suc.prems(1) rest by (auto simp: n(1) Let_def split: sum.split)
qed simp

lemma sweepreqs_visits:
  assumes "sweep_walk env d v sr (first_req (cache sr)) \<noteq> Inl OutOfFuel" "sr_wf 34 sr"
  shows "sr_arpcache_sweepreqs env d sr = sweep_walk env d v sr (first_req (cache sr))"
proof (cases "requests (cache sr)")
  case (Cons x rest)
  then have "first_req (cache sr) = Some (fst x)" by (cases x) (simp add: first_req_def)
  with sweep_visits [of env d v sr "fst x" "[]" "map fst rest" "length (requests (cache sr))"] assms Cons show ?thesis
    by (simp add: sr_arpcache_sweepreqs_def)
qed (simp add: sr_arpcache_sweepreqs_def first_req_def)

section \<open>The two agree\<close>

definition event_task :: "event \<Rightarrow> task" where
  "event_task ev = (case ev of Frame packet interface \<Rightarrow> Receive packet interface | Tick \<Rightarrow> Round)"

lemma round_visits:
  assumes "task_sem env d v sr Round \<noteq> Inl OutOfFuel" "sr_wf 34 sr"
  shows "sr_arpcache_timeout_round env d sr = task_sem env d v sr Round"
proof -
  let ?s = "sr\<lparr>cache := expire_entries (env_time env) (cache sr)\<rparr>"
  have "sr_wf 34 ?s" using assms(2) by (simp add: sr_wf_def expire_wf queued_ge_expire)
  with sweepreqs_visits [of env d v ?s] assms(1) show ?thesis by (simp add: sr_arpcache_timeout_round_def Let_def)
qed

text \<open>
  C10.  The bound on the nesting depth is only a device: the code run as a stack of tasks, which knows no bound,
  ends with a result exactly if the function of the model has that result for some depth, for received
  frames and for rounds of the timeout thread; when it has none for any depth the code does not end.
\<close>

theorem stack_runs_equal_handlers:
  assumes "sr_wf 34 sr"
  shows "(run_tasks env [event_task ev] sr = Some r \<longleftrightarrow> r \<noteq> Inl OutOfFuel \<and> (\<exists>depth. handle_event env depth sr ev = r)) \<and>
    (run_tasks env [event_task ev] sr = None \<longleftrightarrow> (\<forall>depth. handle_event env depth sr ev = Inl OutOfFuel))"
proof -
  have fwd: "run_tasks env [event_task ev] sr = Some (handle_event env depth sr ev)" if "handle_event env depth sr ev \<noteq> Inl OutOfFuel" for depth
    using run_receive [of env depth sr _ _ "[]"] run_round [of env depth sr "[]"] that
    by (auto simp: event_task_def handle_event_def then_run_def split: event.splits sum.splits)
  have bwd: "r \<noteq> Inl OutOfFuel \<and> (\<exists>depth. handle_event env depth sr ev = r)" if "run_tasks env [event_task ev] sr = Some r" for r
  proof -
    obtain d v where "r \<noteq> Inl OutOfFuel" "task_sem env d v sr (event_task ev) = r"
      using run_sem [OF \<open>run_tasks env [event_task ev] sr = Some r\<close>]
      by (auto split: sum.splits) (metis sum.exhaust)
    then show ?thesis using round_visits [OF _ assms, of env d v] by (auto simp: event_task_def handle_event_def split: event.splits)
  qed
  show ?thesis using fwd bwd by (metis option.distinct(1) option.exhaust)
qed

theorem stack_runs_equal_handlers_witness:
  "run_tasks (good_env 10) [Round] (example_router [(0, land_req)]) = None \<and>
   (\<exists>sr'. run_tasks (good_env 10) [Receive (sample_frame client server1 9) (if_named ''eth3'')] (example_router []) = Some (Inr sr'))"
proof
  let ?e = "example_router [(0, land_req)]"
  have wf: "sr_wf 42 ?e" by (simp add: example_wf land_req_def)
  have wf34: "sr_wf 34 ?e" using wf by (auto simp: sr_wf_def queued_ge_def)
  have cache: "?e\<lparr>cache := expire_entries 10 (cache ?e)\<rparr> = ?e"
    by (simp add: example_router_def expire_entries_def expire_entry_def empty_entry_def)
  have "handle_arpreq (good_env 10) depth ?e 0 = Inl OutOfFuel" for depth
    by (rule self_error_diverges [OF mem_ok_good_env wf, where r = land_req and qs = "[]"
        and p = "\<lparr>pkt_buf = sample_frame server1 server1 9, pkt_iface = if_named ''eth1''\<rparr>" and rest = "[]"])
      (simp_all add: land_req_def)
  then have "handle_event (good_env 10) depth ?e Tick = Inl OutOfFuel" for depth
    using cache by (simp add: handle_event_def sr_arpcache_timeout_round_def sr_arpcache_sweepreqs_def first_req_def deref_req_def Let_def)
  with stack_runs_equal_handlers [OF wf34, of "good_env 10" Tick] show "run_tasks (good_env 10) [Round] ?e = None"
    by (simp add: event_task_def)
next
  let ?e = "example_router []" and ?f = "sample_frame client server1 9"
  obtain sr' where "sr_handlepacket (good_env 10) 1 ?e ?f (if_named ''eth3'') = Inr sr'"
    using forward_effect [where env = "good_env 10" and interface = "if_named ''eth3''",
        OF mem_ok_good_env example_router_34 order_refl _ sample_frame_type sample_forward] by fastforce
  then have "handle_event (good_env 10) 1 ?e (Frame ?f (if_named ''eth3'')) = Inr sr'" by (simp add: handle_event_def)
  with stack_runs_equal_handlers [OF example_router_34(1), of "good_env 10" "Frame ?f (if_named ''eth3'')" "Inr sr'"]
  show "\<exists>sr'. run_tasks (good_env 10) [Receive ?f (if_named ''eth3'')] ?e = Some (Inr sr')"
    by (auto simp: event_task_def)
qed

end
