(* ===== verification/SR_Interleave.thy ===== *)
theory SR_Interleave
  imports SR_Machine
begin

text \<open>
  The two threads interleaved task by task.  Each thread has a stack of tasks; the steps of the main
  thread and of the timeout thread may follow one another in any order, except that a task of the main
  thread that takes the lock of the cache has to wait until the timeout thread has finished its
  round.  This is finer than \<open>SR_Threads\<close>: a round can be interrupted at every task, and so can
  \<^verbatim>\<open>handle_arpreq\<close>, which the main thread runs without the lock.
\<close>

section \<open>What a task keeps\<close>

context operations
begin

lemma route_queue_R: "route_queue env s frame = Inr (Some (a, s')) \<Longrightarrow> R s s'"
  by (auto simp: route_queue_def Let_def intro: R_queue split: if_splits sum.splits option.splits)

lemma step_result: "step s r \<Longrightarrow> r = Inr s' \<Longrightarrow> R s s'"
  by (simp add: step_Inr)

lemma arp_tasks_R: "arp_tasks env s packet interface = Inr (us, s') \<Longrightarrow> R s s'"
  by (auto simp: arp_tasks_def Let_def R_refl dest: step_result [OF arp_reply_step] split: if_splits sum.splits option.splits)

lemma drain_one_R: "drain_one env s sha p = Inr s' \<Longrightarrow> R s s'"
  by (rule step_result [OF drain_step [of s env sha "[p]", unfolded drain_one_single]])

lemma task_R:
  assumes "task_step env s t = Inr (us, s')"
  shows "R s s'"
proof (cases t)
  case (Ask a now)
  with assms show ?thesis
    by (auto simp: go_on_def R_refl dest: step_result [OF arp_request_step] split: sum.splits list.splits)
next
  case (Giveup a pkts)
  with assms show ?thesis by (cases pkts) (auto simp: R_refl R_destroy split: sum.splits if_splits)
next
  case (Learn sha sip)
  with assms show ?thesis using R_insert [of env s sha sip] by (auto simp: Let_def split: prod.splits)
next
  case (Drain a sha pkts)
  with assms show ?thesis by (cases pkts) (auto simp: go_on_def R_destroy intro: drain_one_R split: sum.splits)
next
  case (Sweep cur)
  with assms show ?thesis by (cases cur) (auto simp: R_refl split: sum.splits)
qed (use assms in \<open>auto simp: stay_def Let_def R_refl R_touch R_expire intro: route_queue_R arp_tasks_R
    split: if_splits sum.splits option.splits\<close>)

end

interpretation ev: operations evolves
proof
  show "evolves s t" if "sr_send_packet env s buf iface = Inr (rc, t)" for env s buf iface rc t
    using sr_send_packet_frame(1) [OF that] that
    by (auto simp: evolves_def sr_send_packet_def Let_def sr_log_packet_frame split: if_splits sum.splits)
qed (auto intro: evolves_trans)

lemma task_undisturbed: "task_step env s t = Inr (us, s') \<Longrightarrow> undisturbed s s'"
  using ev.task_R fa.task_R by (simp add: undisturbed_def)

section \<open>Well-formed tasks\<close>

text \<open>
  Frames in the hands of a task have the length the queue demands; the request whose frames are being sent is no
  longer in the queue.
\<close>

fun task_ok :: "nat \<Rightarrow> sr_instance \<Rightarrow> task \<Rightarrow> bool" where
  "task_ok m sr (Receive packet interface) \<longleftrightarrow> m \<le> length packet \<or> length packet < 34"
| "task_ok m sr (Icmp_Error type code orig src) \<longleftrightarrow> m \<le> length orig"
| "task_ok m sr (Route frame origin) \<longleftrightarrow> m \<le> length frame \<and> (\<forall>x. origin = Some x \<longrightarrow> m \<le> length (fst x))"
| "task_ok m sr (Giveup a pkts) \<longleftrightarrow> list_all (\<lambda>p. m \<le> length (pkt_buf p)) pkts"
| "task_ok m sr (Learn sha sip) \<longleftrightarrow> length sha = 6"
| "task_ok m sr (Drain a sha pkts) \<longleftrightarrow> detached a sr \<and> length sha = 6 \<and> list_all (\<lambda>p. m \<le> length (pkt_buf p)) pkts"
| "task_ok m sr t \<longleftrightarrow> True"

lemma task_ok_stable: "task_ok m s t \<Longrightarrow> undisturbed s s' \<Longrightarrow> task_ok m s' t"
  using detached_stable by (cases t) auto

lemma local_tasks_ok:
  assumes "34 \<le> length packet" "m \<le> length packet" "ip = frame_ip packet"
  shows "\<exists>ts. local_tasks env packet ip (unat (ip_hl ip) * 4) = Inr ts \<and> list_all (task_ok m sr) ts"
proof -
  let ?off = "sizeof_eth + unat (ip_hl ip) * 4"
  have "\<exists>icmp. get_t08 packet ?off = Inr icmp" if "?off + sizeof_t08 \<le> length packet" using that t08.get_in [of ?off packet] by auto
  moreover have "put_t08 packet ?off icmp = Inr (patch packet ?off (t08_hdr_bytes icmp))" if "?off + sizeof_t08 \<le> length packet" for icmp
    using that by (simp add: put_struct_def layout)
  moreover have "rd_bytes (patch packet ?off (t08_hdr_bytes icmp)) ?off (length packet - ?off) = Inr (drop ?off (patch packet ?off (t08_hdr_bytes icmp)))"
    if "?off + sizeof_t08 \<le> length packet" for icmp
    using that by (simp add: rd_bytes_def layout)
  moreover have "\<exists>buf. echo_reply_frame packet = Inr buf \<and> length buf = length packet" if "?off + sizeof_t08 \<le> length packet"
    using echo_reply_frame_length [OF assms(1)] that assms(3) by (auto simp: layout)
  ultimately show ?thesis using assms(2) by (fastforce simp: local_tasks_def Let_def)
qed

lemma ip_tasks_ok:
  assumes "34 \<le> length packet" "m \<le> length packet"
  shows "\<exists>ts. ip_tasks env sr packet interface = Inr ts \<and> list_all (task_ok m sr') ts"
proof -
  let ?ip = "frame_ip packet" and ?n = "unat (ip_hl (frame_ip packet)) * 4"
  have fwd: "\<exists>ts. forward_tasks env sr packet interface ?ip ?n = Inr ts \<and> list_all (task_ok m sr') ts" if "14 + ?n \<le> length packet"
    using assms that by (simp add: forward_tasks_def put_stamped)
  have put: "put_ip packet sizeof_eth h = Inr (patch packet 14 (ip_hdr_bytes h))" for h
    using assms(1) by (simp add: put_struct_def layout)
  have "rd_bytes (patch packet 14 (ip_hdr_bytes h)) sizeof_eth ?n = Inr (take ?n (drop 14 (patch packet 14 (ip_hdr_bytes h))))"
    if "14 + ?n \<le> length packet" for h
    using assms(1) that by (simp add: rd_bytes_def layout)
  with fwd put local_tasks_ok [OF assms refl, of env sr'] show ?thesis
    using assms(1) get_ip_frame [OF assms(1)]
    by (auto simp: ip_tasks_def Let_def layout split: option.split)
qed

lemma arp_tasks_ok:
  assumes "sr_wf m sr" "arp_tasks env sr packet interface = Inr (us, sr')"
  shows "sr_wf m sr' \<and> list_all (task_ok m sr') us"
proof -
  have "sr_wf m t" if "send_arp_reply env sr arp i = Inr t" "length (ar_sha arp) = 6" "sr_get_interface sr interface = Some i" for arp i t
    using send_arp_reply_keeps [OF assms(1) that(2), of i env] that sr_wf_get_interface [OF assms(1) that(3)] by (simp add: keeps_Inr)
  then show ?thesis
    using assms get_arp_wf [of packet sizeof_eth]
    by (auto simp: arp_tasks_def Let_def split: if_splits sum.splits option.splits)
qed

lemma receive_ok:
  assumes "sr_wf m sr" "m \<le> length packet \<or> length packet < 34" "task_step env sr (Receive packet interface) = Inr (us, sr')" "34 \<le> m"
  shows "sr_wf m sr' \<and> list_all (task_ok m sr') us"
proof -
  have ip: "\<exists>ts. ip_tasks env sr packet interface = Inr ts \<and> list_all (task_ok m sr) ts"
  proof (cases "34 \<le> length packet")
    case False
    then show ?thesis by (simp add: ip_tasks_def layout)
  qed (use assms(2) ip_tasks_ok in simp)
  then show ?thesis
    using assms(1,3) arp_tasks_ok [OF assms(1), of env packet interface us sr']
    by (auto simp: stay_def split: if_splits sum.splits)
qed

lemma error_tasks_ok:
  assumes "34 \<le> length orig" "m \<le> 70" "error_tasks env sr type code orig src = Inr us"
  shows "list_all (task_ok m sr') us"
  using assms(2,3)
  by (auto simp: error_tasks_def get_ip_frame [OF assms(1)] icmp_error_frame_eq [OF assms(1)] length_error_image Let_def
      split: if_splits)

lemma learn_ok:
  assumes "sr_wf m sr" "length sha = 6" "sr_arpcache_insert env (cache sr) sha sip = (req, c)"
  shows "sr_wf m (sr\<lparr>cache := c\<rparr>)"
    and "req = Some (a, r) \<Longrightarrow> task_ok m (sr\<lparr>cache := c\<rparr>) (Drain a sha (req_packets r))"
proof -
  have wf: "arpcache_wf (cache sr)" "queued_ge m (cache sr)" using assms(1) by (simp_all add: sr_wf_def)
  show "sr_wf m (sr\<lparr>cache := c\<rparr>)"
    using assms(1) insert_wf [OF assms(3)] requests_insert_subset [OF assms(3)] queued_ge_subset [of c "cache sr" m] by (simp add: sr_wf_def)
  show "task_ok m (sr\<lparr>cache := c\<rparr>) (Drain a sha (req_packets r))" if "req = Some (a, r)"
    using insert_detaches [of env "cache sr" sha sip a r c] assms(2,3) wf that by (fastforce simp: detached_def queued_ge_def list_all_iff)
qed

lemma touch_wf:
  "sr_wf m sr \<Longrightarrow> sr_wf m (sr\<lparr>cache := (cache sr)\<lparr>requests := update_req (requests (cache sr)) a
     (\<lambda>r. r\<lparr>req_sent := now, req_times_sent := req_times_sent r + 1\<rparr>)\<rparr>\<rparr>)"
  by (auto simp: sr_wf_def req_wf_def intro!: arpcache_wf_update queued_ge_touch)

lemma destroy_request_wf: "sr_wf m sr \<Longrightarrow> sr_wf m (sr\<lparr>cache := sr_arpreq_destroy (cache sr) a\<rparr>)"
  by (simp add: sr_wf_def destroy_wf queued_ge_destroy)

lemma ask_wf:
  assumes "sr_wf m sr" "task_step env sr (Ask a now) = Inr (us, sr')"
  shows "sr_wf m sr'"
proof -
  have "sr_wf m t" if "send_arp_request env sr ip name = Inr t" for ip name t
    using send_arp_request_keeps [OF assms(1), of env ip name] that by (simp add: keeps_Inr)
  then show ?thesis using assms by (auto simp: go_on_def split: sum.splits list.splits)
qed

lemma drain_task_ok:
  assumes "sr_wf m sr" "task_ok m sr (Drain a sha pkts)" "task_step env sr (Drain a sha pkts) = Inr (us, sr')"
  shows "sr_wf m sr' \<and> list_all (task_ok m sr') us"
proof (cases pkts)
  case Nil
  then show ?thesis using assms by (auto simp: destroy_request_wf)
next
  case (Cons p ps)
  then have d: "drain_one env sr sha p = Inr sr'" "us = [Drain a sha ps]" using assms(3) by (auto simp: go_on_def split: sum.splits)
  have "task_ok m sr (Drain a sha ps)" using assms(2) Cons by simp
  then have "task_ok m sr' (Drain a sha ps)" using task_ok_stable task_undisturbed [OF assms(3)] by blast
  moreover have "sr_wf m sr'"
    using drain_keeps [OF assms(1), of sha env "[p]", unfolded drain_one_single] assms(2) d(1) by (simp add: keeps_Inr)
  ultimately show ?thesis using d(2) by simp
qed

lemma task_step_ok:
  assumes "34 \<le> m" "m \<le> 70" "sr_wf m sr" "task_ok m sr t" "task_step env sr t = Inr (us, sr')"
  shows "sr_wf m sr' \<and> list_all (task_ok m sr') us"
proof (cases t)
  case (Receive packet interface)
  then show ?thesis using receive_ok [OF assms(3)] assms(1,4,5) by simp
next
  case (Icmp_Error type code orig src)
  then show ?thesis
    using error_tasks_ok [of orig m env sr type code src us sr'] assms by (auto simp: stay_def split: sum.splits)
next
  case (Route frame origin)
  then show ?thesis
    using assms route_queue_wf [OF assms(3), of frame env] by (auto split: sum.splits option.splits)
next
  case (Handle a)
  then show ?thesis
    using assms(3,5) deref_ge [OF assms(3)] by (auto simp: list_all_iff split: sum.splits if_splits)
next
  case (Ask a now)
  then show ?thesis using ask_wf [OF assms(3)] assms(5) by (auto simp: go_on_def split: sum.splits)
next
  case (Touch a now)
  then show ?thesis using assms(3,5) touch_wf by (auto split: sum.splits)
next
  case (Giveup a pkts)
  then show ?thesis using assms by (cases pkts) (auto simp: destroy_request_wf split: sum.splits if_splits)
next
  case (Learn sha sip)
  then show ?thesis
    using learn_ok [OF assms(3), of sha env sip] assms(4,5) by (fastforce simp: Let_def split: prod.splits option.splits)
next
  case (Drain a sha pkts)
  then show ?thesis using drain_task_ok [OF assms(3)] assms(4,5) by simp
next
  case Round
  then show ?thesis using assms(3,5) by (auto simp: Let_def sr_wf_def expire_wf queued_ge_expire)
next
  case (Sweep cur)
  then show ?thesis using assms(3,5) by (cases cur) (auto split: sum.splits)
qed

section \<open>When a task faults\<close>

text \<open>The request a task is about to look at through a pointer it holds.\<close>

fun follows :: "task \<Rightarrow> addr option" where
  "follows (Handle a) = Some a"
| "follows (Ask a now) = Some a"
| "follows (Touch a now) = Some a"
| "follows (Giveup a pkts) = Some a"
| "follows (Sweep cur) = cur"
| "follows t = None"

definition dangling :: "sr_instance \<Rightarrow> task \<Rightarrow> bool" where
  "dangling sr t = (case follows t of None \<Rightarrow> False | Some a \<Rightarrow> a \<notin> fst ` set (requests (cache sr)))"

lemma dangling_map_of:
  "dangling sr t = (case follows t of None \<Rightarrow> False | Some a \<Rightarrow> map_of (requests (cache sr)) a = None)"
  by (simp add: dangling_def map_of_eq_None_iff split: option.split)

lemma arp_tasks_total:
  assumes "mem_ok env" "sr_wf 34 sr"
  shows "\<exists>x. arp_tasks env sr packet interface = Inr x"
proof -
  have "\<exists>arp. get_arp packet sizeof_eth = Inr arp \<and> length (ar_sha arp) = 6" if "\<not> length packet < sizeof_eth + sizeof_arp"
    using that get_arp_frame [of packet] frame_arp_wf [of packet] by (simp add: layout)
  moreover have "\<exists>t. send_arp_reply env sr arp i = Inr t" if "length (ar_sha arp) = 6" "sr_get_interface sr interface = Some i" for arp i
    using send_arp_reply_effect [OF assms that(2,1)] by metis
  ultimately show ?thesis by (fastforce simp: arp_tasks_def Let_def split: option.split)
qed

lemma receive_total:
  assumes "mem_ok env" "sr_wf 34 sr"
  shows "task_step env sr (Receive packet interface) \<noteq> Inl f"
proof (cases "34 \<le> length packet")
  case True
  then obtain ts where "ip_tasks env sr packet interface = Inr ts" using ip_tasks_ok [of packet 0 env sr interface sr] by auto
  moreover have "\<exists>e. ethertype packet = Inr e" using True eth.get_in [of 0 packet] by (auto simp: ethertype_def layout)
  ultimately show ?thesis using arp_tasks_total [OF assms, of packet interface] by (auto simp: stay_def split: if_splits)
next
  case False
  have "\<exists>e. ethertype packet = Inr e" if "14 \<le> length packet" using that eth.get_in [of 0 packet] by (auto simp: ethertype_def layout)
  with False show ?thesis by (auto simp: ip_tasks_def arp_tasks_def stay_def layout not_less split: if_splits)
qed

lemma error_total:
  assumes "42 \<le> length orig"
  shows "task_step env sr (Icmp_Error type code orig src) \<noteq> Inl f"
proof -
  have "34 \<le> length orig" using assms by simp
  from get_ip_frame [OF this] icmp_error_frame_eq [OF this] assms show ?thesis by (simp add: error_tasks_def stay_def Let_def)
qed

lemma ask_fault:
  assumes "mem_ok env" "sr_wf m sr" "task_step env sr (Ask a now) = Inl f"
  shows "deref_req (cache sr) a = Inl f"
proof -
  have "send_arp_request env sr ip name \<noteq> Inl g" for ip name g
    by (rule send_arp_request_total [OF assms(1,2), of ip name]) simp
  then show ?thesis using assms(3) by (auto simp: go_on_def split: sum.splits list.splits)
qed

lemma task_fault_cause:
  assumes "mem_ok env" "sr_wf 42 sr" "task_ok 42 sr t"
  shows "task_step env sr t = Inl f \<longleftrightarrow> f = UseAfterFree \<and> dangling sr t"
proof -
  have wf: "sr_wf 34 sr" using assms(2) by (fastforce simp: sr_wf_def queued_ge_def)
  note d = dangling_map_of deref_req_def
  show ?thesis
  proof (cases t)
    case (Receive packet interface)
    then show ?thesis using receive_total [OF assms(1) wf] by (simp add: d del: task_step.simps)
  next
    case (Icmp_Error type code orig src)
    then show ?thesis using error_total assms(3) by (simp add: d del: task_step.simps)
  next
    case (Route frame origin)
    obtain r where "route_queue env sr frame = Inr r" by (rule route_queue_total [OF assms(1) wf])
    with Route show ?thesis by (simp add: d split: option.split)
  next
    case (Ask a now)
    with ask_fault [OF assms(1,2), of a now f] show ?thesis by (auto simp: d split: option.splits)
  next
    case (Giveup a pkts)
    then show ?thesis by (cases pkts) (auto simp: d split: option.split)
  next
    case (Drain a sha pkts)
    have "drain_one env sr sha p \<noteq> Inl f" if "p \<in> set pkts" for p
      by (rule drain_one_sends [OF assms(1) wf, of sha p]) (use assms(3) Drain that in \<open>auto simp: list_all_iff\<close>)
    with Drain show ?thesis by (cases pkts) (auto simp: d go_on_def split: sum.split)
  next
    case (Sweep cur)
    then show ?thesis by (cases cur) (auto simp: d split: option.split)
  qed (auto simp: d Let_def split: option.split prod.split)
qed

section \<open>Two stacks\<close>

record two_threads =
  memory :: sr_instance
  main_tasks :: "task list"
  timeout_tasks :: "task list"

text \<open>
  The tasks of the main thread that take the lock: the queueing of a frame, \<^verbatim>\<open>sr_arpcache_insert\<close> and
  \<^verbatim>\<open>sr_arpreq_destroy\<close>.  Each releases it before the task ends.
\<close>

fun takes_lock :: "sr_env \<Rightarrow> sr_instance \<Rightarrow> task \<Rightarrow> bool" where
  "takes_lock env sr (Route frame origin) \<longleftrightarrow> route_queue env sr frame \<noteq> Inr None"
| "takes_lock env sr (Learn sha sip) \<longleftrightarrow> True"
| "takes_lock env sr (Giveup a pkts) \<longleftrightarrow> pkts = []"
| "takes_lock env sr (Drain a sha pkts) \<longleftrightarrow> pkts = []"
| "takes_lock env sr t \<longleftrightarrow> False"

datatype two_action = Deliver bytes bytes | Main_Task | Wake | Timeout_Task

text \<open>\<open>None\<close> is an action that is not possible; the timeout thread has the lock while it has tasks.\<close>

fun two_step :: "two_threads \<Rightarrow> sr_env \<times> two_action \<Rightarrow> (fault + two_threads) option" where
  "two_step t (env, Deliver packet interface) =
     (if main_tasks t = [] then Some (Inr (t\<lparr>main_tasks := [Receive packet interface]\<rparr>)) else None)"
| "two_step t (env, Main_Task) =
     (case main_tasks t of [] \<Rightarrow> None | x # us \<Rightarrow>
        if timeout_tasks t \<noteq> [] \<and> takes_lock env (memory t) x then None
        else Some (case task_step env (memory t) x of Inl f \<Rightarrow> Inl f
          | Inr (vs, sr) \<Rightarrow> Inr (t\<lparr>memory := sr, main_tasks := vs @ us\<rparr>)))"
| "two_step t (env, Wake) =
     (if timeout_tasks t = [] then Some (Inr (t\<lparr>timeout_tasks := [Round]\<rparr>)) else None)"
| "two_step t (env, Timeout_Task) =
     (case timeout_tasks t of [] \<Rightarrow> None | x # us \<Rightarrow>
        Some (case task_step env (memory t) x of Inl f \<Rightarrow> Inl f
          | Inr (vs, sr) \<Rightarrow> Inr (t\<lparr>memory := sr, timeout_tasks := vs @ us\<rparr>)))"

lemma fault_of_step: "(case r of Inl g \<Rightarrow> Inl g | Inr (vs, s) \<Rightarrow> Inr (h vs s)) = Inl f \<longleftrightarrow> r = Inl f"
  by (auto split: sum.splits)

text \<open>The states of all interleavings in which frames with the property \<open>P\<close> of the packet and its interface are delivered.\<close>

inductive two_reachable :: "(bytes \<Rightarrow> bytes \<Rightarrow> bool) \<Rightarrow> sr_instance \<Rightarrow> two_threads \<Rightarrow> bool" for P start where
  init: "two_reachable P start \<lparr>memory = sr_init start, main_tasks = [], timeout_tasks = []\<rparr>"
| step: "two_reachable P start t \<Longrightarrow> (\<And>packet interface. act = Deliver packet interface \<Longrightarrow> P packet interface) \<Longrightarrow>
    two_step t (env, act) = Some (Inr t') \<Longrightarrow> two_reachable P start t'"

definition two_ok :: "nat \<Rightarrow> two_threads \<Rightarrow> bool" where
  "two_ok m t \<longleftrightarrow> sr_wf m (memory t) \<and> list_all (task_ok m (memory t)) (main_tasks t @ timeout_tasks t)"

lemma two_step_task:
  assumes "34 \<le> m" "m \<le> 70" "two_ok m t" "task_step env (memory t) x = Inr (vs, sr)" "x \<in> set (main_tasks t @ timeout_tasks t)"
  shows "sr_wf m sr" "list_all (task_ok m sr) vs" "evolves (memory t) sr"
    and "list_all (task_ok m (memory t)) ts \<Longrightarrow> list_all (task_ok m sr) ts"
proof -
  have x: "sr_wf m (memory t)" "task_ok m (memory t) x" using assms(3,5) by (auto simp: two_ok_def list_all_iff)
  show "sr_wf m sr" "list_all (task_ok m sr) vs" using task_step_ok [OF assms(1,2) x assms(4)] by simp_all
  note u = task_undisturbed [OF assms(4)]
  then show "evolves (memory t) sr" by (simp add: undisturbed_def)
  show "list_all (task_ok m sr) ts" if "list_all (task_ok m (memory t)) ts" using that task_ok_stable [OF _ u] by (simp add: list_all_iff)
qed

lemma two_step_keeps:
  assumes "34 \<le> m" "m \<le> 70" "two_ok m t" "two_step t (env, act) = Some (Inr t')"
    and "\<And>packet interface. act = Deliver packet interface \<Longrightarrow> m \<le> length packet \<or> length packet < 34"
  shows "two_ok m t' \<and> evolves (memory t) (memory t')"
proof (cases act)
  case Main_Task
  then obtain x us where x: "main_tasks t = x # us" using assms(4) by (auto split: list.splits)
  with Main_Task assms(4) obtain vs sr where s: "task_step env (memory t) x = Inr (vs, sr)" "t' = t\<lparr>memory := sr, main_tasks := vs @ us\<rparr>"
    by (auto split: if_splits sum.splits)
  have "x \<in> set (main_tasks t @ timeout_tasks t)" using x by simp
  note k = two_step_task [OF assms(1-3) s(1) this]
  show ?thesis using k(1,2,3) k(4) [of us] k(4) [of "timeout_tasks t"] assms(3) x s(2) by (simp add: two_ok_def)
next
  case Timeout_Task
  then obtain x us where x: "timeout_tasks t = x # us" using assms(4) by (auto split: list.splits)
  with Timeout_Task assms(4) obtain vs sr where s: "task_step env (memory t) x = Inr (vs, sr)" "t' = t\<lparr>memory := sr, timeout_tasks := vs @ us\<rparr>"
    by (auto split: if_splits sum.splits)
  have "x \<in> set (main_tasks t @ timeout_tasks t)" using x by simp
  note k = two_step_task [OF assms(1-3) s(1) this]
  show ?thesis using k(1,2,3) k(4) [of us] k(4) [of "main_tasks t"] assms(3) x s(2) by (simp add: two_ok_def)
qed (use assms(3-5) in \<open>auto simp: two_ok_def split: if_splits\<close>)

lemma init_wf_any: "list_all if_wf (if_list start) \<Longrightarrow> sr_wf m (sr_init start)"
  by (simp add: sr_wf_def sr_init_def init_wf queued_ge_def) (simp add: sr_arpcache_init_def)

lemma two_reachable_ok:
  assumes "two_reachable (\<lambda>p j. m \<le> length p \<or> length p < 34) start t" "34 \<le> m" "m \<le> 70" "list_all if_wf (if_list start)"
  shows "two_ok m t \<and> evolves start (memory t)"
  using assms
proof (induction rule: two_reachable.induct)
  case init
  then show ?case by (simp add: two_ok_def init_wf_any) (simp add: sr_init_def)
next
  case (step t act env t')
  then show ?case using two_step_keeps [of m t env act t'] evolves_trans by blast
qed

section \<open>Serial executions are interleavings\<close>

lemma main_alone:
  assumes "run_tasks env ts sr = Some r"
  shows "r = Inr sr' \<Longrightarrow> two_reachable P start \<lparr>memory = sr, main_tasks = ts, timeout_tasks = []\<rparr> \<Longrightarrow>
    two_reachable P start \<lparr>memory = sr', main_tasks = [], timeout_tasks = []\<rparr>"
proof (induction rule: run_tasks.raw_induct [OF _ assms])
  case (1 run env ts sr r)
  show ?case
  proof (cases ts)
    case (Cons t us)
    with 1(2,3) obtain vs s where s: "task_step env sr t = Inr (vs, s)" "run env (vs @ us) s = Some r" by (auto split: sum.splits)
    have "two_reachable P start \<lparr>memory = s, main_tasks = vs @ us, timeout_tasks = []\<rparr>"
      using two_reachable.step [OF 1(4), of Main_Task env] Cons s(1) by simp
    with 1(1) [OF s(2) 1(3)] show ?thesis .
  qed (use 1(2-4) in auto)
qed

lemma timeout_alone:
  assumes "run_tasks env ts sr = Some r"
  shows "r = Inr sr' \<Longrightarrow> two_reachable P start \<lparr>memory = sr, main_tasks = ms, timeout_tasks = ts\<rparr> \<Longrightarrow>
    two_reachable P start \<lparr>memory = sr', main_tasks = ms, timeout_tasks = []\<rparr>"
proof (induction rule: run_tasks.raw_induct [OF _ assms])
  case (1 run env ts sr r)
  show ?case
  proof (cases ts)
    case (Cons t us)
    with 1(2,3) obtain vs s where s: "task_step env sr t = Inr (vs, s)" "run env (vs @ us) s = Some r" by (auto split: sum.splits)
    have "two_reachable P start \<lparr>memory = s, main_tasks = ms, timeout_tasks = vs @ us\<rparr>"
      using two_reachable.step [OF 1(4), of Timeout_Task env] Cons s(1) by simp
    with 1(1) [OF s(2) 1(3)] show ?thesis .
  qed (use 1(2-4) in auto)
qed

text \<open>A received frame is handled, or a round takes place, without the other thread in between.\<close>

lemma event_alone:
  assumes "two_reachable P start \<lparr>memory = sr, main_tasks = [], timeout_tasks = []\<rparr>" "handle_event env depth sr ev = Inr sr'"
    and "\<And>packet interface. ev = Frame packet interface \<Longrightarrow> P packet interface"
  shows "two_reachable P start \<lparr>memory = sr', main_tasks = [], timeout_tasks = []\<rparr>"
proof (cases ev)
  case (Frame packet interface)
  then have h: "sr_handlepacket env depth sr packet interface = Inr sr'" using assms(2) by (simp add: handle_event_def)
  have "run_tasks env [Receive packet interface] sr = Some (Inr sr')"
    using run_receive [of env depth sr packet interface "[]"] h by simp
  moreover have "two_reachable P start \<lparr>memory = sr, main_tasks = [Receive packet interface], timeout_tasks = []\<rparr>"
    using two_reachable.step [OF assms(1), of "Deliver packet interface" env] assms(3) Frame by simp
  ultimately show ?thesis using main_alone by blast
next
  case Tick
  then have h: "sr_arpcache_timeout_round env depth sr = Inr sr'" using assms(2) by (simp add: handle_event_def)
  have "run_tasks env [Round] sr = Some (Inr sr')" using run_round [of env depth sr "[]"] h by simp
  moreover have "two_reachable P start \<lparr>memory = sr, main_tasks = [], timeout_tasks = [Round]\<rparr>"
    using two_reachable.step [OF assms(1), of Wake env] by simp
  ultimately show ?thesis using timeout_alone by blast
qed

lemma serial_reachable:
  "reachable start sr \<Longrightarrow> two_reachable (\<lambda>p j. True) start \<lparr>memory = sr, main_tasks = [], timeout_tasks = []\<rparr>"
  by (induction rule: reachable.induct) (auto intro: two_reachable.init event_alone)

section \<open>What holds at every point\<close>

text \<open>
  C9.  However the two threads are interleaved, task by task and with rounds that have not finished, at every point the
  state is well formed, the configuration is unchanged and output is only appended; a frame in the
  hands of a thread is long enough to be queued, and the request whose frames the main
  thread is sending is out of reach of the timeout thread.
\<close>

theorem all_interleavings_keep_invariant:
  assumes "two_reachable (\<lambda>p j. True) start t" "list_all if_wf (if_list start)"
  shows "sr_wf 34 (memory t) \<and> same_config start (memory t) \<and> (\<exists>new. sock_out (memory t) = sock_out start @ new) \<and>
    (\<forall>x \<in> set (main_tasks t @ timeout_tasks t). task_ok 34 (memory t) x) \<and>
    (\<forall>a sha pkts. Drain a sha pkts \<in> set (main_tasks t) \<longrightarrow> a \<notin> fst ` set (requests (cache (memory t))))"
proof -
  have "two_reachable (\<lambda>p j. 34 \<le> length p \<or> length p < 34) start t" using assms(1) by (simp add: not_less [symmetric])
  from two_reachable_ok [OF this _ _ assms(2)] have ok: "two_ok 34 t" "evolves start (memory t)" by simp_all
  have "task_ok 34 (memory t) (Drain a sha pkts)" if "Drain a sha pkts \<in> set (main_tasks t)" for a sha pkts
    using ok(1) that unfolding two_ok_def list_all_iff by (simp del: task_ok.simps)
  then have "a \<notin> fst ` set (requests (cache (memory t)))" if "Drain a sha pkts \<in> set (main_tasks t)" for a sha pkts
    using that unfolding task_ok.simps detached_def by blast
  with ok show ?thesis unfolding two_ok_def evolves_def list_all_iff by blast
qed

text \<open>
  C26.  The one thing that can go wrong in an interleaving: with memory available and frames of at least 42 bytes (or
  too short for an IP header), a step of either thread faults exactly if its task follows a pointer to
  a request that has been freed, and then it is a use after free.
\<close>

theorem interleaved_fault_is_dangling_pointer:
  assumes "two_reachable (\<lambda>p j. 42 \<le> length p \<or> length p < 34) start t" "list_all if_wf (if_list start)" "mem_ok env"
  shows "two_step t (env, act) = Some (Inl f) \<longleftrightarrow> f = UseAfterFree \<and>
    (case act of Main_Task \<Rightarrow> main_tasks t \<noteq> [] \<and> dangling (memory t) (hd (main_tasks t)) \<and>
           (timeout_tasks t = [] \<or> \<not> takes_lock env (memory t) (hd (main_tasks t)))
     | Timeout_Task \<Rightarrow> timeout_tasks t \<noteq> [] \<and> dangling (memory t) (hd (timeout_tasks t)) | _ \<Rightarrow> False)"
proof -
  have ok: "two_ok 42 t" using two_reachable_ok [OF assms(1) _ _ assms(2)] by simp
  have cause: "task_step env (memory t) x = Inl g \<longleftrightarrow> g = UseAfterFree \<and> dangling (memory t) x"
    if "x \<in> set (main_tasks t @ timeout_tasks t)" for x g
    using task_fault_cause [OF assms(3), of "memory t" x] ok that unfolding two_ok_def list_all_iff by blast
  show ?thesis
  proof (cases act)
    case Main_Task
    then show ?thesis using cause [of "hd (main_tasks t)"] by (cases "main_tasks t") (simp_all add: fault_of_step)
  next
    case Timeout_Task
    then show ?thesis using cause [of "hd (timeout_tasks t)"] by (cases "timeout_tasks t") (simp_all add: fault_of_step)
  qed auto
qed

text \<open>The example: the timeout thread has woken up while the main thread sends the frames an ARP reply has released.\<close>

lemma drain_meets_round:
  assumes "\<And>p j. length p = 42 \<Longrightarrow> P p j"
  shows "\<exists>t a f. two_reachable P (example_router []) t \<and>
    main_tasks t = [Drain a [1, 2, 3, 4, 5, 6] [queued_packet f (if_name eth1)]] \<and> timeout_tasks t = [Round]"
proof -
  let ?e = "example_router []" and ?f = "sample_frame client server1 9" and ?a = "sample_arp 2 [1, 2, 3, 4, 5, 6] server1 eth1_ip"
  have init: "sr_init ?e = ?e" by (simp add: sr_init_def sr_arpcache_init_def example_router_def SR_ARPCACHE_SZ_def)
  obtain sr g where h: "sr_handlepacket (good_env 10) 1 ?e ?f (if_named ''eth3'') = Inr sr"
    and q: "queued_for (good_env 10) ?e server1 eth1 g sr"
    using forward_effect [where env = "good_env 10" and interface = "if_named ''eth3''",
        OF mem_ok_good_env example_router_34 order_refl _ sample_frame_type sample_forward] by fastforce
  have r0: "two_reachable P ?e \<lparr>memory = ?e, main_tasks = [], timeout_tasks = []\<rparr>" using two_reachable.init [of P ?e] by (simp add: init)
  have "handle_event (good_env 10) 1 ?e (Frame ?f (if_named ''eth3'')) = Inr sr" using h by (simp add: handle_event_def)
  from event_alone [OF r0 this] have r1: "two_reachable P ?e \<lparr>memory = sr, main_tasks = [], timeout_tasks = []\<rparr>" using assms by simp
  have sr: "sr_wf 34 sr" "same_config ?e sr"
    using sr_handlepacket_keeps [of 34 ?e ?f "good_env 10" 1 "if_named ''eth3''"] h example_router_34(1)
    by (simp_all add: keeps_Inr evolves_def)
  have cwf: "arpcache_wf (cache sr)" using sr(1) by (simp add: sr_wf_def)
  have pend: "pending (cache sr) server1 = Some [queued_packet g (if_name eth1)]"
    using q by (auto simp: queued_for_def example_nothing_pending)
  obtain req c where ins: "sr_arpcache_insert (good_env 11) (cache sr) [1, 2, 3, 4, 5, 6] server1 = (req, c)" by fastforce
  obtain a r where req: "req = Some (a, r)" "req_packets r = [queued_packet g (if_name eth1)]"
    using pending_insert [OF ins cwf] pend by (cases req) auto
  have arp: "arp_for_ip ?a" "ntohs (ar_op (frame_arp ?a)) = 2" "ar_sip (frame_arp ?a) = server1" "ar_sha (frame_arp ?a) = [1, 2, 3, 4, 5, 6]"
    by (simp_all add: sample_arp_facts)
  have len: "length ?a = 42" by (simp add: sample_arp_def eth_hdr_bytes_def arp_hdr_bytes_def)
  have i: "sr_get_interface sr (if_named ''eth1'') = Some eth1"
    using sr_get_interface_cong [OF same_configD(1) [OF sr(2)]] by simp
  have rcv: "task_step (good_env 11) sr (Receive ?a (if_named ''eth1'')) = Inr ([Learn [1, 2, 3, 4, 5, 6] server1], sr)"
    using arp get_arp_frame [of ?a] i
    by (simp add: arp_for_ip_def arp_tasks_def Let_def layout arp_op_request_def arp_op_reply_def)
  have r2: "two_reachable P ?e \<lparr>memory = sr, main_tasks = [Receive ?a (if_named ''eth1'')], timeout_tasks = []\<rparr>"
    using two_reachable.step [OF r1, of "Deliver ?a (if_named ''eth1'')" "good_env 11"] assms len by simp
  have r3: "two_reachable P ?e \<lparr>memory = sr, main_tasks = [Learn [1, 2, 3, 4, 5, 6] server1], timeout_tasks = []\<rparr>"
    using two_reachable.step [OF r2, of Main_Task "good_env 11"] rcv by (simp del: task_step.simps)
  have r4: "two_reachable P ?e \<lparr>memory = sr\<lparr>cache := c\<rparr>, main_tasks = [Drain a [1, 2, 3, 4, 5, 6] [queued_packet g (if_name eth1)]], timeout_tasks = []\<rparr>"
    using two_reachable.step [OF r3, of Main_Task "good_env 11"] ins req by simp
  show ?thesis using two_reachable.step [OF r4, of Wake "good_env 12"]
    by (intro exI [of _ "\<lparr>memory = sr\<lparr>cache := c\<rparr>, main_tasks = [Drain a [1, 2, 3, 4, 5, 6] [queued_packet g (if_name eth1)]], timeout_tasks = [Round]\<rparr>"]
        exI [of _ a] exI [of _ g]) simp
qed

theorem all_interleavings_keep_invariant_witness:
  "\<exists>t a f. two_reachable (\<lambda>p j. True) (example_router []) t \<and> timeout_tasks t = [Round] \<and>
     main_tasks t = [Drain a [1, 2, 3, 4, 5, 6] [queued_packet f (if_name eth1)]] \<and>
     a \<notin> fst ` set (requests (cache (memory t))) \<and> 34 \<le> length f"
proof -
  obtain t a f where t: "two_reachable (\<lambda>p j. True) (example_router []) t" "timeout_tasks t = [Round]"
    "main_tasks t = [Drain a [1, 2, 3, 4, 5, 6] [queued_packet f (if_name eth1)]]" using drain_meets_round [of "\<lambda>p j. True"] by blast
  note inv = all_interleavings_keep_invariant [OF t(1) example_ifs]
  have "task_ok 34 (memory t) (Drain a [1, 2, 3, 4, 5, 6] [queued_packet f (if_name eth1)])"
    "a \<notin> fst ` set (requests (cache (memory t)))" using inv t(3) by (simp_all del: task_ok.simps)
  with t show ?thesis by auto
qed

theorem interleaved_fault_is_dangling_pointer_witness:
  "\<exists>t a f. two_reachable (\<lambda>p j. 42 \<le> length p \<or> length p < 34) (example_router []) t \<and>
     main_tasks t = [Drain a [1, 2, 3, 4, 5, 6] [queued_packet f (if_name eth1)]] \<and> timeout_tasks t = [Round] \<and>
     (\<forall>g. two_step t (good_env 12, Main_Task) \<noteq> Some (Inl g) \<and> two_step t (good_env 12, Timeout_Task) \<noteq> Some (Inl g))"
proof -
  obtain t a f where t: "two_reachable (\<lambda>p j. 42 \<le> length p \<or> length p < 34) (example_router []) t" "timeout_tasks t = [Round]"
    "main_tasks t = [Drain a [1, 2, 3, 4, 5, 6] [queued_packet f (if_name eth1)]]" using drain_meets_round [of "\<lambda>p j. 42 \<le> length p \<or> length p < 34"] by auto
  note fault = interleaved_fault_is_dangling_pointer [OF t(1) example_ifs mem_ok_good_env]
  have "two_step t (good_env 12, Main_Task) \<noteq> Some (Inl g)" "two_step t (good_env 12, Timeout_Task) \<noteq> Some (Inl g)" for g
    using t(2,3) by (simp_all add: fault dangling_def del: two_step.simps)
  with t show ?thesis by blast
qed

end
