(* ===== verification/SR_Race.thy ===== *)
theory SR_Race
  imports SR_Interleave SR_Giveup
begin

text \<open>
  The race on a request, from the start of the router: two ordinary frames for a host that does not answer are
  enough to bring the main thread to a request the timeout thread has freed.
\<close>

section \<open>The steps that lead there\<close>

text \<open>A frame that is to be forwarded becomes one task.\<close>

lemma receive_forward:
  assumes "mem_ok env" "ethertype packet = Inr ethertype_ip" "ip_action_for sr packet = Forward hop i"
  shows "task_step env sr (Receive packet interface) = Inr ([Route (ttl_decremented packet) (Some (packet, interface))], sr)"
proof -
  let ?n = "header_len packet" and ?ip = "frame_ip packet"
  have v: "ip_valid packet" and own: "find_iface_for_ip sr (ip_dst ?ip) = None" and ttl: "\<not> ip_ttl ?ip \<le> 1"
    using assms(3) by (auto simp: ip_action_for_def find_iface_own split: if_splits option.splits)
  have l: "34 \<le> length packet" "20 \<le> ?n" "14 + ?n \<le> length packet" using v by (simp_all add: ip_valid_def)
  have g: "\<not> length packet < sizeof_eth + sizeof_ip" "\<not> ?n < sizeof_ip" "\<not> length packet < sizeof_eth + ?n"
    "\<not> unat (ntohs (ip_len ?ip)) < ?n" using v by (simp_all add: ip_valid_def layout)
  have "put_ip_with_sum packet sizeof_eth ?n (?ip\<lparr>ip_ttl := ip_ttl ?ip - 1\<rparr>) = Inr (ttl_decremented packet)"
    using l by (simp add: put_stamped ttl_decremented_def)
  then have "forward_tasks env sr packet interface ?ip ?n = Inr [Route (ttl_decremented packet) (Some (packet, interface))]"
    using ttl assms(1) by (simp add: forward_tasks_def mem_ok_def)
  then have "ip_tasks env sr packet interface = Inr [Route (ttl_decremented packet) (Some (packet, interface))]"
    using get_ip_frame(1) [OF l(1)] g v own
    by (simp add: ip_tasks_def Let_def header_len_def [symmetric] ip_test [OF l]) (simp add: ip_valid_def)
  then show ?thesis using l(1) assms(2) by (simp add: stay_def layout protocol_consts)
qed

lemma rounds_alone:
  "timeout_rounds depth sr envs = Inr sr' \<Longrightarrow> two_reachable P start \<lparr>memory = sr, main_tasks = [], timeout_tasks = []\<rparr> \<Longrightarrow>
     two_reachable P start \<lparr>memory = sr', main_tasks = [], timeout_tasks = []\<rparr>"
proof (induction envs arbitrary: sr)
  case (Cons env envs)
  then obtain s1 where s1: "sr_arpcache_timeout_round env depth sr = Inr s1" "timeout_rounds depth s1 envs = Inr sr'"
    by (auto split: sum.splits)
  then have "handle_event env depth sr Tick = Inr s1" by (simp add: handle_event_def)
  from event_alone [OF Cons.prems(2) this] Cons.IH [OF s1(2)] show ?case by simp
qed simp

lemma ip_action_config: "same_config s t \<Longrightarrow> ip_action_for t = ip_action_for s"
  using route_for_config [of s t] by (simp add: fun_eq_iff ip_action_for_def own_address_def same_config_def)

text \<open>After one forwarded frame and four rounds the request has been tried five times.\<close>

lemma tried_five_times:
  assumes mem: "list_all mem_ok (env # es)" and wf: "sr_wf 42 sr" and idle: "requests (cache sr) = []"
    and p: "42 \<le> length packet" "length packet \<le> 131072" "ethertype packet = Inr ethertype_ip" "ip_action_for sr packet = Forward hop i"
    and t: "1 \<le> env_time env" "sorted_wrt (<) (map env_time (env # es))" "length es = 4"
  obtains sr1 sr2 a where "sr_handlepacket env 2 sr packet interface = Inr sr1" "timeout_rounds 2 sr1 es = Inr sr2" "same_config sr sr2" "sr_wf 42 sr2"
    "awaiting hop (last (env_time env # map env_time es)) 5 (queued_packet (rewrite_l2 (if_addr i) (ttl_decremented packet)) (if_name i)) a sr2"
proof -
  let ?t = "ttl_decremented packet"
  let ?p = "queued_packet (rewrite_l2 (if_addr i) ?t) (if_name i)"
  have v: "ip_valid packet" and r: "route_for sr (ip_dst (frame_ip packet)) = Some (hop, i)"
    using p(4) by (auto simp: ip_action_for_def split: if_splits option.splits)
  have tr: "42 \<le> length ?t" "route_for sr (ip_dst (frame_ip ?t)) = Some (hop, i)"
    using ttl_decremented_spec(1,4) [OF v] p(1) r by auto
  have e: "mem_ok env" "list_all mem_ok es" using mem by simp_all
  obtain sr1 where s1: "route_and_send env (Suc (Suc 0)) sr ?t = Inr (0, sr1)" "same_config sr sr1" "sr_wf 42 sr1"
    "awaiting hop (env_time env) 1 ?p (next_addr (cache sr)) sr1"
    by (rule idle_route [OF e(1) wf idle tr t(1)])
  have i: "sr_get_interface sr1 (pkt_iface ?p) = Some i"
    using route_own_iface [OF r] sr_get_interface_cong [OF same_configD(1) [OF s1(2)]] by simp
  obtain sr2 where s2: "timeout_rounds (Suc (Suc 0)) sr1 es = Inr sr2" "same_config sr1 sr2" "sr_wf 42 sr2"
    "awaiting hop (last (env_time env # map env_time es)) 5 ?p (next_addr (cache sr)) sr2"
    using retry_rounds [OF e(2) s1(3,4) _ _ i, of "Suc 0"] t(2,3) by auto
  have "sr_handlepacket env 2 sr packet interface = Inr sr1"
    using handle_ip_eq [OF e(1) sr_wf_34 [OF wf] p(2)] dispatch_ip [OF p(3)] p(4) s1(1)
    by (simp add: perform_def numeral_2_eq_2)
  with s2 same_config_trans [OF s1(2) s2(2)] that show thesis by (simp add: numeral_2_eq_2)
qed

text \<open>A second frame joins the request, which the next round gives up on.\<close>

lemma second_frame_raced:
  assumes mem: "mem_ok env" and wf: "sr_wf 42 sr" and own: "own_unrouted sr" and w: "awaiting hop t 5 p a sr" "t < env_time env"
    and f: "42 \<le> length frame" "route_for sr (ip_dst (frame_ip frame)) = Some (hop, i)"
    and bk: "error_hop sr frame \<noteq> Some hop" "error_hop sr (pkt_buf p) \<noteq> Some hop"
  obtains sr3 sr4 where "route_queue env sr frame = Inr (Some (a, sr3))" "sr_arpcache_timeout_round env 2 sr3 = Inr sr4"
    "a \<notin> fst ` set (requests (cache sr4))"
proof -
  let ?r = "\<lparr>req_ip = hop, req_sent = t, req_times_sent = word_of_nat 5, req_packets = [p]\<rparr>" and ?f = "rewrite_l2 (if_addr i) frame"
  have rq: "requests (cache sr) = [(a, ?r)]" using w(1) by (simp add: awaiting_def)
  have ifs: "list_all if_wf (if_list sr)" using wf by (simp add: sr_wf_def)
  have len: "34 \<le> length frame" using f(1) by simp
  have mac: "length (if_addr i) = 6" using sr_wf_if [OF wf route_for_iface [OF f(2)]] by simp
  have ne: "?f \<noteq> []" using length_rewrite_l2 [OF len mac] len by auto
  obtain b c where q: "sr_arpcache_queuereq env (cache sr) hop ?f (if_name i) = Inr (b, c)" using queuereq_total [OF mem] .
  let ?q = "push_packet (queued_packet ?f (if_name i)) ?r"
  have c: "b = a" "requests c = [(a, ?q)]" using q ne rq by (auto elim!: queuereq_cases)
  let ?s = "sr\<lparr>cache := c\<rparr>"
  have rt: "route_queue env sr frame = Inr (Some (a, ?s))" using q c(1) f(2) by (simp add: route_queue_eq [OF len ifs])
  have s: "sr_wf 42 ?s" "same_config sr ?s" using route_queue_wf [OF wf f(1) len rt] by simp_all
  have ex: "expired (env_time env) ?q" using w(2) few_tries(2) by (auto simp: expired_def)
  have "error_hop ?s ?f = error_hop sr frame"
    using error_hop_config [OF s(2)] frame_ip_rewrite_l2 [OF len mac] by (simp add: error_hop_def)
  then have flat: "flat (env_time env) ?s" using bk error_hop_config [OF s(2)] c(2) by (auto simp: ranked_def)
  have own3: "own_unrouted ?s" using own own_unrouted_config [OF s(2)] by simp
  obtain sr4 where s4: "sr_arpcache_timeout_round env 2 ?s = Inr sr4"
    "\<And>a r. (a, r) \<in> set (requests (cache ?s)) \<Longrightarrow> a \<in> fst ` set (requests (cache sr4)) \<longleftrightarrow> \<not> expired (env_time env) r"
    using timeout_round_prunes [OF mem s(1) own3 flat order_refl] by metis
  have "a \<notin> fst ` set (requests (cache sr4))" using s4(2) [of a ?q] c(2) ex by simp
  with that [OF rt s4(1)] show thesis .
qed

lemma round_overtakes:
  assumes "two_reachable P start \<lparr>memory = sr, main_tasks = [], timeout_tasks = []\<rparr>"
    and "task_step env sr (Receive packet interface) = Inr ([Route frame origin], sr)"
    and "route_queue env sr frame = Inr (Some (a, sr3))" "sr_arpcache_timeout_round env depth sr3 = Inr sr4" "P packet interface"
  shows "two_reachable P start \<lparr>memory = sr4, main_tasks = [Handle a], timeout_tasks = []\<rparr>"
proof -
  let ?R = "two_reachable P start"
  have "?R \<lparr>memory = sr, main_tasks = [Receive packet interface], timeout_tasks = []\<rparr>"
    using two_reachable.step [OF assms(1), of "Deliver packet interface" env] assms(5) by simp
  from two_reachable.step [OF this, of Main_Task env] assms(2)
  have "?R \<lparr>memory = sr, main_tasks = [Route frame origin], timeout_tasks = []\<rparr>" by (simp del: task_step.simps)
  from two_reachable.step [OF this, of Main_Task env] assms(3)
  have "?R \<lparr>memory = sr3, main_tasks = [Handle a], timeout_tasks = []\<rparr>" by simp
  from two_reachable.step [OF this, of Wake env]
  have w: "?R \<lparr>memory = sr3, main_tasks = [Handle a], timeout_tasks = [Round]\<rparr>" by simp
  have "run_tasks env [Round] sr3 = Some (Inr sr4)" using run_round [of env depth sr3 "[]"] assms(4) by simp
  from timeout_alone [OF this refl w] show ?thesis .
qed

section \<open>The race\<close>

text \<open>
  C33.  The race can be run into from the start: whenever a frame can be forwarded and its sender is not behind
  the same next hop, there is an interleaving, without any other traffic, in which this frame is received
  twice, nobody answers, and the main thread uses the request of the second frame after the timeout
  thread has freed it.
\<close>

theorem race_from_start:
  assumes "list_all if_wf (if_list start)" "own_unrouted start"
    and "42 \<le> length packet" "length packet \<le> 131072" "ethertype packet = Inr ethertype_ip" "ip_action_for start packet = Forward hop i"
    and "error_hop start packet \<noteq> Some hop"
    and "list_all mem_ok (env # envs)" "1 \<le> env_time env" "sorted_wrt (<) (map env_time (env # envs))" "length envs = 5"
  shows "\<exists>t a. two_reachable (\<lambda>p j. p = packet \<and> j = interface) start t \<and> main_tasks t = [Handle a] \<and>
    two_step t (last envs, Main_Task) = Some (Inl UseAfterFree)"
proof -
  let ?R = "two_reachable (\<lambda>p j. p = packet \<and> j = interface) start" and ?s = "sr_init start" and ?t = "ttl_decremented packet"
  obtain es e where es: "envs = es @ [e]" using assms(11) by (cases envs rule: rev_cases) auto
  have m: "mem_ok e" "list_all mem_ok (env # es)" "length es = 4" using assms(8,11) es by simp_all
  have srt: "sorted_wrt (<) (map env_time (env # es))" "last (env_time env # map env_time es) < env_time e"
    using assms(10) unfolding es by (auto simp: sorted_wrt_append last_map)
  have s: "sr_wf 42 ?s" "requests (cache ?s) = []" "same_config start ?s"
    using init_wf_any [OF assms(1)] by (simp_all add: sr_init_def sr_arpcache_init_def)
  have act: "ip_action_for ?s packet = Forward hop i" using assms(6) ip_action_config [OF s(3)] by simp
  obtain sr1 sr2 a where r: "sr_handlepacket env 2 ?s packet interface = Inr sr1" "timeout_rounds 2 sr1 es = Inr sr2" "same_config ?s sr2" "sr_wf 42 sr2"
    "awaiting hop (last (env_time env # map env_time es)) 5 (queued_packet (rewrite_l2 (if_addr i) ?t) (if_name i)) a sr2"
    by (rule tried_five_times [OF m(2) s(1,2) assms(3-5) act assms(9) srt(1) m(3)])
  have cfg: "same_config start sr2" using same_config_trans [OF s(3) r(3)] .
  have v: "ip_valid packet" and rt: "route_for start (ip_dst (frame_ip packet)) = Some (hop, i)"
    using assms(6) by (auto simp: ip_action_for_def split: if_splits option.splits)
  have t: "42 \<le> length ?t" "34 \<le> length ?t" "ip_dst (frame_ip ?t) = ip_dst (frame_ip packet)" "ip_src (frame_ip ?t) = ip_src (frame_ip packet)"
    using ttl_decremented_spec(1,4) [OF v] assms(3) by auto
  have mac: "length (if_addr i) = 6" using route_for_iface [OF rt] assms(1) by (auto simp: list_all_iff if_wf_def)
  have bk: "error_hop sr2 ?t \<noteq> Some hop" "error_hop sr2 (rewrite_l2 (if_addr i) ?t) \<noteq> Some hop"
    using assms(7) error_hop_config [OF cfg] t(4) frame_ip_rewrite_l2 [OF t(2) mac] by (simp_all add: error_hop_def)
  obtain sr3 sr4 where raced: "route_queue e sr2 ?t = Inr (Some (a, sr3))" "sr_arpcache_timeout_round e 2 sr3 = Inr sr4"
    "a \<notin> fst ` set (requests (cache sr4))"
    by (rule second_frame_raced [OF m(1) r(4) _ r(5) srt(2) t(1)])
      (use assms(2) own_unrouted_config [OF cfg] rt t(3) route_for_config [OF cfg] bk in simp_all)
  have "handle_event env 2 ?s (Frame packet interface) = Inr sr1" using r(1) by (simp add: handle_event_def)
  from event_alone [OF two_reachable.init this] have "?R \<lparr>memory = sr1, main_tasks = [], timeout_tasks = []\<rparr>" by simp
  from rounds_alone [OF r(2) this] have r2: "?R \<lparr>memory = sr2, main_tasks = [], timeout_tasks = []\<rparr>" .
  have rcv: "task_step e sr2 (Receive packet interface) = Inr ([Route ?t (Some (packet, interface))], sr2)"
    using receive_forward [OF m(1) assms(5)] assms(6) ip_action_config [OF cfg] by simp
  have r7: "?R \<lparr>memory = sr4, main_tasks = [Handle a], timeout_tasks = []\<rparr>"
    by (rule round_overtakes [OF r2 rcv raced(1,2)]) simp
  have "deref_req (cache sr4) a = Inl UseAfterFree" using raced(3) by (simp add: deref_req_Inl map_of_eq_None_iff)
  then show ?thesis using r7 es
    by (intro exI [of _ "\<lparr>memory = sr4, main_tasks = [Handle a], timeout_tasks = []\<rparr>"] exI [of _ a]) simp
qed

theorem race_from_start_witness:
  "\<exists>t a. two_reachable (\<lambda>p j. p = sample_frame client server1 9 \<and> j = if_named ''eth3'') (example_router []) t \<and> main_tasks t = [Handle a] \<and>
     two_step t (good_env 15, Main_Task) = Some (Inl UseAfterFree)"
proof -
  have m: "list_all mem_ok (good_env 10 # map good_env [11, 12, 13, 14, 15])" by simp
  have l: "42 \<le> length (sample_frame client server1 9)" "length (sample_frame client server1 9) \<le> 131072" by simp_all
  have "error_hop (example_router []) (sample_frame client server1 9) \<noteq> Some server1" by simp
  from race_from_start [OF example_ifs example_own_unrouted l sample_frame_type sample_forward this m, of "if_named ''eth3''"] show ?thesis by simp
qed

end
