(* ===== verification/SR_Arp_Dump.thy ===== *)
theory SR_Arp_Dump
  imports SR_Arpcache SR_Print
begin

text \<open>
  The operations of \<^verbatim>\<open>sr_arpcache.c\<close> for the person at the terminal and for the end of the program, which
  the router itself never calls: \<^verbatim>\<open>sr_arpcache_dump\<close> and \<^verbatim>\<open>sr_arpcache_destroy\<close>.
\<close>

section \<open>Printing the table\<close>

fun hex :: "nat \<Rightarrow> bytes" where
  "hex n = (if n < 16 then [hex_digit 97 n] else hex (n div 16) @ [hex_digit 97 (n mod 16)])"

declare hex.simps [simp del]

text \<open>\<^verbatim>\<open>%.nx\<close>: at least \<open>n\<close> digits.\<close>

definition hex_prec :: "nat \<Rightarrow> nat \<Rightarrow> bytes" where
  "hex_prec n v = replicate (n - length (hex v)) 48 @ hex v"

text \<open>\<open>ctime\<close> is the text the C library gives for a time, which depends on the time zone.\<close>

definition dump_entry :: "(int \<Rightarrow> bytes) \<Rightarrow> sr_arpentry \<Rightarrow> bytes" where
  "dump_entry ctime cur =
     concat (map (\<lambda>b. hex_prec 1 (unat b)) (entry_mac cur)) @ str_bytes ''   '' @
     hex_prec 8 (unat (ntohl (entry_ip cur))) @ str_bytes ''   '' @
     take 24 (cstr (ctime (entry_added cur))) @ str_bytes ''   '' @ dec (if entry_valid cur then 1 else 0) @ nl"

definition sr_arpcache_dump :: "(int \<Rightarrow> bytes) \<Rightarrow> sr_arpcache \<Rightarrow> bytes" where
  "sr_arpcache_dump ctime c =
     nl @ str_bytes ''MAC            IP         ADDED                      VALID'' @ nl @
     str_bytes ''-----------------------------------------------------------'' @ nl @
     concat (map (dump_entry ctime) (entries c)) @ nl"

text \<open>The address is always eight digits long and can be read back.\<close>

lemma hex_length: "n < 16 ^ k \<Longrightarrow> 0 < k \<Longrightarrow> length (hex n) \<le> k"
proof (induction n arbitrary: k rule: hex.induct)
  case (1 n)
  show ?case
  proof (cases "n < 16")
    case False
    then obtain j where k: "k = Suc j" "0 < j" using 1(2,3) by (cases k; cases "k - 1") auto
    then have "n div 16 < 16 ^ j" using 1(2) by (simp add: less_mult_imp_div_less mult.commute)
    with 1(1) [OF False] k False show ?thesis by (simp add: hex.simps [of n])
  qed (use 1 in \<open>simp add: hex.simps [of n]\<close>)
qed

lemma hex_prec_length: "n < 16 ^ k \<Longrightarrow> 0 < k \<Longrightarrow> length (hex_prec k n) = k"
  using hex_length [of n k] by (simp add: hex_prec_def)

lemma hex_digit_value: "n < 16 \<Longrightarrow> (let v = unat (hex_digit 97 n) in if v < 58 then v - 48 else v - 87) = n"
  by (auto simp: hex_digit_def Let_def unsigned_of_nat take_bit_eq_mod)

definition hex_value :: "bytes \<Rightarrow> nat" where
  "hex_value = foldl (\<lambda>acc c. 16 * acc + (let v = unat c in if v < 58 then v - 48 else v - 87)) 0"

lemma hex_value_hex: "hex_value (hex n) = n"
proof (induction n rule: hex.induct)
  case (1 n)
  show ?case
  proof (cases "n < 16")
    case False
    then have "hex_value (hex n) = 16 * hex_value (hex (n div 16)) + n mod 16"
      using hex_digit_value [of "n mod 16"] by (simp add: hex.simps [of n] hex_value_def)
    with 1 [OF False] show ?thesis by simp
  qed (simp add: hex.simps [of n] hex_value_def hex_digit_value)
qed

lemma hex_value_prec: "hex_value (hex_prec k n) = n"
proof -
  have "foldl (\<lambda>acc c. 16 * acc + (let v = unat c in if v < 58 then v - 48 else v - 87)) 0 (replicate m (48 :: u8)) = (0 :: nat)" for m
    by (induction m) simp_all
  then show ?thesis using hex_value_hex [of n] by (simp add: hex_value_def hex_prec_def)
qed

text \<open>
  The column of the IP address identifies the address; the column of the hardware address does not,
  because its bytes are printed without leading zeros and without separators.
\<close>

lemma dump_ip_readable: "word_of_nat (hex_value (hex_prec 8 (unat (ntohl ip)))) = ntohl ip" "length (hex_prec 8 (unat (ntohl ip))) = 8"
  using unsigned_less [of "ntohl ip", where 'a = nat] by (simp_all add: hex_value_prec hex_prec_length)

lemma dump_mac_ambiguous:
  "\<exists>mac mac'. length mac = 6 \<and> length mac' = 6 \<and> mac \<noteq> mac' \<and>
     (\<forall>ctime e. dump_entry ctime (e\<lparr>entry_mac := mac\<rparr>) = dump_entry ctime (e\<lparr>entry_mac := mac'\<rparr>))"
proof -
  have "hex_prec 1 1 = [49]" "hex_prec 1 2 = [50]" "hex_prec 1 0x12 = [49, 50]" "hex_prec 1 0x21 = [50, 49]"
    by (simp_all add: hex_prec_def hex.simps hex_digit_def)
  then show ?thesis
    by (intro exI [of _ "[1, 0x21, 1, 1, 1, 1]"] exI [of _ "[0x12, 1, 1, 1, 1, 1]"]) (simp add: dump_entry_def)
qed

section \<open>The end of the cache\<close>

record cache_lock =
  lock_live :: bool
  attr_live :: bool

text \<open>
  \<^verbatim>\<open>sr_arpcache_destroy\<close> with the results of \<^verbatim>\<open>pthread_mutex_destroy\<close> and \<^verbatim>\<open>pthread_mutexattr_destroy\<close>, \<open>0\<close> on
  success: the second is called only if the first has failed.
\<close>

definition sr_arpcache_destroy :: "int \<Rightarrow> int \<Rightarrow> cache_lock \<Rightarrow> int \<times> cache_lock" where
  "sr_arpcache_destroy mutex_rc attr_rc l =
     (let l1 = (if mutex_rc = 0 then l\<lparr>lock_live := False\<rparr> else l) in
      if mutex_rc \<noteq> 0
      then (if attr_rc \<noteq> 0 then 1 else 0, if attr_rc = 0 then l1\<lparr>attr_live := False\<rparr> else l1)
      else (0, l1))"

text \<open>It never destroys both, and reports success when the lock is still alive.\<close>

lemma arpcache_destroy_incomplete:
  assumes "sr_arpcache_destroy mutex_rc attr_rc \<lparr>lock_live = True, attr_live = True\<rparr> = (rc, l)"
  shows "lock_live l \<or> attr_live l" "rc = 0 \<longleftrightarrow> mutex_rc = 0 \<or> attr_rc = 0" "lock_live l \<longleftrightarrow> mutex_rc \<noteq> 0"
  using assms by (auto simp: sr_arpcache_destroy_def Let_def split: if_splits)

end
