(* ===== verification/Spec2Isabelle.thy ===== *)
theory Spec2Isabelle
  imports SR_Messages SR_Log SR_Race SR_Arp_Dump
begin

text \<open>
  A verification of the simple router (a user-space IPv4 router in C that exchanges Ethernet frames with a
  virtual network server).

  \<^bold>\<open>The program.\<close>  The server delivers frames to \<^verbatim>\<open>sr_handlepacket\<close> (\<^verbatim>\<open>sr_router.c\<close>), which dispatches
  ARP frames to \<^verbatim>\<open>handle_arp_packet\<close> and IP frames to \<^verbatim>\<open>handle_ip_packet\<close>.  The latter answers echo
  requests, sends ICMP errors, or forwards.  Everything the router forwards or originates goes
  through \<^verbatim>\<open>route_and_send\<close>: exact-match route lookup (\<^verbatim>\<open>rt_exact_match\<close> over the list of \<^verbatim>\<open>sr_rt.c\<close>),
  queueing on the ARP request for the next hop (\<^verbatim>\<open>sr_arpcache.c\<close>), and \<^verbatim>\<open>handle_arpreq\<close>, which sends the
  ARP request once a second and after five attempts gives up with host-unreachable errors, which
  are routed again: the three functions are mutually recursive.  An ARP reply drains the queue of its
  sender through \<^verbatim>\<open>sr_send_packet\<close> (\<^verbatim>\<open>sr_vns_comm.c\<close>).  A second thread wakes every second, expires
  table entries and sweeps the requests.  \<^verbatim>\<open>main\<close> (\<^verbatim>\<open>sr_main.c\<close>) reads the command line, loads the
  routing table (\<^verbatim>\<open>sr_load_rt\<close>), connects and authenticates to the server (\<^verbatim>\<open>sr_connect_to_server\<close>, with
  \<^verbatim>\<open>sha1.c\<close>) and then handles one message of the server after the other (\<^verbatim>\<open>sr_read_from_server\<close>): frames,
  hardware information that configures the interfaces, a banner, the end of the session.

  \<^bold>\<open>The theories.\<close>
  \<^item> \<open>SR_Prelude\<close>: bytes and 8-, 16- and 32-bit words, little-endian loads and stores, byte order
    conversion, bounded buffer access, C strings, the faults a C program can run into.
  \<^item> \<open>SR_Protocol\<close>: the packed structs of \<^verbatim>\<open>sr_protocol.h\<close> as records with their byte layout; the locale
    \<open>struct_codec\<close> is the contract of a struct overlaid on a buffer, interpreted for five headers.
  \<^item> \<open>SR_Utils\<close>: \<^verbatim>\<open>cksum\<close> with its 32-bit accumulator and folding loop, compared with the sum of the
    16-bit words modulo \<open>65535\<close>.
  \<^item> \<open>SR_State\<close>: the records of \<^verbatim>\<open>sr_router.h\<close>, \<^verbatim>\<open>sr_if.h\<close>, \<^verbatim>\<open>sr_rt.h\<close>, \<^verbatim>\<open>sr_arpcache.h\<close>, and the environment
    of one event (clock, allocator, socket).
  \<^item> \<open>SR_If\<close>, \<open>SR_Rt\<close>: interface list and routing table.  \<open>SR_Vns_Send\<close>: packet log and
    \<^verbatim>\<open>sr_send_packet\<close>.
  \<^item> \<open>SR_Arpcache\<close>: the table of resolved addresses and the queue of pending requests.  Requests live
    at addresses that are never reused, so that a dangling pointer is a value the model can
    recognise (\<open>UseAfterFree\<close>).  The locale \<open>arp_queue\<close> is the queue's contract over the map from
    next hops to waiting frames.
  \<^item> \<open>SR_Router\<close>: every handler, the mutually recursive group with a bound on its nesting depth, the
    sweeper.
  \<^item> \<open>SR_Router_Inv\<close>: the invariant \<open>sr_wf\<close> and that all handlers keep it; the locale
    \<open>handler_contract\<close> states what the recursive group needs of the inner \<^verbatim>\<open>handle_arpreq\<close>.
  \<^item> \<open>SR_Retry\<close>, \<open>SR_Sweep\<close>: termination of the recursion by a ranking of the expired requests, the sweeper, and the
    two ways in which they fail.
  \<^item> \<open>SR_Frames\<close>, \<open>SR_Datapath\<close>, \<open>SR_Icmp\<close>, \<open>SR_Arp\<close>: what happens to the bytes of a frame, the
    abstract decision function \<open>ip_action_for\<close> and the refinement to it, the effect of each decision.
  \<^item> \<open>SR_Safety\<close>: frames are handled without a fault; states reachable by frames and rounds of the timeout thread.
  \<^item> \<open>SR_Giveup\<close>: what becomes of frames whose next hop never answers: retries, the give-up and the errors
    to the senders, over the rounds of the timeout thread.
  \<^item> \<open>SR_Contract\<close>: the locale \<open>operations\<close>, by which a relation every primitive operation keeps is kept by all
    handlers; interpreted for the addresses of requests, the packet log and the configuration.
  \<^item> \<open>SR_Threads\<close>: the two threads as steps, one for each region under the lock and each frame that is sent.
    The locale \<open>interference\<close> is what one thread may rely on; \<open>threads_reachable\<close> are the states of all
    interleavings.  What holds in all of them, the delivery of frames while rounds take place, and the race at the
    point where \<^verbatim>\<open>route_and_send\<close> does not hold the lock.
  \<^item> \<open>SR_Machine\<close>: the handlers as a stack of tasks, one for each part of the code between two calls of the
    recursive group (\<open>receive_task\<close>, \<open>route_task\<close>, \<open>handle_task\<close> and so on), run without any bound.  The locale
    \<open>handler_runs\<close> is what the stack promises of the inner \<^verbatim>\<open>handle_arpreq\<close>.  The runs have exactly the results
    of the functions of \<open>SR_Router\<close>.
  \<^item> \<open>SR_Interleave\<close>: two such stacks, one for each thread, interleaved task by task under the lock; the
    invariant of all interleavings, and that a dangling pointer to a request is the only cause of a fault.
    \<open>SR_Race\<close>: that this happens, starting from the initial state, with two ordinary frames.
  \<^item> \<open>SR_Arp_Dump\<close>: \<^verbatim>\<open>sr_arpcache_dump\<close> and \<^verbatim>\<open>sr_arpcache_destroy\<close>.
  \<^item> \<open>SR_Print\<close>: the printers of \<^verbatim>\<open>sr_utils.c\<close>, \<^verbatim>\<open>sr_if.c\<close> and \<^verbatim>\<open>sr_rt.c\<close> as functions to the text they write, and
    where they read past a frame.
  \<^item> \<open>SR_Load_Rt\<close>: \<^verbatim>\<open>sr_load_rt\<close> with \<^verbatim>\<open>fgets\<close>, \<^verbatim>\<open>sscanf\<close> and \<^verbatim>\<open>inet_aton\<close> written out; printed tables are read back,
    a file with one route a line, like those of the repository, gives these routes, lines with missing words and
    overlong words are not handled.
  \<^item> \<open>SR_Vns_Recv\<close>: the receiving side of \<^verbatim>\<open>sr_vns_comm.c\<close>: the read loops as partial functions over the events
    of the socket, every message and \<^verbatim>\<open>sr_connect_to_server\<close>.  The record \<open>session\<close> is the router with its
    socket, its files and the texts of the server.
  \<^item> \<open>SR_Framing\<close>: how messages are cut out of the stream; the locale \<open>fill_loop\<close> is the contract of a read
    loop, interpreted for both.  \<open>SR_Session\<close>: packets and hardware information.  \<open>SR_Auth\<close>: authentication
    and the set-up of the session.  \<open>SR_Session_Inv\<close>: what holds in every state of a session.
  \<^item> \<open>SR_Main\<close>: \<^verbatim>\<open>sr_main.c\<close>, the main loop against the list of messages, and whole runs of the program, for
    a topology and for a template, to the closing of the log.  The timeout thread takes part: any number of
    its rounds is made while the main thread waits for a message (\<open>wait_rounds\<close>).
  \<^item> \<open>SR_Messages\<close>: the structs of \<^verbatim>\<open>vnscommand.h\<close> as typed messages, the specification of what the client does
    with each, and that the main loop refines it.
  \<^item> \<open>SR_Log\<close>: a reader of pcap files, and that the log of a session and the file a run leaves can be read
    and hold every frame sent, as long as records are written one after the other; and what two records
    written at the same time can do to the log.
  \<^item> This theory: the way of a frame from reception to delivery.
  \<^item> \<open>SHA1\<close>: the streaming hash of \<^verbatim>\<open>sha1.c\<close> against a reference definition of SHA-1.
  \<^item> \<open>SR_Example\<close>: the topology of \<^verbatim>\<open>INSTRUCTIONS\<close> and \<^verbatim>\<open>rtable\<close>, at which the properties are exhibited.

  \<^bold>\<open>Modelling decisions.\<close>  Pointers into a buffer are offsets; an access outside it is the fault
  \<open>OutOfBounds\<close>, so a theorem that a handler returns a state says that it stays inside its buffers.
  Allocation failure is a choice of the environment (\<open>mem_ok\<close> says it never fails); each unchecked
  \<^verbatim>\<open>malloc\<close> of the code is a \<open>NullDeref\<close>.  The clock is constant during an event.  The host is
  little endian with 64-bit pointers.  The time of the last ARP request and the clock are unbounded
  integers, the attempt counter is a 32-bit word.  A piece of input to \<^verbatim>\<open>SHA1Input\<close> may have any length, in the
  code at most \<open>2 ^ 32 - 1\<close> bytes.  \<open>sr_init\<close> is the set-up of the cache; that the thread has been started is
  part of the relations and functions that let it act (\<open>main_loop\<close>, \<open>session_reachable\<close>, \<open>threads_reachable\<close>,
  \<open>two_reachable\<close>).  A record of the log is two writes (\<open>dump_writes\<close>), which \<open>sr_dump\<close> makes one right after the other;
  the bytes of the log reach its file when it is closed (\<open>sr_destroy_instance\<close>), and the process ends there.

  \<^bold>\<open>Bounds.\<close>  \<open>handle_arpreq\<close> takes a nesting bound, and the sweeper visits at most as many requests as the queue
  had when it started.  \<open>SR_Machine\<close> shows that neither matters: the code run without bounds ends exactly
  with the results the functions have for some depth.  \<open>SR_Sweep\<close> gives a depth that is enough, and
  describes when none is.  Frames are at most 128 KiB long where the checksum matters (the server's messages are at
  most 10000 bytes).

  The read loops and the main loop have no bound: they are partial functions whose value is missing
  when they do not end, and theorems that they return say that there is a value.

  \<^bold>\<open>Not modelled.\<close>  Progress and error messages on the terminal (the texts of the server and the printers
  are); the contents of the log file between its opening and the end of the program, and what the timeout
  thread sends after the log has been closed; interleavings finer than the tasks of \<open>SR_Interleave\<close> (a task reads a request
  and acts on what it has read, and the two threads' accesses to one word are not interleaved).  In \<open>SR_Main\<close> and \<open>SR_Messages\<close>
  the rounds of the timeout thread are made while the main thread waits for a message, and in
  \<open>session_reachable\<close> between messages; rounds while a frame is handled are in \<open>SR_Threads\<close> and \<open>SR_Interleave\<close>, log
  writes of both threads at the same time in \<open>SR_Log\<close>.  The tests and the network emulation are not part of the
  router.
\<close>

section \<open>From a received frame to its delivery\<close>

text \<open>
  C3.  A frame that is forwarded reaches its next hop once the next hop answers: after the frame has been handled,
  an ARP reply from the next hop makes the router send it, first among the frames waiting for that
  hop, through the outgoing interface with the hardware addresses of the reply and of the
  interface, with its TTL decremented, a valid header checksum and its payload unchanged.
\<close>

theorem forwarded_frame_is_delivered:
  assumes "mem_ok env" "sr_wf 34 sr" "no_expired (env_time env) sr" "1 \<le> depth"
    and "length packet \<le> 131072" "ethertype packet = Inr ethertype_ip" "ip_action_for sr packet = Forward hop i"
    and "sr_handlepacket env depth sr packet interface = Inr sr1"
    and "mem_ok env'" "arp_for_ip reply" "ntohs (ar_op (frame_arp reply)) = 2" "ar_sip (frame_arp reply) = hop"
    and "sr_get_interface sr interface' = Some j"
  shows "\<exists>sr2 f rest. sr_handlepacket env' depth sr1 reply interface' = Inr sr2 \<and>
    sock_out sr2 = sock_out sr1 @ packet_message f (strncpy (if_name i) 32) # rest \<and>
    pending (cache sr2) hop = None \<and>
    take 6 f = ar_sha (frame_arp reply) \<and> take 6 (drop 6 f) = if_addr i \<and> length f = length packet \<and> ip_valid f \<and>
    ip_ttl (frame_ip f) = ip_ttl (frame_ip packet) - 1 \<and> drop 34 f = drop 34 packet"
proof -
  obtain g s where q: "queued_for env sr hop i g sr1" and g: "length g = length packet" "take 6 (drop 6 g) = if_addr i"
    "frame_ip g = (frame_ip packet)\<lparr>ip_ttl := ip_ttl (frame_ip packet) - 1, ip_sum := s\<rparr>" "ip_valid g" "drop 34 g = drop 34 packet"
    using forward_effect [OF assms(1-7), of interface] assms(8) by auto
  have cfg: "same_config sr sr1" using q by (simp add: queued_for_def)
  have r: "route_for sr (ip_dst (frame_ip packet)) = Some (hop, i)"
    using assms(7) by (auto simp: ip_action_for_def split: if_splits option.splits)
  have mac: "length (if_addr i) = 6" using sr_wf_if [OF assms(2) route_for_iface [OF r]] by simp
  have wf1: "sr_wf 34 sr1"
    using sr_handlepacket_keeps [of 34 sr packet env depth interface] assms(2,8) by (simp add: keeps_Inr) linarith
  have sha: "length (ar_sha (frame_arp reply)) = 6" using assms(10) by (simp add: arp_for_ip_def frame_arp_wf)
  have ifs: "sr_get_interface sr1 = sr_get_interface sr" using sr_get_interface_cong [OF same_configD(1) [OF cfg]] .
  have i: "sr_get_interface sr (strncpy (if_name i) 32) = Some i" by (rule route_own_iface [OF r])
  obtain ps where ps: "pending (cache sr1) hop = Some (queued_packet g (if_name i) # ps)" using q by (simp add: queued_for_def)
  let ?f = "delivered (ar_sha (frame_arp reply)) i g"
  obtain sr2 where h: "sr_handlepacket env' depth sr1 reply interface' = Inr sr2" "pending (cache sr2) hop = None"
    "sock_out sr2 = sock_out sr1 @ packet_message ?f (strncpy (if_name i) 32) # deliveries sr1 (ar_sha (frame_arp reply)) ps"
    using arp_reply_effect [OF assms(9) wf1 assms(10) _ assms(11), of interface' j depth] assms(12,13) ps i ifs
    by (auto simp: deliveries_def)
  have d: "drop 12 ?f = drop 12 g" using sha mac by (simp add: delivered_def)
  have dn: "drop n ?f = drop n g" if "12 \<le> n" for n using arg_cong [OF d, of "drop (n - 12)"] that by simp
  have "34 \<le> length packet" using g(1,4) by (simp add: ip_valid_def)
  then have len: "length ?f = length packet" using g(1) sha mac by (simp add: delivered_def)
  have "frame_ip ?f = frame_ip g" using dn [of 14] by (simp add: frame_ip_def)
  moreover from this have "ip_valid ?f" using g(1,4) len dn [of 14] by (simp add: ip_valid_def header_region_def header_len_def)
  moreover have "take 6 ?f = ar_sha (frame_arp reply)" "take 6 (drop 6 ?f) = if_addr i" using sha mac by (simp_all add: delivered_def)
  ultimately show ?thesis using h g(3,5) len dn [of 34] by (intro exI [of _ sr2] exI [of _ ?f]) auto
qed

theorem forwarded_frame_is_delivered_witness:
  "\<exists>sr1 sr2 f rest.
     sr_handlepacket (good_env 10) 1 (example_router []) (sample_frame client server1 9) (if_named ''eth3'') = Inr sr1 \<and>
     sr_handlepacket (good_env 11) 1 sr1 (sample_arp 2 [1, 2, 3, 4, 5, 6] server1 eth1_ip) (if_named ''eth1'') = Inr sr2 \<and>
     sock_out sr2 = sock_out sr1 @ packet_message f (strncpy (if_name eth1) 32) # rest \<and>
     take 6 f = [1, 2, 3, 4, 5, 6] \<and> ip_ttl (frame_ip f) = 8"
proof -
  have l: "length (sample_frame client server1 9) \<le> 131072" by simp
  obtain sr1 where h: "sr_handlepacket (good_env 10) 1 (example_router []) (sample_frame client server1 9) (if_named ''eth3'') = Inr sr1"
    using forward_effect [where env = "good_env 10" and interface = "if_named ''eth3''",
        OF mem_ok_good_env example_router_34 order_refl l sample_frame_type sample_forward] by blast
  let ?a = "sample_arp 2 [1, 2, 3, 4, 5, 6] server1 eth1_ip"
  have a: "arp_for_ip ?a" "ntohs (ar_op (frame_arp ?a)) = 2" "ar_sip (frame_arp ?a) = server1" "ar_sha (frame_arp ?a) = [1, 2, 3, 4, 5, 6]"
    by (simp_all add: sample_arp_facts)
  obtain sr2 f rest where "sr_handlepacket (good_env 11) 1 sr1 ?a (if_named ''eth1'') = Inr sr2"
    "sock_out sr2 = sock_out sr1 @ packet_message f (strncpy (if_name eth1) 32) # rest"
    "take 6 f = ar_sha (frame_arp ?a)" "ip_ttl (frame_ip f) = ip_ttl (frame_ip (sample_frame client server1 9)) - 1"
    using forwarded_frame_is_delivered [OF mem_ok_good_env example_router_34 order_refl l sample_frame_type sample_forward h
        mem_ok_good_env a(1,2,3) example_interfaces(1), of 11] by blast
  then show ?thesis using h a(4) by (auto simp: sample_frame_ip)
qed

end
